(* ===== verification/Egg_Prelude.thy ===== *)
theory Egg_Prelude
  imports Main "HOL-Library.Word" "HOL-Library.Multiset"
begin

text \<open>
  Shared vocabulary of the development.

  \<^item> Go values: a \<open>byte\<close> is an \<open>8 word\<close>; a slice of bytes is a list of
    bytes, and the nil slice is the empty list (the sources test slices for nil
    and for length 0 together, never apart). A \<open>uuid\<close> is an opaque number that
    is only compared for equality.
  \<^item> Go panics: a computation that may panic has a result of type \<open>'a go\<close>,
    where \<open>Inl\<close> carries the panic; \<open>go_bind\<close> sequences two such computations,
    and \<open>go_assert\<close> is \<open>assertf\<close> of \<open>anonbcast/debug.go\<close>, which panics only when
    the DEBUG environment variable is set.
  \<^item> Slice primitives: \<open>go_index\<close> (a bounds-checked read), \<open>go_store\<close> (a bounds-checked
    write), \<open>go_copy\<close> (the builtin copy, which stops at the shorter operand).
  \<^item> Generic facts on lists of flags, on list updates and on the panic results,
    collected as simplification rules or in the collection \<open>go_simps\<close>.
\<close>

named_theorems go_simps "unfolding rules of the panic results and of the slice primitives"

type_synonym byte = "8 word"
type_synonym bytes = "byte list"
type_synonym uuid = nat

datatype go_panic =
    AssertionError
  | IndexOutOfRange
  | SliceBoundsOutOfRange
  | NilDereference
  | IntegerDivideByZero
  | ClosedChannel
  | Fatal string
  | Panic string

type_synonym 'a go = "go_panic + 'a"

subsection \<open>Panicking computations\<close>

definition go_bind :: "'a go \<Rightarrow> ('a \<Rightarrow> 'b go) \<Rightarrow> 'b go" where
  "go_bind m f = (case m of Inl e \<Rightarrow> Inl e | Inr x \<Rightarrow> f x)"

definition go_assert :: "bool \<Rightarrow> bool \<Rightarrow> unit go" where
  "go_assert debug condition = (if debug \<and> \<not> condition then Inl AssertionError else Inr ())"

definition go_index :: "'a list \<Rightarrow> nat \<Rightarrow> 'a go" where
  "go_index xs i = (if i < length xs then Inr (xs ! i) else Inl IndexOutOfRange)"

definition go_store :: "'a list \<Rightarrow> nat \<Rightarrow> 'a \<Rightarrow> 'a list go" where
  "go_store xs i x = (if i < length xs then Inr (xs[i := x]) else Inl IndexOutOfRange)"

definition go_copy :: "'a list \<Rightarrow> 'a list \<Rightarrow> 'a list" where
  "go_copy dst src = take (length dst) src @ drop (length src) dst"

fun go_store_all :: "nat \<Rightarrow> 'a list \<Rightarrow> 'a list \<Rightarrow> 'a list go" where
  "go_store_all i dst [] = Inr dst"
| "go_store_all i dst (x # xs) = go_bind (go_store dst i x) (\<lambda>dst'. go_store_all (Suc i) dst' xs)"

fun go_map :: "('a \<Rightarrow> 'b go) \<Rightarrow> 'a list \<Rightarrow> 'b list go" where
  "go_map f [] = Inr []"
| "go_map f (x # xs) = go_bind (f x) (\<lambda>y. go_bind (go_map f xs) (\<lambda>ys. Inr (y # ys)))"

subsection \<open>Counting the flags that are set\<close>

text \<open>
  The loops of \<open>numEncrypted\<close>, \<open>numScrambled\<close> and \<open>numDecrypted\<close> share one shape:
  count the entries of a slice of booleans that are true.
\<close>

fun count_true :: "bool list \<Rightarrow> nat" where
  "count_true [] = 0"
| "count_true (s # ss) = (if s then Suc (count_true ss) else count_true ss)"

lemma go_bind_Inl [simp, go_simps]: "go_bind (Inl e) f = Inl e"
  by (simp add: go_bind_def)

lemma go_bind_Inr [simp, go_simps]: "go_bind (Inr x) f = f x"
  by (simp add: go_bind_def)

lemma go_bind_eq_Inr: "go_bind m f = Inr y \<longleftrightarrow> (\<exists>x. m = Inr x \<and> f x = Inr y)"
  by (cases m) auto

lemma go_bindE:
  assumes "go_bind m f = Inr y"
  obtains x where "m = Inr x" and "f x = Inr y"
  using assms by (auto simp: go_bind_eq_Inr)

lemma go_bind_assoc: "go_bind (go_bind m f) g = go_bind m (\<lambda>x. go_bind (f x) g)"
  by (cases m) auto

lemma go_assert_True [simp]: "go_assert debug True = Inr ()"
  by (simp add: go_assert_def)

lemma go_assert_nodebug [simp]: "go_assert False c = Inr ()"
  by (simp add: go_assert_def)

lemma go_assert_eq_Inr: "go_assert debug c = Inr u \<longleftrightarrow> (debug \<longrightarrow> c)"
  by (simp add: go_assert_def)

lemma go_index_in [simp]: "i < length xs \<Longrightarrow> go_index xs i = Inr (xs ! i)"
  by (simp add: go_index_def)

lemma go_store_in [simp]: "i < length xs \<Longrightarrow> go_store xs i x = Inr (xs[i := x])"
  by (simp add: go_store_def)

lemma length_go_copy [simp]: "length (go_copy dst src) = length dst"
  by (simp add: go_copy_def)

lemma go_copy_same_length [simp]: "length dst = length src \<Longrightarrow> go_copy dst src = src"
  by (simp add: go_copy_def)

lemma go_store_all_append:
  assumes "length xs \<le> length ys"
  shows "go_store_all (length zs) (zs @ ys) xs = Inr (zs @ xs @ drop (length xs) ys)"
  using assms
proof (induction xs arbitrary: zs ys)
  case Nil
  then show ?case by simp
next
  case (Cons x xs)
  then obtain y ys' where ys: "ys = y # ys'" and len: "length xs \<le> length ys'"
    by (cases ys) auto
  have "go_store_all (length (zs @ [x])) ((zs @ [x]) @ ys') xs = Inr ((zs @ [x]) @ xs @ drop (length xs) ys')"
    by (rule Cons.IH [OF len])
  then show ?case by (simp add: ys go_store_def)
qed

lemma go_store_all_prefix:
  "length xs \<le> length ys \<Longrightarrow> go_store_all 0 ys xs = Inr (xs @ drop (length xs) ys)"
  using go_store_all_append [of xs ys "[]"] by simp

lemma go_store_all_same_length:
  "length xs = length ys \<Longrightarrow> go_store_all 0 ys xs = Inr xs"
  using go_store_all_prefix [of xs ys] by simp

lemma go_store_all_too_long:
  assumes "i \<le> length ys" and "length ys < i + length xs"
  shows "go_store_all i ys xs = Inl IndexOutOfRange"
  using assms
proof (induction xs arbitrary: i ys)
  case Nil
  then show ?case by simp
next
  case (Cons x xs)
  show ?case
  proof (cases "i < length ys")
    case True
    with Cons.prems have "go_store_all (Suc i) (ys[i := x]) xs = Inl IndexOutOfRange"
      by (intro Cons.IH) auto
    with True show ?thesis by simp
  next
    case False
    then show ?thesis by (simp add: go_store_def)
  qed
qed

lemma go_map_Inr: "(\<And>x. x \<in> set xs \<Longrightarrow> f x = Inr (g x)) \<Longrightarrow> go_map f xs = Inr (map g xs)"
  by (induction xs) auto

lemma go_map_Inl: "x \<in> set xs \<Longrightarrow> f x = Inl e \<Longrightarrow> \<exists>e'. go_map f xs = Inl e'"
proof (induction xs)
  case Nil
  then show ?case by simp
next
  case (Cons y ys)
  then show ?case by (cases "f y"; cases "go_map f ys") auto
qed

lemma count_true_append [simp]: "count_true (xs @ ys) = count_true xs + count_true ys"
  by (induction xs) auto

lemma count_true_le: "count_true ss \<le> length ss"
  by (induction ss) auto

lemma count_true_full: "count_true ss = length ss \<longleftrightarrow> (\<forall>s \<in> set ss. s)"
proof (induction ss)
  case Nil
  then show ?case by simp
next
  case (Cons s ss)
  with count_true_le [of ss] show ?case by auto
qed

lemma count_true_set: "i < length ss \<Longrightarrow> \<not> ss ! i \<Longrightarrow> count_true (ss[i := True]) = Suc (count_true ss)"
proof (induction ss arbitrary: i)
  case Nil
  then show ?case by simp
next
  case (Cons s ss)
  then show ?case by (cases i) auto
qed

lemma count_true_none: "(\<forall>s \<in> set ss. \<not> s) \<Longrightarrow> count_true ss = 0"
  by (induction ss) auto

lemma count_true_eq_card: "count_true ss = card {i. i < length ss \<and> ss ! i}"
proof (induction ss rule: rev_induct)
  case Nil
  then show ?case by simp
next
  case (snoc s ss)
  have "{i. i < length (ss @ [s]) \<and> (ss @ [s]) ! i} =
      {i. i < length ss \<and> ss ! i} \<union> (if s then {length ss} else {})"
    by (auto simp: nth_append less_Suc_eq)
  moreover have "finite {i. i < length ss \<and> ss ! i}" by simp
  ultimately show ?case using snoc.IH by (simp add: card_insert_if)
qed

subsection \<open>Flags that are set from left to right\<close>

definition left_to_right :: "bool list \<Rightarrow> bool" where
  "left_to_right ss \<longleftrightarrow> (\<forall>i \<in> {0..<length ss}. 0 < i \<and> ss ! i \<longrightarrow> ss ! (i - 1))"

lemma left_to_right_Suc: "left_to_right ss \<longleftrightarrow> (\<forall>i. Suc i < length ss \<longrightarrow> ss ! Suc i \<longrightarrow> ss ! i)"
proof
  assume l: "left_to_right ss"
  show "\<forall>i. Suc i < length ss \<longrightarrow> ss ! Suc i \<longrightarrow> ss ! i"
  proof (intro allI impI)
    fix i
    assume "Suc i < length ss" and "ss ! Suc i"
    with l show "ss ! i" by (force simp: left_to_right_def)
  qed
next
  assume s: "\<forall>i. Suc i < length ss \<longrightarrow> ss ! Suc i \<longrightarrow> ss ! i"
  show "left_to_right ss"
    unfolding left_to_right_def
  proof (intro ballI impI)
    fix i
    assume "i \<in> {0..<length ss}" and "0 < i \<and> ss ! i"
    with s show "ss ! (i - 1)" by (cases i) auto
  qed
qed

lemma left_to_right_down:
  assumes "left_to_right ss" and "j < length ss" and "ss ! j" and "i \<le> j"
  shows "ss ! i"
  using assms(4,2,3)
proof (induction j rule: dec_induct)
  case base
  then show ?case by simp
next
  case (step n)
  with assms(1) have "ss ! n" by (auto simp: left_to_right_Suc)
  with step show ?case by simp
qed

lemma left_to_right_count:
  assumes "left_to_right ss" and "i < length ss"
  shows "ss ! i \<longleftrightarrow> i < count_true ss"
proof -
  let ?S = "{i. i < length ss \<and> ss ! i}"
  have fin: "finite ?S" by simp
  show ?thesis
  proof
    assume "ss ! i"
    then have "{0..i} \<subseteq> ?S"
      using assms left_to_right_down [OF assms(1,2)] by auto
    then have "card {0..i} \<le> card ?S" by (intro card_mono fin)
    then show "i < count_true ss" by (simp add: count_true_eq_card)
  next
    assume lt: "i < count_true ss"
    show "ss ! i"
    proof (rule ccontr)
      assume "\<not> ss ! i"
      then have "?S \<subseteq> {0..<i}"
        using left_to_right_down [OF assms(1)] by (auto simp: not_less [symmetric]) (meson not_le_imp_less)
      then have "card ?S \<le> card {0..<i}" by (intro card_mono) auto
      with lt show False by (simp add: count_true_eq_card)
    qed
  qed
qed

lemma left_to_right_set_next:
  assumes "left_to_right ss" and "count_true ss < length ss"
  shows "left_to_right (ss[count_true ss := True])"
  unfolding left_to_right_Suc
proof (intro allI impI)
  fix i
  let ?k = "count_true ss"
  assume i: "Suc i < length (ss[?k := True])" and s: "ss[?k := True] ! Suc i"
  show "ss[?k := True] ! i"
  proof (cases "Suc i = ?k")
    case True
    then have "i < ?k" by simp
    with i have "ss ! i" using left_to_right_count [OF assms(1)] by simp
    then show ?thesis using assms(2) by (simp add: nth_list_update)
  next
    case False
    with i s have "ss ! Suc i" by simp
    with assms(1) i have "ss ! i" by (auto simp: left_to_right_Suc)
    then show ?thesis using assms(2) by (simp add: nth_list_update)
  qed
qed

lemma left_to_right_append_False: "left_to_right ss \<Longrightarrow> left_to_right (ss @ [False])"
  by (auto simp: left_to_right_Suc nth_append less_Suc_eq)

lemma left_to_right_all_False: "\<forall>s \<in> set ss. \<not> s \<Longrightarrow> left_to_right ss"
  unfolding left_to_right_Suc using nth_mem by blast

subsection \<open>Runs of a step function\<close>

text \<open>
  A component whose operations may panic is a step function into \<open>'s go\<close>. The contract
  \<open>safe_steps\<close> says that a step that does not panic keeps the invariant; \<open>total_steps\<close> that no step from
  a state that satisfies it panics, either; \<open>ordered_steps\<close> adds a preorder that every step
  climbs. The lemmas lift all three to runs, that is, to sequences of operations.
\<close>

fun go_run :: "('s \<Rightarrow> 'e \<Rightarrow> 's go) \<Rightarrow> 's \<Rightarrow> 'e list \<Rightarrow> 's go" where
  "go_run step s [] = Inr s"
| "go_run step s (e # es) = go_bind (step s e) (\<lambda>s'. go_run step s' es)"

lemma go_run_append: "go_run step s (es @ fs) = go_bind (go_run step s es) (\<lambda>s'. go_run step s' fs)"
  by (induction es arbitrary: s) (auto simp: go_bind_assoc)

locale safe_steps =
  fixes step :: "'s \<Rightarrow> 'e \<Rightarrow> 's go"
    and inv :: "'s \<Rightarrow> bool"
  assumes step_safe: "inv s \<Longrightarrow> step s e = Inr s' \<Longrightarrow> inv s'"
begin

lemma run_safe: "inv s \<Longrightarrow> go_run step s es = Inr s' \<Longrightarrow> inv s'"
  by (induction es arbitrary: s) (auto elim!: go_bindE dest: step_safe)

end

locale total_steps =
  fixes step :: "'s \<Rightarrow> 'e \<Rightarrow> 's go"
    and inv :: "'s \<Rightarrow> bool"
  assumes step_total: "inv s \<Longrightarrow> \<exists>s'. step s e = Inr s' \<and> inv s'"
begin

lemma run_total: "inv s \<Longrightarrow> \<exists>s'. go_run step s es = Inr s' \<and> inv s'"
proof (induction es arbitrary: s)
  case Nil
  then show ?case by simp
next
  case (Cons e es)
  then obtain s' where "step s e = Inr s'" and "inv s'" using step_total by blast
  with Cons.IH show ?case by auto
qed

lemma step_inv: "inv s \<Longrightarrow> step s e = Inr s' \<Longrightarrow> inv s'"
  using step_total [of s e] by auto

lemma run_inv: "inv s \<Longrightarrow> go_run step s es = Inr s' \<Longrightarrow> inv s'"
  using run_total [of s es] by auto

end

sublocale total_steps \<subseteq> safe_steps
  by unfold_locales (rule step_inv)

locale ordered_steps = total_steps +
  fixes le :: "'s \<Rightarrow> 's \<Rightarrow> bool"
  assumes le_refl: "inv s \<Longrightarrow> le s s"
    and le_trans: "inv s \<Longrightarrow> inv t \<Longrightarrow> inv u \<Longrightarrow> le s t \<Longrightarrow> le t u \<Longrightarrow> le s u"
    and step_le: "inv s \<Longrightarrow> step s e = Inr s' \<Longrightarrow> le s s'"
begin

lemma run_le: "inv s \<Longrightarrow> go_run step s es = Inr s' \<Longrightarrow> le s s'"
proof (induction es arbitrary: s)
  case Nil
  then show ?case by (simp add: le_refl)
next
  case (Cons e es)
  from Cons.prems(2) obtain t where t: "step s e = Inr t" and u: "go_run step t es = Inr s'"
    by (auto elim!: go_bindE)
  have "inv t" by (rule step_inv [OF Cons.prems(1) t])
  moreover have "inv s'" by (rule run_inv [OF \<open>inv t\<close> u])
  moreover have "le s t" by (rule step_le [OF Cons.prems(1) t])
  moreover have "le t s'" by (rule Cons.IH [OF \<open>inv t\<close> u])
  ultimately show ?case using le_trans Cons.prems(1) by blast
qed

end

end
