(* ===== verification/Big_Int.thy ===== *)
theory Big_Int
  imports Egg_Prelude
begin

text \<open>
  The part of Go's \<open>math/big\<close> and \<open>crypto/rand\<close> that the sources use. A \<open>*big.Int\<close>
  that holds a value read from bytes is never negative, so it is a \<open>nat\<close>.

  \<^item> \<open>bigInt\<close> is \<open>bigInt\<close> of \<open>anonbcast/crypto.go\<close> (a wrapper of \<open>SetBytes\<close>, big endian);
    \<open>big_Bytes\<close>, \<open>big_BitLen\<close>, \<open>big_Exp\<close> and \<open>big_ModInverse\<close> are the library methods.
  \<^item> \<open>rand_Int\<close> is \<open>rand.Int\<close> of \<open>crypto/rand\<close>, with the reader of random bytes a finite
    list, the bytes it gives before it fails: a read past its end is the reader's error. Its loop draws until the
    candidate is below the bound and consumes bytes in every turn, so it ends with a candidate or with that error.

  The lemmas are the round trips between numbers and byte strings, the bounds
  that the bit length gives, and the range of \<open>rand_Int\<close>.
\<close>

definition bigInt :: "bytes \<Rightarrow> nat" where
  "bigInt bs = foldl (\<lambda>acc b. acc * 256 + unat b) 0 bs"

fun big_Bytes :: "nat \<Rightarrow> bytes" where
  "big_Bytes n = (if n = 0 then [] else big_Bytes (n div 256) @ [of_nat (n mod 256)])"

declare big_Bytes.simps [simp del]

fun big_BitLen :: "nat \<Rightarrow> nat" where
  "big_BitLen n = (if n = 0 then 0 else Suc (big_BitLen (n div 2)))"

declare big_BitLen.simps [simp del]

definition big_Exp :: "nat \<Rightarrow> nat \<Rightarrow> nat \<Rightarrow> nat" where
  "big_Exp x y m = (if m = 0 then x ^ y else x ^ y mod m)"

definition big_ModInverse :: "nat \<Rightarrow> nat \<Rightarrow> nat option" where
  "big_ModInverse g n =
     (if gcd g n = 1 then Some (nat (fst (bezw g n) mod int n)) else None)"

datatype rand_error = ReaderError

type_synonym reader = bytes

definition top_mask :: "nat \<Rightarrow> byte \<Rightarrow> byte" where
  "top_mask b x = of_nat (unat x mod 2 ^ b)"

function rand_Int_loop :: "nat \<Rightarrow> nat \<Rightarrow> nat \<Rightarrow> reader \<Rightarrow> (rand_error + nat) \<times> reader" where
  "rand_Int_loop k b limit random =
     (if k = 0 \<or> length random < k then (Inl ReaderError, [])
      else let bs = take k random;
               n = bigInt (top_mask b (hd bs) # tl bs)
           in if n < limit then (Inr n, drop k random)
              else rand_Int_loop k b limit (drop k random))"
  by pat_completeness auto
termination
  by (relation "measure (\<lambda>(k, b, limit, random). length random)") auto

declare rand_Int_loop.simps [simp del]

definition rand_Int :: "reader \<Rightarrow> int \<Rightarrow> ((rand_error + nat) \<times> reader) go" where
  "rand_Int random limit =
     (if limit \<le> 0 then Inl (Panic ''crypto/rand: argument to Int is <= 0'')
      else let bitLen = big_BitLen (nat (limit - 1))
           in if bitLen = 0 then Inr (Inr 0, random)
              else let k = (bitLen + 7) div 8;
                       b = (if bitLen mod 8 = 0 then 8 else bitLen mod 8)
                   in Inr (rand_Int_loop k b (nat limit) random))"

subsection \<open>Numbers and byte strings\<close>

lemma foldl_bytes: "foldl (\<lambda>acc b. acc * 256 + unat b) n (bs :: bytes) = n * 256 ^ length bs + bigInt bs"
proof (induction bs arbitrary: n)
  case Nil
  then show ?case by (simp add: bigInt_def)
next
  case (Cons b bs)
  show ?case
    using Cons.IH [of "n * 256 + unat b"] Cons.IH [of "unat b"]
    by (simp add: bigInt_def algebra_simps)
qed

lemma bigInt_Nil [simp]: "bigInt [] = 0"
  by (simp add: bigInt_def)

lemma bigInt_Cons: "bigInt (b # bs) = unat b * 256 ^ length bs + bigInt bs"
  using foldl_bytes [of "unat b" bs] by (simp add: bigInt_def)

lemma bigInt_snoc: "bigInt (bs @ [b]) = bigInt bs * 256 + unat b"
  by (simp add: bigInt_def)

lemma bigInt_append: "bigInt (as @ bs) = bigInt as * 256 ^ length bs + bigInt bs"
proof (induction bs rule: rev_induct)
  case Nil
  then show ?case by simp
next
  case (snoc b bs)
  then show ?case
    by (simp add: bigInt_snoc algebra_simps flip: append_assoc)
qed

lemma unat_byte_less: "unat (b :: byte) < 256"
  using unsigned_less [of b] by simp

lemma bigInt_less: "bigInt bs < 256 ^ length bs"
proof (induction bs rule: rev_induct)
  case Nil
  then show ?case by simp
next
  case (snoc b bs)
  have "bigInt bs * 256 + unat b < (bigInt bs + 1) * 256"
    using unat_byte_less [of b] by simp
  also have "\<dots> \<le> 256 ^ length bs * 256"
    using snoc.IH by (intro mult_right_mono) auto
  finally show ?case by (simp add: bigInt_snoc)
qed

lemma bigInt_less_bits: "bigInt bs < 2 ^ (8 * length bs)"
  using bigInt_less [of bs] power_mult [of "2::nat" 8 "length bs"] by simp

lemma bigInt_zeros: "bigInt (replicate k 0 @ bs) = bigInt bs"
  by (induction k) (simp_all add: bigInt_Cons)

lemma bigInt_Bytes [simp]: "bigInt (big_Bytes n) = n"
proof (induction n rule: big_Bytes.induct)
  case (1 n)
  have "unat (of_nat (n mod 256) :: byte) = n mod 256"
    by (simp add: unat_of_nat)
  with "1" show ?case
    by (subst big_Bytes.simps) (auto simp: bigInt_snoc)
qed

lemma big_Bytes_0 [simp]: "big_Bytes 0 = []"
  by (simp add: big_Bytes.simps)

lemma big_Bytes_Nil_iff [simp]: "big_Bytes n = [] \<longleftrightarrow> n = 0"
  by (subst big_Bytes.simps) simp

lemma big_Bytes_step:
  "0 < n * 256 + unat b \<Longrightarrow> big_Bytes (n * 256 + unat b) = big_Bytes n @ [b]"
  using unat_byte_less [of b] by (subst big_Bytes.simps) (simp add: div_add1_eq)

lemma bigInt_pos: "b \<noteq> 0 \<Longrightarrow> 0 < bigInt (b # bs)"
  by (simp add: bigInt_Cons unat_gt_0)

lemma big_Bytes_bigInt:
  assumes "bs \<noteq> []" and "hd bs \<noteq> 0"
  shows "big_Bytes (bigInt bs) = bs"
  using assms
proof (induction bs rule: rev_induct)
  case Nil
  then show ?case by simp
next
  case (snoc b bs)
  show ?case
  proof (cases "bs = []")
    case True
    with snoc.prems show ?thesis
      using big_Bytes_step [of 0 b] by (simp add: bigInt_Cons unat_gt_0)
  next
    case False
    with snoc have IH: "big_Bytes (bigInt bs) = bs" by simp
    from False snoc.prems have "0 < bigInt bs"
      by (cases bs) (auto intro: bigInt_pos)
    then have "big_Bytes (bigInt bs * 256 + unat b) = big_Bytes (bigInt bs) @ [b]"
      by (intro big_Bytes_step) simp
    with IH show ?thesis by (simp add: bigInt_snoc)
  qed
qed

lemma big_Bytes_dropWhile: "big_Bytes (bigInt bs) = dropWhile ((=) 0) bs"
proof (induction bs)
  case Nil
  then show ?case by simp
next
  case (Cons b bs)
  then show ?case
    using big_Bytes_bigInt [of "b # bs"] by (auto simp: bigInt_Cons)
qed

lemma hd_big_Bytes: "0 < n \<Longrightarrow> hd (big_Bytes n) \<noteq> 0"
proof (induction n rule: big_Bytes.induct)
  case (1 n)
  show ?case
  proof (cases "n < 256")
    case True
    with "1.prems" have "unat (of_nat n :: byte) \<noteq> 0" by (simp add: unat_of_nat)
    then have "(of_nat n :: byte) \<noteq> 0" by auto
    with True "1.prems" show ?thesis by (simp add: big_Bytes.simps [of n])
  next
    case False
    with "1" have "hd (big_Bytes (n div 256)) \<noteq> 0" by simp
    moreover have "big_Bytes (n div 256) \<noteq> []" using False by simp
    ultimately show ?thesis using "1.prems" by (simp add: big_Bytes.simps [of n])
  qed
qed

subsection \<open>Bit lengths\<close>

lemma big_BitLen_0 [simp]: "big_BitLen 0 = 0"
  by (simp add: big_BitLen.simps)

lemma big_BitLen_eq_0 [simp]: "big_BitLen n = 0 \<longleftrightarrow> n = 0"
  by (subst big_BitLen.simps) simp

lemma less_2_power_BitLen: "n < 2 ^ big_BitLen n"
proof (induction n rule: big_BitLen.induct)
  case (1 n)
  show ?case
  proof (cases "n = 0")
    case True
    then show ?thesis by simp
  next
    case False
    with "1" have "n div 2 < 2 ^ big_BitLen (n div 2)" by simp
    then have "n < 2 * 2 ^ big_BitLen (n div 2)" by linarith
    with False show ?thesis by (simp add: big_BitLen.simps [of n])
  qed
qed

lemma BitLen_power_le: "0 < n \<Longrightarrow> 2 ^ (big_BitLen n - 1) \<le> n"
proof (induction n rule: big_BitLen.induct)
  case (1 n)
  show ?case
  proof (cases "n = 1")
    case True
    then show ?thesis by (simp add: big_BitLen.simps)
  next
    case False
    with "1" have IH: "2 ^ (big_BitLen (n div 2) - 1) \<le> n div 2" by simp
    from False "1.prems" have "n div 2 \<noteq> 0" by auto
    then have "0 < big_BitLen (n div 2)" by (subst neq0_conv [symmetric], subst big_BitLen_eq_0)
    then obtain l where "big_BitLen (n div 2) = Suc l" by (cases "big_BitLen (n div 2)") auto
    with IH have "2 * 2 ^ l \<le> n" by simp
    with \<open>big_BitLen (n div 2) = Suc l\<close> "1.prems" show ?thesis
      by (simp add: big_BitLen.simps [of n])
  qed
qed

lemma BitLen_unique:
  assumes "2 ^ k \<le> n" and "n < 2 ^ Suc k"
  shows "big_BitLen n = Suc k"
proof -
  have "0 < n" using assms(1) by (cases n) auto
  then have "2 ^ (big_BitLen n - 1) < (2::nat) ^ Suc k"
    using BitLen_power_le assms(2) by (metis le_less_trans)
  then have a: "big_BitLen n - 1 < Suc k" by (simp only: power_strict_increasing_iff)
  have "(2::nat) ^ k < 2 ^ big_BitLen n"
    using assms(1) less_2_power_BitLen [of n] by (metis le_less_trans)
  then have "k < big_BitLen n" by simp
  with a show ?thesis by simp
qed

subsection \<open>Exponentiation\<close>

lemma big_Exp_Exp: "0 < m \<Longrightarrow> big_Exp (big_Exp x y m) z m = x ^ (y * z) mod m"
  by (simp add: big_Exp_def power_mod power_mult)

lemma big_Exp_commute: "big_Exp (big_Exp x y m) z m = big_Exp (big_Exp x z m) y m"
  by (simp add: big_Exp_def power_mod power_mult [symmetric] mult.commute)

subsection \<open>Inverses\<close>

lemma big_ModInverse_mult:
  assumes "big_ModInverse g n = Some d" and "0 < n"
  shows "(g * d) mod n = 1 mod n" and "d < n"
proof -
  from assms(1) have gcd: "gcd g n = 1" and d: "d = nat (fst (bezw g n) mod int n)"
    by (auto simp: big_ModInverse_def split: if_splits)
  let ?x = "fst (bezw g n)" and ?y = "snd (bezw g n)"
  have bez: "?x * int g + ?y * int n = 1"
    using bezw_aux [of g n] gcd by simp
  have nn: "0 \<le> ?x mod int n" using assms(2) by simp
  have "int (g * d mod n) = (int g * (?x mod int n)) mod int n"
    using nn by (simp add: d of_nat_mod)
  also have "\<dots> = (int g * ?x) mod int n" by (simp add: mod_mult_right_eq)
  also have "\<dots> = (?x * int g + ?y * int n) mod int n" by (simp add: mult.commute)
  also have "\<dots> = int (1 mod n)" by (simp only: bez of_nat_mod of_nat_1)
  finally show "(g * d) mod n = 1 mod n" by (simp only: of_nat_eq_iff)
  show "d < n" using assms(2) by (simp add: d nat_less_iff)
qed

lemma big_ModInverse_exists: "gcd g n = 1 \<Longrightarrow> \<exists>d. big_ModInverse g n = Some d"
  by (simp add: big_ModInverse_def)

subsection \<open>Random numbers\<close>

lemma rand_Int_loop_less:
  "rand_Int_loop k b limit random = (Inr n, random') \<Longrightarrow> n < limit"
proof (induction k b limit random rule: rand_Int_loop.induct)
  case (1 k b limit random)
  then show ?case
    by (simp add: rand_Int_loop.simps [of k b limit random] Let_def split: if_splits)
qed

lemma rand_Int_loop_consumes:
  "rand_Int_loop k b limit random = (Inr n, random') \<Longrightarrow> length random' < length random"
proof (induction k b limit random rule: rand_Int_loop.induct)
  case (1 k b limit random)
  show ?case
  proof (cases "k = 0 \<or> length random < k")
    case True
    with "1.prems" show ?thesis by (simp add: rand_Int_loop.simps [of k b limit random])
  next
    case False
    then have shorter: "length (drop k random) < length random" by auto
    let ?n = "bigInt (top_mask b (hd (take k random)) # tl (take k random))"
    show ?thesis
    proof (cases "?n < limit")
      case True
      with False shorter "1.prems" show ?thesis
        by (auto simp add: rand_Int_loop.simps [of k b limit random] Let_def)
    next
      case retry: False
      with False "1.prems" have "rand_Int_loop k b limit (drop k random) = (Inr n, random')"
        by (simp add: rand_Int_loop.simps [of k b limit random] Let_def)
      then have "length random' < length (drop k random)"
        using False retry by (intro "1.IH") auto
      with shorter show ?thesis by simp
    qed
  qed
qed

lemma rand_Int_range: "rand_Int random limit = Inr (Inr n, random') \<Longrightarrow> int n < limit"
  by (auto simp: rand_Int_def Let_def split: if_splits dest!: rand_Int_loop_less)

lemma rand_Int_consumes:
  "rand_Int random limit = Inr (Inr n, random') \<Longrightarrow> limit \<noteq> 1 \<Longrightarrow> length random' < length random"
  by (auto simp: rand_Int_def Let_def split: if_splits dest!: rand_Int_loop_consumes)

end
