(* ===== verification/Prime_Mod.thy ===== *)
theory Prime_Mod
  imports Main
begin

text \<open>
  The number theory under the Massey-Omura scheme: primality of natural
  numbers as an executable predicate, Euclid's lemma, Fermat's little theorem (by
  the binomial expansion of a successor modulo a prime), and its consequence for
  a pair of exponents whose product is 1 modulo \<open>p - 1\<close>: raising to one and then
  to the other is the identity on the residues modulo \<open>p\<close> that are not 0.
\<close>

definition is_prime :: "nat \<Rightarrow> bool" where
  "is_prime p \<longleftrightarrow> 1 < p \<and> (\<forall>d \<in> {2..<p}. \<not> d dvd p)"

lemma is_prime_gt_1: "is_prime p \<Longrightarrow> 1 < p"
  by (simp add: is_prime_def)

lemma is_prime_dvd:
  assumes "is_prime p" and "d dvd p"
  shows "d = 1 \<or> d = p"
proof -
  have "0 < p" using assms(1) by (simp add: is_prime_def)
  with assms(2) have "d \<le> p" and "0 < d" by (auto intro: dvd_imp_le dvd_pos_nat)
  with assms show ?thesis by (fastforce simp: is_prime_def)
qed

lemma is_prime_coprime: "is_prime p \<Longrightarrow> \<not> p dvd a \<Longrightarrow> coprime p a"
  using is_prime_dvd [of p "gcd p a"] by (auto simp: coprime_iff_gcd_eq_1 dest!: sym [of p])
    (metis gcd_dvd1 gcd_dvd2 is_prime_dvd)

lemma is_prime_dvd_mult: "is_prime p \<Longrightarrow> p dvd a * b \<Longrightarrow> p dvd a \<or> p dvd b"
  using coprime_dvd_mult_right_iff is_prime_coprime by blast

lemma is_prime_dvd_choose:
  assumes "is_prime p" and "0 < k" and "k < p"
  shows "p dvd (p choose k)"
proof -
  from assms(2) obtain j where k: "k = Suc j" by (cases k) auto
  have "k * (p choose k) = p * ((p - 1) choose j)"
    using binomial_absorption [of j p] by (simp add: k)
  then have "p dvd k * (p choose k)" by simp
  moreover have "\<not> p dvd k" using assms(2,3) by (auto dest: dvd_imp_le)
  ultimately show ?thesis using is_prime_dvd_mult [OF assms(1)] by blast
qed

lemma power_Suc_mod_prime:
  assumes "is_prime p"
  shows "(a + 1) ^ p mod p = (a ^ p + 1) mod p"
proof -
  have p: "1 < p" by (rule is_prime_gt_1 [OF assms])
  let ?f = "\<lambda>k. of_nat (p choose k) * a ^ k * 1 ^ (p - k) :: nat"
  have "(a + 1) ^ p = (\<Sum>k\<le>p. ?f k)" by (rule binomial_ring)
  also have "\<dots> = ?f p + (\<Sum>k<p. ?f k)" by (simp add: lessThan_Suc_atMost [symmetric])
  also have "(\<Sum>k<p. ?f k) = ?f 0 + (\<Sum>k \<in> {1..<p}. ?f k)"
    using p by (simp add: sum.atLeast_Suc_lessThan atLeast0LessThan [symmetric])
  finally have eq: "(a + 1) ^ p = a ^ p + 1 + (\<Sum>k \<in> {1..<p}. ?f k)" by simp
  have "p dvd (\<Sum>k \<in> {1..<p}. ?f k)"
    by (intro dvd_sum dvd_mult2) (auto intro: is_prime_dvd_choose [OF assms])
  then show ?thesis unfolding eq by (metis add.right_neutral dvd_eq_mod_eq_0 mod_add_right_eq)
qed

lemma fermat_power_p:
  assumes "is_prime p"
  shows "a ^ p mod p = a mod p"
proof (induction a)
  case 0
  then show ?case using is_prime_gt_1 [OF assms] by (simp add: power_0_left)
next
  case (Suc a)
  have "(a + 1) ^ p mod p = (a ^ p mod p + 1) mod p"
    using power_Suc_mod_prime [OF assms, of a] by (simp only: mod_add_left_eq)
  also have "\<dots> = (a + 1) mod p" by (simp add: Suc.IH mod_Suc_eq)
  finally show ?case by simp
qed

lemma mod_eq_imp_dvd: "(b::nat) mod p = c mod p \<Longrightarrow> c \<le> b \<Longrightarrow> p dvd b - c"
  by (metis mod_eq_dvd_iff_nat)

lemma fermat_little:
  assumes "is_prime p" and "\<not> p dvd a"
  shows "a ^ (p - 1) mod p = 1"
proof -
  have p: "1 < p" by (rule is_prime_gt_1 [OF assms(1)])
  have a: "0 < a" using assms(2) by (cases a) auto
  have "p dvd a ^ p - a"
    using fermat_power_p [OF assms(1), of a] a p by (intro mod_eq_imp_dvd) (auto simp: self_le_power)
  moreover have "a ^ p - a = a * (a ^ (p - 1) - 1)"
    using p by (cases p) (auto simp: algebra_simps)
  ultimately have "p dvd a ^ (p - 1) - 1"
    using is_prime_dvd_mult [OF assms(1)] assms(2) by auto
  moreover have "1 \<le> a ^ (p - 1)" using a by simp
  ultimately have "a ^ (p - 1) mod p = 1 mod p" by (simp only: mod_eq_dvd_iff_nat)
  with p show ?thesis by simp
qed

lemma power_inverse_exponents:
  assumes "is_prime p" and "0 < m" and "m < p" and "(e * d) mod (p - 1) = 1 mod (p - 1)"
  shows "m ^ (e * d) mod p = m"
proof (cases "p = 2")
  case True
  with assms(2,3) have "m = 1" by simp
  with True show ?thesis by simp
next
  case False
  have p: "1 < p" by (rule is_prime_gt_1 [OF assms(1)])
  with False have "1 mod (p - 1) = 1" by simp
  with assms(4) have one: "(e * d) mod (p - 1) = 1" by simp
  define k where "k = (e * d) div (p - 1)"
  have "e * d = k * (p - 1) + 1"
    using div_mult_mod_eq [of "e * d" "p - 1"] one by (simp add: k_def)
  then have "m ^ (e * d) = (m ^ (p - 1)) ^ k * m"
    by (simp add: power_add power_mult [symmetric] mult.commute)
  moreover have "\<not> p dvd m" using assms(2,3) by (auto dest: dvd_imp_le)
  then have "m ^ (p - 1) mod p = 1" by (rule fermat_little [OF assms(1)])
  then have "(m ^ (p - 1)) ^ k mod p = 1"
    by (metis One_nat_def p mod_less power_mod power_one)
  ultimately have "m ^ (e * d) mod p = (1 * m) mod p"
    by (metis mod_mult_left_eq)
  with assms(3) show ?thesis by simp
qed

lemma power_mod_pos:
  assumes "is_prime p" and "0 < m" and "m < p"
  shows "0 < m ^ e mod p"
proof -
  have nd: "\<not> p dvd m" using assms(2,3) by (auto dest: dvd_imp_le)
  have "\<not> p dvd m ^ e"
  proof (induction e)
    case 0
    then show ?case using is_prime_gt_1 [OF assms(1)] by simp
  next
    case (Suc e)
    with nd is_prime_dvd_mult [OF assms(1)] show ?case by auto
  qed
  then show ?thesis by (simp add: dvd_eq_mod_eq_0)
qed

lemma is_prime_sqrt:
  assumes "1 < p" and "p < k * k" and "\<forall>d \<in> {2..<k}. \<not> d dvd p"
  shows "is_prime p"
  unfolding is_prime_def
proof (intro conjI ballI notI)
  show "1 < p" by (rule assms(1))
  fix d
  assume d: "d \<in> {2..<p}" and "d dvd p"
  then obtain q where q: "p = d * q" by (auto elim: dvdE)
  have "1 < q"
  proof (rule ccontr)
    assume "\<not> 1 < q"
    then have "d * q \<le> d * 1" by (intro mult_left_mono) auto
    with d q show False by simp
  qed
  have "\<not> d < k" using assms(3) d \<open>d dvd p\<close> by auto
  moreover have "q dvd p" using q by simp
  then have "\<not> q < k" using assms(3) \<open>1 < q\<close> by auto
  ultimately have "k * k \<le> d * q" by (intro mult_le_mono) auto
  with assms(2) q show False by simp
qed

subsection \<open>Proth's criterion\<close>

text \<open>Proth's criterion certifies a large prime of the form \<open>k * 2 ^ m + 1\<close> by one power.\<close>

lemma least_divisor_prime:
  assumes "1 < (p :: nat)"
  shows "\<exists>q. is_prime q \<and> q dvd p \<and> (\<forall>d. 1 < d \<and> d dvd p \<longrightarrow> q \<le> d)"
proof -
  define q where "q = (LEAST d. 1 < d \<and> d dvd p)"
  have q: "1 < q \<and> q dvd p" unfolding q_def by (rule LeastI [of _ p]) (use assms in simp)
  have least: "q \<le> d" if "1 < d" "d dvd p" for d unfolding q_def by (rule Least_le) (use that in simp)
  have "\<not> d dvd q" if "d \<in> {2..<q}" for d
  proof
    assume "d dvd q"
    then have "d dvd p" using q dvd_trans by blast
    with least [of d] that show False by auto
  qed
  with q have "is_prime q" by (simp add: is_prime_def)
  with q least show ?thesis by blast
qed

lemma odd_part: "0 < (n :: nat) \<Longrightarrow> \<exists>s t. n = 2 ^ s * t \<and> odd t"
proof (induction n rule: less_induct)
  case (less n)
  show ?case
  proof (cases "odd n")
    case True
    then show ?thesis by (intro exI [of _ 0] exI [of _ n]) simp
  next
    case False
    then obtain h where h: "n = 2 * h" by blast
    with less obtain s t where "h = 2 ^ s * t" "odd t" by (metis nat_0_less_mult_iff less_add_same_cancel1 mult_2)
    with h show ?thesis by (intro exI [of _ "Suc s"] exI [of _ t]) simp
  qed
qed

lemma minus_one_odd_power:
  assumes "1 < q" and "odd t"
  shows "(q - 1) ^ t mod q = q - (1 :: nat)"
proof -
  obtain u where t: "t = 2 * u + 1" using assms(2) by (elim oddE)
  obtain z where z: "q = z + 2" using assms(1) by (metis Suc_1 add.commute less_eqE Suc_leI)
  have "(q - 1) * (q - 1) = q * z + 1" by (simp add: z algebra_simps)
  then have "(q - 1) * (q - 1) mod q = 1 mod q" by (simp only: mod_mult_self4)
  then have "(q - 1) * (q - 1) mod q = 1" using assms(1) by simp
  then have "((q - 1) * (q - 1)) ^ u mod q = 1" using assms(1) by (metis mod_less power_mod power_one)
  then have "((q - 1) * (q - 1)) ^ u * (q - 1) mod q = q - 1" using assms(1) by (metis diff_less less_trans mod_less mod_mult_left_eq mult_1 zero_less_one)
  moreover have "(q - 1) ^ t = ((q - 1) * (q - 1)) ^ u * (q - 1)"
    by (simp only: t power_add power_mult power_one_right power2_eq_square)
  ultimately show ?thesis by simp
qed

lemma proth_divisor:
  assumes "p = k * 2 ^ Suc m + 1" and "a ^ 2 ^ m mod p = p - 1" and "is_prime q" and "q dvd p"
  shows "2 ^ Suc m dvd q - 1"
proof (rule ccontr)
  assume no: "\<not> ?thesis"
  have q: "1 < q" by (rule is_prime_gt_1 [OF assms(3)])
  obtain c where c: "p = q * c" using assms(4) by (elim dvdE)
  have "c \<noteq> 0" using c assms(1) by (cases c) auto
  then have "p - 1 = q * (c - 1) + (q - 1)" using c q by (cases c) (auto simp: algebra_simps)
  then have "(p - 1) mod q = (q - 1) mod q" by (simp only: mod_mult_self4)
  then have "(p - 1) mod q = q - 1" using q by simp
  then have x: "a ^ 2 ^ m mod q = q - 1" using assms(2,4) by (metis mod_mod_cancel)
  obtain s t where st: "q - 1 = 2 ^ s * t" "odd t" using odd_part [of "q - 1"] q by auto
  have "s \<le> m" using no st(1) by (metis dvd_triv_left le_imp_power_dvd dvd_trans not_less_eq_eq)
  then have pw: "(2 :: nat) ^ m = 2 ^ s * 2 ^ (m - s)" by (metis le_add_diff_inverse power_add)
  have "2 ^ m * t = (q - 1) * 2 ^ (m - s)" unfolding st(1) pw by (simp only: mult_ac)
  then have "(a ^ 2 ^ m) ^ t = (a ^ (q - 1)) ^ 2 ^ (m - s)" by (simp only: power_mult [symmetric])
  moreover have "\<not> q dvd a"
  proof
    assume "q dvd a"
    moreover have "a dvd a ^ 2 ^ m" by (rule dvd_power) simp
    ultimately have "q dvd a ^ 2 ^ m" by (rule dvd_trans)
    with x q show False by auto
  qed
  then have "a ^ (q - 1) mod q = 1" by (rule fermat_little [OF assms(3)])
  ultimately have "(a ^ 2 ^ m) ^ t mod q = 1" using q by (metis mod_less power_mod power_one)
  moreover have "(a ^ 2 ^ m) ^ t mod q = q - 1"
    using minus_one_odd_power [OF q st(2)] x by (metis power_mod)
  ultimately have "q = 2" using q by simp
  with assms(1,4) show False by simp
qed

lemma proth:
  assumes "p = k * 2 ^ Suc m + 1" and "0 < k" and "k \<le> 2 ^ Suc m" and "a ^ 2 ^ m mod p = p - 1"
  shows "is_prime p"
proof -
  have p: "1 < p" using assms(1,2) by simp
  obtain q where q: "is_prime q" "q dvd p" "\<And>d. 1 < d \<Longrightarrow> d dvd p \<Longrightarrow> q \<le> d" using least_divisor_prime [OF p] by blast
  have "2 ^ Suc m dvd q - 1" by (rule proth_divisor [OF assms(1,4) q(1,2)])
  then have "2 ^ Suc m \<le> q - 1" using is_prime_gt_1 [OF q(1)] by (auto intro: dvd_imp_le)
  then have large: "2 ^ Suc m + 1 \<le> q" using is_prime_gt_1 [OF q(1)] by linarith
  show ?thesis
  proof (rule is_prime_sqrt [OF p])
    have "k * x + 1 < (x + 1) * (x + 1)" if "k \<le> x" "0 < x" for x
    proof -
      have "(x + 1) * (x + 1) = x * x + 2 * x + 1" by (simp add: algebra_simps)
      moreover have "k * x \<le> x * x" using that(1) by (rule mult_right_mono) simp
      ultimately show ?thesis using that(2) by linarith
    qed
    moreover have "0 < (2 :: nat) ^ Suc m" by simp
    ultimately show "p < (2 ^ Suc m + 1) * (2 ^ Suc m + 1)" unfolding assms(1) using assms(3) by blast
    show "\<forall>d \<in> {2..<2 ^ Suc m + 1}. \<not> d dvd p"
    proof (intro ballI notI)
      fix d
      assume d: "d \<in> {2..<2 ^ Suc m + 1}" and "d dvd p"
      then have "q \<le> d" using q(3) [of d] by simp
      moreover have "d < 2 ^ Suc m + 1" using d by (simp only: atLeastLessThan_iff)
      ultimately show False using large by linarith
    qed
  qed
qed

text \<open>Repeated squaring with given quotients and remainders: the last remainder, if they are all right.\<close>

fun square_chain :: "nat \<Rightarrow> nat \<Rightarrow> (nat \<times> nat) list \<Rightarrow> nat option" where
  "square_chain p x [] = Some x"
| "square_chain p x ((q, r) # cs) = (if x * x = q * p + r then square_chain p r cs else None)"

lemma square_chain_power: "square_chain p x cs = Some y \<Longrightarrow> x ^ 2 ^ length cs mod p = y mod p"
proof (induction p x cs rule: square_chain.induct)
  case (2 p x q r cs)
  then have "x * x = q * p + r" and IH: "r ^ 2 ^ length cs mod p = y mod p" by (auto split: if_splits)
  then have "x * x mod p = r mod p" by simp
  then have "(x * x) ^ 2 ^ length cs mod p = r ^ 2 ^ length cs mod p" by (metis power_mod)
  with IH show ?case by (simp add: power_mult power2_eq_square)
qed simp

lemma square_chain_append:
  "square_chain p x cs = Some y \<Longrightarrow> square_chain p y ds = z \<Longrightarrow> square_chain p x (cs @ ds) = z"
  by (induction p x cs rule: square_chain.induct) (auto split: if_splits)

end
