(* ===== verification/Commutative_Cipher.thy ===== *)
theory Commutative_Cipher
  imports Egg_Prelude
begin

text \<open>
  The contract that the protocol needs of a commutative encryption scheme, as a
  locale: encryption and decryption under a good key map good messages to
  good messages, are inverse to each other, and encryptions under different
  keys commute. The client lemmas, proved once here, are about whole lists of
  keys: the order in which keys are applied does not matter, a decryption passes
  through encryptions under other keys, and decrypting with all the keys,
  in any order, undoes encrypting with all of them.

  The interpretations are in \<open>Massey_Omura\<close> (on numbers) and in \<open>Crypto\<close> (on the
  byte messages of \<open>anonbcast/crypto.go\<close>).
\<close>

locale commutative_cipher =
  fixes enc :: "'k \<Rightarrow> 'm \<Rightarrow> 'm"
    and dec :: "'k \<Rightarrow> 'm \<Rightarrow> 'm"
    and key_ok :: "'k \<Rightarrow> bool"
    and msg_ok :: "'m \<Rightarrow> bool"
  assumes enc_ok: "key_ok k \<Longrightarrow> msg_ok m \<Longrightarrow> msg_ok (enc k m)"
    and dec_ok: "key_ok k \<Longrightarrow> msg_ok m \<Longrightarrow> msg_ok (dec k m)"
    and dec_enc: "key_ok k \<Longrightarrow> msg_ok m \<Longrightarrow> dec k (enc k m) = m"
    and enc_dec: "key_ok k \<Longrightarrow> msg_ok m \<Longrightarrow> enc k (dec k m) = m"
    and enc_commute: "key_ok k \<Longrightarrow> key_ok l \<Longrightarrow> msg_ok m \<Longrightarrow> enc k (enc l m) = enc l (enc k m)"
begin

lemma dec_enc_swap:
  assumes "key_ok k" and "key_ok l" and "msg_ok m"
  shows "dec k (enc l m) = enc l (dec k m)"
proof -
  have "enc l m = enc l (enc k (dec k m))" using assms by (simp add: enc_dec)
  also have "\<dots> = enc k (enc l (dec k m))" using assms by (simp add: enc_commute dec_ok)
  finally show ?thesis using assms by (simp add: dec_enc enc_ok dec_ok)
qed

lemma dec_commute:
  assumes "key_ok k" and "key_ok l" and "msg_ok m"
  shows "dec k (dec l m) = dec l (dec k m)"
proof -
  have "m = enc l (dec l m)" using assms by (simp add: enc_dec)
  then have "dec k m = enc l (dec k (dec l m))"
    using assms dec_enc_swap [of k l "dec l m"] by (simp add: dec_ok)
  then show ?thesis using assms by (simp add: dec_enc dec_ok)
qed

lemma enc_all_ok: "\<forall>k \<in> set ks. key_ok k \<Longrightarrow> msg_ok m \<Longrightarrow> msg_ok (fold enc ks m)"
  by (induction ks arbitrary: m) (auto simp: enc_ok)

lemma dec_all_ok: "\<forall>k \<in> set ks. key_ok k \<Longrightarrow> msg_ok m \<Longrightarrow> msg_ok (fold dec ks m)"
  by (induction ks arbitrary: m) (auto simp: dec_ok)

lemma enc_all_enc:
  "key_ok k \<Longrightarrow> \<forall>l \<in> set ks. key_ok l \<Longrightarrow> msg_ok m \<Longrightarrow> fold enc ks (enc k m) = enc k (fold enc ks m)"
proof (induction ks arbitrary: m)
  case Nil
  then show ?case by simp
next
  case (Cons l ks)
  then have "fold enc ks (enc k (enc l m)) = enc k (fold enc ks (enc l m))" by (simp add: enc_ok)
  with Cons.prems show ?case by (simp add: enc_commute [of l k])
qed

lemma dec_enc_all:
  "key_ok k \<Longrightarrow> \<forall>l \<in> set ks. key_ok l \<Longrightarrow> msg_ok m \<Longrightarrow> dec k (fold enc ks m) = fold enc ks (dec k m)"
  by (induction ks arbitrary: m) (auto simp: enc_ok dec_ok dec_enc_swap)

lemma enc_all_remove1:
  assumes "\<forall>l \<in> set ks. key_ok l" and "msg_ok m" and "k \<in> set ks"
  shows "fold enc ks m = enc k (fold enc (remove1 k ks) m)"
  using assms
proof (induction ks arbitrary: m)
  case Nil
  then show ?case by simp
next
  case (Cons l ks)
  show ?case
  proof (cases "k = l")
    case True
    with Cons.prems show ?thesis by (simp add: enc_all_enc)
  next
    case False
    with Cons have "fold enc ks (enc l m) = enc k (fold enc (remove1 k ks) (enc l m))"
      by (simp add: enc_ok)
    with False show ?thesis by simp
  qed
qed

lemma dec_all_enc_all:
  assumes "mset ks = mset ls" and "\<forall>k \<in> set ks. key_ok k" and "msg_ok m"
  shows "fold dec ls (fold enc ks m) = m"
  using assms
proof (induction ls arbitrary: ks)
  case Nil
  then show ?case by simp
next
  case (Cons l ls)
  from Cons.prems(1) have "l \<in> set ks" by (metis list.set_intros(1) set_mset_mset)
  then have "fold enc ks m = enc l (fold enc (remove1 l ks) m)"
    by (rule enc_all_remove1 [OF Cons.prems(2,3)])
  moreover have rest: "\<forall>k \<in> set (remove1 l ks). key_ok k"
    using Cons.prems(2) set_remove1_subset [of l ks] by blast
  then have "msg_ok (fold enc (remove1 l ks) m)" by (intro enc_all_ok Cons.prems(3))
  ultimately have "dec l (fold enc ks m) = fold enc (remove1 l ks) m"
    using \<open>l \<in> set ks\<close> Cons.prems(2) by (simp add: dec_enc)
  moreover have "mset (remove1 l ks) = mset ls" using Cons.prems(1) by simp
  ultimately show ?case using Cons.IH [OF _ rest Cons.prems(3)] by simp
qed

lemma enc_all_perm:
  assumes "mset ks = mset ls" and "\<forall>k \<in> set ks. key_ok k" and "msg_ok m"
  shows "fold enc ks m = fold enc ls m"
  using assms
proof (induction ls arbitrary: ks m)
  case Nil
  then show ?case by simp
next
  case (Cons l ls)
  from Cons.prems(1) have l: "l \<in> set ks" by (metis list.set_intros(1) set_mset_mset)
  have rest: "\<forall>k \<in> set (remove1 l ks). key_ok k"
    using Cons.prems(2) set_remove1_subset [of l ks] by blast
  have "fold enc ks m = enc l (fold enc (remove1 l ks) m)"
    by (rule enc_all_remove1 [OF Cons.prems(2,3) l])
  also have "\<dots> = fold enc (remove1 l ks) (enc l m)"
    using l Cons.prems(2,3) rest by (simp add: enc_all_enc)
  also have "\<dots> = fold enc ls (enc l m)"
    using l Cons.prems rest by (intro Cons.IH) (auto simp: enc_ok)
  finally show ?case by simp
qed

end

end
