(* ===== verification/Massey_Omura.thy ===== *)
theory Massey_Omura
  imports Big_Int Prime_Mod Commutative_Cipher "HOL-Library.Signed_Division"
begin

text \<open>
  The package \<open>masseyomura\<close>: the commutative encryption scheme
  (\<open>basics.go\<close>, \<open>keygen.go\<close>, \<open>encrypt.go\<close>).

  \<^item> \<open>mo_SystemKey\<close> and \<open>mo_PrivateKey\<close> are the two key structs; the private key embeds
    the system key.
  \<^item> \<open>mo_randHelp\<close>, \<open>GenUserKey\<close>, \<open>GenSysKey\<close> and \<open>VerifySysKey\<close> are key generation and
    verification. The random reader is threaded through. The library's \<open>rand.Prime\<close> and
    \<open>ProbablyPrime\<close> are arguments: the first is randomised, the second probabilistic.
    A reader is the list of bytes it gives before it fails, so that the loop of \<open>GenUserKey\<close>,
    whose every further turn consumes bytes, ends at the latest with the reader's error; what that means for
    a reader that never fails is \<open>GenUserKey_returns\<close>, on the prefixes of an unending stream.
    The loop of \<open>GenSysKey\<close> is a partial function, None where it does not return.
  \<^item> \<open>mo_Encrypt\<close>, \<open>mo_Decrypt\<close> are the modular exponentiations; \<open>PrepareMsg\<close>, \<open>ExtractMsg\<close>,
    \<open>pad\<close>, \<open>unPad\<close>, \<open>bytesMaxSize\<close>, \<open>BitsMaxSize\<close> are the encoding of messages as numbers.

  The theorems: a generated key inverts itself and commutes with every other key,
  a prepared message is below the prime and is recovered by \<open>ExtractMsg\<close> when it is
  strictly shorter than the maximum, and a message of exactly the maximum length,
  which \<open>PrepareMsg\<close> accepts, is not recovered.
\<close>

datatype mo_error =
    MessageTooLong int int
  | WrongBitLen int int
  | NotProbablyPrime
  | ImpossibleNoInverse
  | RandError rand_error

record mo_SystemKey =
  sys_P :: nat

record mo_PrivateKey = mo_SystemKey +
  mo_E :: nat
  mo_D :: nat

subsection \<open>basics.go and keygen.go\<close>

definition mo_randHelp :: "reader \<Rightarrow> int \<Rightarrow> ((rand_error + nat) \<times> reader) go" where
  "mo_randHelp random Q =
     go_bind (rand_Int random (Q - 1)) (\<lambda>(r, random').
       case r of Inl err \<Rightarrow> Inr (Inl err, random') | Inr n \<Rightarrow> Inr (Inr (n + 1), random'))"

partial_function (option) GenSysKey ::
  "(reader \<Rightarrow> int \<Rightarrow> (rand_error + nat) \<times> reader) \<Rightarrow> (nat \<Rightarrow> bool) \<Rightarrow> reader \<Rightarrow> int \<Rightarrow>
   ((mo_error + mo_SystemKey) \<times> reader) option" where
  "GenSysKey rand_Prime probablyPrime random bitsp =
     (case fst (rand_Prime random bitsp) of
        Inl err \<Rightarrow> Some (Inl (RandError err), snd (rand_Prime random bitsp))
      | Inr p \<Rightarrow>
          if probablyPrime p then Some (Inr \<lparr>sys_P = p\<rparr>, snd (rand_Prime random bitsp))
          else GenSysKey rand_Prime probablyPrime (snd (rand_Prime random bitsp)) bitsp)"

definition VerifySysKey :: "(nat \<Rightarrow> bool) \<Rightarrow> mo_SystemKey \<Rightarrow> int \<Rightarrow> mo_error option" where
  "VerifySysKey probablyPrime syskey bitsp =
     (if int (big_BitLen (sys_P syskey)) \<noteq> bitsp
        then Some (WrongBitLen (int (big_BitLen (sys_P syskey))) bitsp)
      else if \<not> probablyPrime (sys_P syskey) then Some NotProbablyPrime
      else None)"

function GenUserKey_loop :: "int \<Rightarrow> reader \<Rightarrow> ((rand_error + nat) \<times> reader) go" where
  "GenUserKey_loop p1 random =
     (case mo_randHelp random p1 of
        Inl e \<Rightarrow> Inl e
      | Inr (Inl err, random') \<Rightarrow> Inr (Inl err, random')
      | Inr (Inr e, random') \<Rightarrow>
          if big_BitLen (gcd e (nat p1)) \<noteq> 1 then GenUserKey_loop p1 random'
          else Inr (Inr e, random'))"
  by pat_completeness auto

lemma mo_randHelp_range:
  assumes "mo_randHelp random Q = Inr (Inr e, random')"
  shows "0 < e" and "int e < Q"
  using assms by (auto simp: mo_randHelp_def elim!: go_bindE split: sum.split_asm dest!: rand_Int_range)

lemma mo_randHelp_consumes:
  assumes "mo_randHelp random Q = Inr (Inr e, random')" and "big_BitLen (gcd e (nat Q)) \<noteq> 1"
  shows "length random' < length random"
proof -
  from assms(1) obtain n where n: "rand_Int random (Q - 1) = Inr (Inr n, random')" and e: "e = n + 1"
    by (auto simp: mo_randHelp_def elim!: go_bindE split: sum.split_asm)
  have "Q - 1 \<noteq> 1"
  proof
    assume "Q - 1 = 1"
    with n have "e = 1" using rand_Int_range [OF n] by (simp add: e)
    then have "gcd e (nat Q) = 1" by simp
    with assms(2) show False by (simp add: big_BitLen.simps)
  qed
  with n show ?thesis by (rule rand_Int_consumes)
qed

termination GenUserKey_loop
  by (relation "measure (\<lambda>(p1, random). length random)") (auto dest: mo_randHelp_consumes)

declare GenUserKey_loop.simps [simp del]

definition GenUserKey :: "reader \<Rightarrow> mo_SystemKey \<Rightarrow> ((mo_error + mo_PrivateKey) \<times> reader) go" where
  "GenUserKey random syskey =
     (let p1 = int (sys_P syskey) - 1
      in go_bind (GenUserKey_loop p1 random) (\<lambda>(r, random').
           case r of
             Inl err \<Rightarrow> Inr (Inl (RandError err), random')
           | Inr e \<Rightarrow>
               (case big_ModInverse e (nat p1) of
                  None \<Rightarrow> Inr (Inl ImpossibleNoInverse, random')
                | Some d \<Rightarrow> Inr (Inr \<lparr>sys_P = sys_P syskey, mo_E = e, mo_D = d\<rparr>, random'))))"

subsection \<open>encrypt.go\<close>

definition bytesMaxSize :: "int \<Rightarrow> int" where
  "bytesMaxSize bits = (bits - 1) sdiv 8 - 1"

definition BitsMaxSize :: "int \<Rightarrow> int" where
  "BitsMaxSize n = 8 * (n + 1) + 1"

fun set_ones :: "nat \<Rightarrow> nat \<Rightarrow> bytes \<Rightarrow> bytes" where
  "set_ones i 0 padded = padded"
| "set_ones i (Suc n) padded = set_ones (Suc i) n (padded[i := 1])"

definition pad :: "bytes \<Rightarrow> int \<Rightarrow> bytes go" where
  "pad msg targetlen =
     (if int (length msg) > targetlen then Inl (Panic ''cannot make message shorter through padding'')
      else if int (length msg) = targetlen then Inl (Panic ''message too long to encrypt'')
      else
        let t = nat targetlen;
            padded = set_ones 0 (t - 1 - length msg) (replicate t 0);
            padded = padded[t - 1 - length msg := 0];
            s = t - length msg
        in Inr (take s padded @ go_copy (drop s padded) msg))"

fun unPad :: "bytes \<Rightarrow> bytes go" where
  "unPad [] = Inl (Panic ''no 0 in message'')"
| "unPad (b # bs) = (if b = 0 then Inr bs else unPad bs)"

definition PrepareMsg :: "bytes \<Rightarrow> int \<Rightarrow> (mo_error + nat) go" where
  "PrepareMsg msg plen =
     (let maxsize = bytesMaxSize plen
      in if int (length msg) > maxsize then Inr (Inl (MessageTooLong (int (length msg)) plen))
         else go_bind (pad msg (maxsize + 1)) (\<lambda>padded. Inr (Inr (bigInt padded))))"

definition mo_Encrypt :: "mo_PrivateKey \<Rightarrow> nat \<Rightarrow> nat" where
  "mo_Encrypt privkey prevC = big_Exp prevC (mo_E privkey) (sys_P privkey)"

definition mo_Decrypt :: "mo_PrivateKey \<Rightarrow> nat \<Rightarrow> nat" where
  "mo_Decrypt privkey prevD = big_Exp prevD (mo_D privkey) (sys_P privkey)"

definition ExtractMsg :: "nat \<Rightarrow> bytes go" where
  "ExtractMsg D = unPad (big_Bytes D)"

subsection \<open>What a private key must satisfy\<close>

definition mo_key_ok :: "mo_PrivateKey \<Rightarrow> bool" where
  "mo_key_ok k \<longleftrightarrow> is_prime (sys_P k) \<and>
     (mo_E k * mo_D k) mod (sys_P k - 1) = 1 mod (sys_P k - 1)"

definition residue_ok :: "nat \<Rightarrow> nat \<Rightarrow> bool" where
  "residue_ok p m \<longleftrightarrow> 0 < m \<and> m < p"

lemma mo_Encrypt_ok: "mo_key_ok k \<Longrightarrow> residue_ok (sys_P k) m \<Longrightarrow> residue_ok (sys_P k) (mo_Encrypt k m)"
  using power_mod_pos [of "sys_P k" m] is_prime_gt_1 [of "sys_P k"]
  by (simp add: residue_ok_def mo_key_ok_def mo_Encrypt_def big_Exp_def)

lemma mo_Decrypt_ok: "mo_key_ok k \<Longrightarrow> residue_ok (sys_P k) m \<Longrightarrow> residue_ok (sys_P k) (mo_Decrypt k m)"
  using power_mod_pos [of "sys_P k" m] is_prime_gt_1 [of "sys_P k"]
  by (simp add: residue_ok_def mo_key_ok_def mo_Decrypt_def big_Exp_def)

lemma mo_Decrypt_Encrypt:
  "mo_key_ok k \<Longrightarrow> residue_ok (sys_P k) m \<Longrightarrow> mo_Decrypt k (mo_Encrypt k m) = m"
  using is_prime_gt_1 [of "sys_P k"] power_inverse_exponents [of "sys_P k" m "mo_E k" "mo_D k"]
  by (simp add: mo_key_ok_def residue_ok_def mo_Decrypt_def mo_Encrypt_def big_Exp_Exp)

lemma mo_Encrypt_Decrypt:
  "mo_key_ok k \<Longrightarrow> residue_ok (sys_P k) m \<Longrightarrow> mo_Encrypt k (mo_Decrypt k m) = m"
  using is_prime_gt_1 [of "sys_P k"] power_inverse_exponents [of "sys_P k" m "mo_D k" "mo_E k"]
  by (simp add: mo_key_ok_def residue_ok_def mo_Decrypt_def mo_Encrypt_def big_Exp_Exp mult.commute)

lemma mo_Encrypt_commute:
  "sys_P k1 = sys_P k2 \<Longrightarrow> mo_Encrypt k1 (mo_Encrypt k2 m) = mo_Encrypt k2 (mo_Encrypt k1 m)"
  by (simp add: mo_Encrypt_def big_Exp_commute)

interpretation mo: commutative_cipher mo_Encrypt mo_Decrypt
    "\<lambda>k. mo_key_ok k \<and> sys_P k = p" "residue_ok p" for p
  by unfold_locales
    (auto simp: mo_Encrypt_ok mo_Decrypt_ok mo_Decrypt_Encrypt mo_Encrypt_Decrypt mo_Encrypt_commute)

subsection \<open>Key generation\<close>

lemma BitLen_1: "big_BitLen n = 1 \<longleftrightarrow> n = 1"
proof
  assume "big_BitLen n = 1"
  then show "n = 1"
    using less_2_power_BitLen [of n] big_BitLen_eq_0 [of n] by (cases "n = 0") auto
qed (simp add: big_BitLen.simps)

lemma GenUserKey_loop_ok:
  assumes "GenUserKey_loop p1 random = Inr (Inr e, random')"
  shows "0 < e \<and> int e < p1 \<and> gcd e (nat p1) = 1"
  using assms
proof (induction p1 random rule: GenUserKey_loop.induct)
  case (1 p1 random)
  show ?case
  proof (cases "mo_randHelp random p1")
    case (Inl a)
    with "1.prems" show ?thesis by (simp add: GenUserKey_loop.simps [of p1 random])
  next
    case (Inr b)
    obtain r rest where b: "b = (r, rest)" by (cases b)
    show ?thesis
    proof (cases r)
      case (Inl err)
      with Inr b "1.prems" show ?thesis by (simp add: GenUserKey_loop.simps [of p1 random])
    next
      case ok: (Inr e')
      from Inr ok b have draw: "mo_randHelp random p1 = Inr (Inr e', rest)" by simp
      show ?thesis
      proof (cases "big_BitLen (gcd e' (nat p1)) = 1")
        case True
        with draw "1.prems" have "e = e'" by (simp add: GenUserKey_loop.simps [of p1 random])
        with True draw show ?thesis
          using mo_randHelp_range [OF draw] by (simp only: BitLen_1)
      next
        case False
        with draw "1.prems" have rec: "GenUserKey_loop p1 rest = Inr (Inr e, random')"
          by (simp add: GenUserKey_loop.simps [of p1 random])
        show ?thesis
          by (rule "1.IH" [OF Inr b [symmetric] ok False rec])
      qed
    qed
  qed
qed

lemma GenUserKey_ok:
  assumes "is_prime (sys_P syskey)" and "GenUserKey random syskey = Inr (Inr k, random')"
  shows "mo_key_ok k" and "sys_P k = sys_P syskey" and "0 < mo_E k" and "mo_E k < sys_P syskey - 1"
proof -
  let ?p = "sys_P syskey"
  have p: "1 < ?p" by (rule is_prime_gt_1 [OF assms(1)])
  from assms(2) obtain e d where
      loop: "GenUserKey_loop (int ?p - 1) random = Inr (Inr e, random')"
    and inv: "big_ModInverse e (nat (int ?p - 1)) = Some d"
    and k: "k = \<lparr>sys_P = ?p, mo_E = e, mo_D = d\<rparr>"
    by (auto simp: GenUserKey_def Let_def elim!: go_bindE split: sum.split_asm option.split_asm)
  have n: "nat (int ?p - 1) = ?p - 1" by linarith
  from GenUserKey_loop_ok [OF loop] have e: "0 < e" "int e < int ?p - 1" by auto
  from inv p have "(e * d) mod (?p - 1) = 1 mod (?p - 1)"
    unfolding n by (intro big_ModInverse_mult(1)) auto
  with assms(1) show "mo_key_ok k" by (simp add: mo_key_ok_def k)
  from e show "sys_P k = ?p" "0 < mo_E k" "mo_E k < ?p - 1" by (auto simp: k)
qed

text \<open>
  A random reader that never fails is an unending stream of bytes, of which a run of
  \<open>GenUserKey\<close> sees a prefix. \<open>rand_Int\<close> cuts the stream into draws of \<open>draw_len\<close> bytes;
  \<open>candidate\<close> is the exponent a draw gives, and \<open>acceptable\<close> says that both the library's
  loop and the loop of \<open>GenUserKey\<close> keep it.
\<close>

definition draw_len :: "nat \<Rightarrow> nat" where
  "draw_len P = (big_BitLen (P - 3) + 7) div 8"

definition draw_top :: "nat \<Rightarrow> nat" where
  "draw_top P = (if big_BitLen (P - 3) mod 8 = 0 then 8 else big_BitLen (P - 3) mod 8)"

definition candidate :: "nat \<Rightarrow> bytes \<Rightarrow> nat" where
  "candidate P bs = bigInt (top_mask (draw_top P) (hd bs) # tl bs) + 1"

definition acceptable :: "nat \<Rightarrow> bytes \<Rightarrow> bool" where
  "acceptable P bs \<longleftrightarrow> candidate P bs < P - 1 \<and> gcd (candidate P bs) (P - 1) = 1"

definition nth_draw :: "nat \<Rightarrow> (nat \<Rightarrow> byte) \<Rightarrow> nat \<Rightarrow> bytes" where
  "nth_draw P s i = map s [i * draw_len P..<Suc i * draw_len P]"

lemma rand_Int_draw:
  assumes "4 \<le> P"
  shows "rand_Int random (int P - 2) = Inr (rand_Int_loop (draw_len P) (draw_top P) (P - 2) random)"
    and "0 < draw_len P"
proof -
  have "nat (int P - 2 - 1) = P - 3" "nat (int P - 2) = P - 2" using assms by linarith+
  then show "rand_Int random (int P - 2) = Inr (rand_Int_loop (draw_len P) (draw_top P) (P - 2) random)"
    using assms by (auto simp: rand_Int_def draw_len_def draw_top_def Let_def)
  have "big_BitLen (P - 3) \<noteq> 0" using assms by simp
  then have "8 \<le> big_BitLen (P - 3) + 7" by linarith
  then show "0 < draw_len P" by (simp only: draw_len_def div_greater_zero_iff) simp
qed

lemma GenUserKey_loop_short:
  assumes "4 \<le> P" and "length random < draw_len P"
  shows "GenUserKey_loop (int P - 1) random = Inr (Inl ReaderError, [])"
  using assms rand_Int_draw(1) [OF assms(1), of random]
  by (simp add: GenUserKey_loop.simps [of _ random] mo_randHelp_def rand_Int_loop.simps)

lemma GenUserKey_loop_draw:
  assumes "4 \<le> P" and "length bs = draw_len P"
  shows "GenUserKey_loop (int P - 1) (bs @ rest) =
    (if acceptable P bs then Inr (Inr (candidate P bs), rest) else GenUserKey_loop (int P - 1) rest)"
proof -
  let ?n = "bigInt (top_mask (draw_top P) (hd bs) # tl bs)"
  have less: "?n < P - 2 \<longleftrightarrow> candidate P bs < P - 1" unfolding candidate_def by linarith
  have "rand_Int_loop (draw_len P) (draw_top P) (P - 2) (bs @ rest) =
      (if candidate P bs < P - 1 then (Inr ?n, rest) else rand_Int_loop (draw_len P) (draw_top P) (P - 2) rest)"
    using assms(2) rand_Int_draw(2) [OF assms(1)]
    by (simp add: rand_Int_loop.simps [of _ _ _ "bs @ rest"] Let_def less del: One_nat_def)
  then have draw: "mo_randHelp (bs @ rest) (int P - 1) =
      (if candidate P bs < P - 1 then Inr (Inr (candidate P bs), rest) else mo_randHelp rest (int P - 1))"
    using rand_Int_draw(1) [OF assms(1)] by (simp add: mo_randHelp_def candidate_def)
  have P: "nat (int P - 1) = P - 1" by linarith
  show ?thesis
  proof (cases "candidate P bs < P - 1")
    case True
    with draw P show ?thesis
      by (simp add: GenUserKey_loop.simps [of _ "bs @ rest"] acceptable_def BitLen_1 del: One_nat_def)
  next
    case False
    with draw show ?thesis
      by (simp add: GenUserKey_loop.simps [of _ "bs @ rest"] GenUserKey_loop.simps [of _ rest] acceptable_def)
  qed
qed

lemma stream_draw:
  assumes "Suc i * draw_len P \<le> n"
  shows "map s [i * draw_len P..<n] = nth_draw P s i @ map s [Suc i * draw_len P..<n]"
proof -
  have "i * draw_len P \<le> Suc i * draw_len P" by simp
  then have "[i * draw_len P..<n] = [i * draw_len P..<Suc i * draw_len P] @ [Suc i * draw_len P..<n]"
    using assms by (metis le_add_diff_inverse upt_add_eq_append)
  then show ?thesis by (simp only: nth_draw_def map_append)
qed

lemma length_nth_draw: "length (nth_draw P s i) = draw_len P"
  by (simp add: nth_draw_def)

lemma GenUserKey_loop_skip:
  assumes "4 \<le> P" and "\<And>i. i < j \<Longrightarrow> \<not> acceptable P (nth_draw P s i)" and "j * draw_len P \<le> n"
  shows "GenUserKey_loop (int P - 1) (map s [0..<n]) = GenUserKey_loop (int P - 1) (map s [j * draw_len P..<n])"
  using assms(2,3)
proof (induction j)
  case (Suc j)
  have "j * draw_len P \<le> n" using Suc.prems(2) by simp
  with Suc have "GenUserKey_loop (int P - 1) (map s [0..<n]) =
      GenUserKey_loop (int P - 1) (map s [j * draw_len P..<n])" by simp
  also have "\<dots> = GenUserKey_loop (int P - 1) (nth_draw P s j @ map s [Suc j * draw_len P..<n])"
    by (simp only: stream_draw [OF Suc.prems(2)])
  also have "\<dots> = GenUserKey_loop (int P - 1) (map s [Suc j * draw_len P..<n])"
    using Suc.prems(1) [of j] by (simp add: GenUserKey_loop_draw [OF assms(1) length_nth_draw])
  finally show ?case .
qed simp

lemma GenUserKey_loop_first:
  assumes "4 \<le> P" and "acceptable P (nth_draw P s j)"
    and "\<And>i. i < j \<Longrightarrow> \<not> acceptable P (nth_draw P s i)" and "Suc j * draw_len P \<le> n"
  shows "GenUserKey_loop (int P - 1) (map s [0..<n]) =
    Inr (Inr (candidate P (nth_draw P s j)), map s [Suc j * draw_len P..<n])"
proof -
  have "j * draw_len P \<le> n" using assms(4) by simp
  then have "GenUserKey_loop (int P - 1) (map s [0..<n]) =
      GenUserKey_loop (int P - 1) (nth_draw P s j @ map s [Suc j * draw_len P..<n])"
    using GenUserKey_loop_skip [OF assms(1,3)] by (simp only: stream_draw [OF assms(4)])
  then show ?thesis using assms(2) by (simp add: GenUserKey_loop_draw [OF assms(1) length_nth_draw])
qed

lemma GenUserKey_loop_none:
  assumes "4 \<le> P" and "\<And>i. Suc i * draw_len P \<le> n \<Longrightarrow> \<not> acceptable P (nth_draw P s i)"
  shows "GenUserKey_loop (int P - 1) (map s [0..<n]) = Inr (Inl ReaderError, [])"
proof -
  let ?j = "n div draw_len P"
  have k: "0 < draw_len P" by (rule rand_Int_draw(2) [OF assms(1)])
  have "\<not> acceptable P (nth_draw P s i)" if "i < ?j" for i
  proof (rule assms(2))
    have "Suc i * draw_len P \<le> ?j * draw_len P" using that by (intro mult_le_mono1) simp
    also have "\<dots> \<le> n" by (rule div_times_less_eq_dividend)
    finally show "Suc i * draw_len P \<le> n" .
  qed
  then have "GenUserKey_loop (int P - 1) (map s [0..<n]) = GenUserKey_loop (int P - 1) (map s [?j * draw_len P..<n])"
    by (intro GenUserKey_loop_skip [OF assms(1)]) simp_all
  moreover have "n - ?j * draw_len P < draw_len P"
    using k mod_less_divisor [OF k, of n] by (simp add: minus_div_mult_eq_mod)
  ultimately show ?thesis using GenUserKey_loop_short [OF assms(1)] by simp
qed

lemma acceptable_zeros:
  assumes "4 \<le> P"
  shows "acceptable P (replicate (draw_len P) 0)"
proof -
  from rand_Int_draw(2) [OF assms] obtain k where "draw_len P = Suc k" by (cases "draw_len P") auto
  then have "candidate P (replicate (draw_len P) 0) = 1"
    using bigInt_zeros [of "Suc k" "[]"] by (simp add: candidate_def top_mask_def bigInt_def)
  then show ?thesis using assms by (simp add: acceptable_def)
qed

subsection \<open>Padding\<close>

lemma set_ones_eq:
  "i + n \<le> length padded \<Longrightarrow> set_ones i n padded = take i padded @ replicate n 1 @ drop (i + n) padded"
proof (induction n arbitrary: i padded)
  case 0
  then show ?case by simp
next
  case (Suc n)
  then have i: "i < length padded" by simp
  have "set_ones (Suc i) n (padded[i := 1]) =
      take (Suc i) (padded[i := 1]) @ replicate n 1 @ drop (Suc i + n) (padded[i := 1])"
    using Suc.prems by (intro Suc.IH) simp
  moreover have "take (Suc i) (padded[i := 1]) = take i padded @ [1]"
    using i by (simp add: take_Suc_conv_app_nth)
  ultimately show ?case by simp
qed

lemma pad_eq:
  assumes "int (length msg) < targetlen"
  shows "pad msg targetlen = Inr (replicate (nat targetlen - 1 - length msg) 1 @ 0 # msg)"
proof -
  define k where "k = nat targetlen - 1 - length msg"
  have t: "nat targetlen = Suc (k + length msg)" using assms unfolding k_def by linarith
  have ones: "set_ones 0 k (replicate (Suc (k + length msg)) 0) =
      replicate k 1 @ 0 # replicate (length msg) (0::byte)"
    by (subst set_ones_eq) (simp_all del: replicate.simps add: drop_replicate replicate_Suc [symmetric])
  show ?thesis
    using assms ones by (simp add: pad_def Let_def t list_update_append del: replicate.simps)
qed

lemma unPad_append: "\<forall>b \<in> set xs. b \<noteq> 0 \<Longrightarrow> unPad (xs @ 0 # ys) = Inr ys"
  by (induction xs) auto

lemma unPad_shorter: "unPad xs = Inr ys \<Longrightarrow> length ys < length xs"
  by (induction xs) (auto split: if_splits)

lemma bytesMaxSize_pos: "1 \<le> bits \<Longrightarrow> bytesMaxSize bits = (bits - 1) div 8 - 1"
  by (simp add: bytesMaxSize_def signed_divide_int_def sgn_if)

lemma PrepareMsg_eq:
  assumes "int (length msg) \<le> bytesMaxSize plen"
  shows "PrepareMsg msg plen =
    Inr (Inr (bigInt (replicate (nat (bytesMaxSize plen) - length msg) 1 @ 0 # msg)))"
proof -
  have "nat (bytesMaxSize plen + 1) - 1 - length msg = nat (bytesMaxSize plen) - length msg"
    using assms by linarith
  then show ?thesis using assms pad_eq [of msg "bytesMaxSize plen + 1"] by (simp add: PrepareMsg_def)
qed

lemma Extract_Prepare_short:
  assumes "int (length msg) < bytesMaxSize plen"
  shows "ExtractMsg (bigInt (replicate (nat (bytesMaxSize plen) - length msg) 1 @ 0 # msg)) = Inr msg"
proof -
  let ?k = "nat (bytesMaxSize plen) - length msg"
  have k: "0 < ?k" using assms by linarith
  then have "big_Bytes (bigInt (replicate ?k 1 @ 0 # msg)) = replicate ?k 1 @ 0 # msg"
    by (intro big_Bytes_bigInt) (auto simp: hd_append)
  then show ?thesis by (simp add: ExtractMsg_def unPad_append)
qed

lemma Extract_Prepare_full:
  assumes "int (length msg) = bytesMaxSize plen"
  shows "ExtractMsg (bigInt (replicate (nat (bytesMaxSize plen) - length msg) 1 @ 0 # msg)) =
    unPad (dropWhile ((=) 0) msg)"
proof -
  have "nat (bytesMaxSize plen) - length msg = 0" using assms by linarith
  then show ?thesis by (simp add: ExtractMsg_def big_Bytes_dropWhile)
qed

lemma PrepareMsg_less:
  assumes "PrepareMsg msg (int (big_BitLen p)) = Inr (Inr m)"
  shows "m < p"
proof -
  let ?n = "bytesMaxSize (int (big_BitLen p))"
  have fits: "int (length msg) \<le> ?n"
    using assms by (auto simp: PrepareMsg_def Let_def split: if_splits)
  let ?bs = "replicate (nat ?n - length msg) 1 @ 0 # msg"
  have m: "m = bigInt ?bs" using assms PrepareMsg_eq [OF fits] by simp
  have p: "p \<noteq> 0"
  proof
    assume "p = 0"
    with fits show False by (simp add: bytesMaxSize_def signed_divide_int_def)
  qed
  then have bl: "1 \<le> big_BitLen p" using big_BitLen_eq_0 [of p] by linarith
  have n: "?n = (int (big_BitLen p) - 1) div 8 - 1" using bl by (intro bytesMaxSize_pos) simp
  obtain N where N: "?n = int N" using fits by (metis nonneg_int_cases of_nat_0_le_iff order_trans)
  then have len: "length ?bs = Suc N" using fits by simp
  have "8 * (x div 8) \<le> x" for x :: int by presburger
  then have "8 * (?n + 1) \<le> int (big_BitLen p) - 1" unfolding n by simp
  then have "8 * (int N + 1) \<le> int (big_BitLen p) - 1" by (simp only: N)
  then have "8 * Suc N \<le> big_BitLen p - 1" by arith
  then have "8 * length ?bs \<le> big_BitLen p - 1" by (simp only: len)
  then have "(2::nat) ^ (8 * length ?bs) \<le> 2 ^ (big_BitLen p - 1)" by (rule power_increasing) simp
  moreover have "bigInt ?bs < 2 ^ (8 * length ?bs)" by (rule bigInt_less_bits)
  moreover have "2 ^ (big_BitLen p - 1) \<le> p" using p by (intro BitLen_power_le) simp
  ultimately show ?thesis unfolding m by linarith
qed

lemma PrepareMsg_pos:
  assumes "int (length msg) < bytesMaxSize plen"
  shows "0 < bigInt (replicate (nat (bytesMaxSize plen) - length msg) 1 @ 0 # msg)"
proof -
  have "0 < nat (bytesMaxSize plen) - length msg" using assms by linarith
  then obtain j where "nat (bytesMaxSize plen) - length msg = Suc j"
    by (cases "nat (bytesMaxSize plen) - length msg") auto
  then show ?thesis using bigInt_pos [of 1] by simp
qed

lemma unPad_dropWhile_not_same: "unPad (dropWhile ((=) 0) msg) \<noteq> Inr msg"
proof
  assume "unPad (dropWhile ((=) 0) msg) = Inr msg"
  then have "length msg < length (dropWhile ((=) 0) msg)" by (rule unPad_shorter)
  with length_dropWhile_le [of "(=) 0" msg] show False by simp
qed

lemma unPad_suffix: "unPad xs = Inr r \<Longrightarrow> 0 \<in> set xs \<and> (\<exists>u. u \<noteq> [] \<and> xs = u @ r)"
proof (induction xs)
  case (Cons b bs)
  show ?case
  proof (cases "b = 0")
    case True
    with Cons.prems have "b # bs = [0] @ r" by simp
    with True show ?thesis by force
  next
    case False
    with Cons obtain u where "0 \<in> set bs" "bs = u @ r" by auto
    then have "b # bs = (b # u) @ r" by simp
    with \<open>0 \<in> set bs\<close> show ?thesis by (metis list.distinct(1) list.set_intros(2))
  qed
qed simp

lemma unPad_dropWhile_cases:
  "case unPad (dropWhile ((=) 0) msg) of
     Inl e \<Rightarrow> e = Panic ''no 0 in message'' \<and> 0 \<notin> set (dropWhile ((=) 0) msg)
   | Inr r \<Rightarrow> 0 \<in> set (dropWhile ((=) 0) msg) \<and> (\<exists>u. u \<noteq> [] \<and> msg = u @ r)"
proof (cases "unPad (dropWhile ((=) 0) msg)")
  case (Inl e)
  have "unPad xs = Inl e \<Longrightarrow> e = Panic ''no 0 in message'' \<and> 0 \<notin> set xs" for xs
    by (induction xs) (auto split: if_splits)
  from this [OF Inl] Inl show ?thesis by simp
next
  case (Inr r)
  from unPad_suffix [OF this] obtain u where u: "0 \<in> set (dropWhile ((=) 0) msg)" "u \<noteq> []"
    "dropWhile ((=) 0) msg = u @ r" by blast
  have "msg = takeWhile ((=) 0) msg @ dropWhile ((=) 0) msg" by simp
  also have "\<dots> = (takeWhile ((=) 0) msg @ u) @ r" by (simp only: u(3) append_assoc)
  finally have "\<exists>u. u \<noteq> [] \<and> msg = u @ r" using u(2) by blast
  with u(1) Inr show ?thesis by simp
qed

lemma bigInt_eq_0: "bigInt bs = 0 \<longleftrightarrow> set bs \<subseteq> {0}"
  by (induction bs) (auto simp: bigInt_Cons unat_eq_0 bigInt_def [of "[]"])

lemma PrepareMsg_zero:
  assumes "PrepareMsg msg plen = Inr (Inr m)"
  shows "m = 0 \<longleftrightarrow> int (length msg) = bytesMaxSize plen \<and> set msg \<subseteq> {0}"
proof -
  have fits: "int (length msg) \<le> bytesMaxSize plen"
    using assms by (auto simp: PrepareMsg_def Let_def split: if_splits)
  let ?k = "nat (bytesMaxSize plen) - length msg"
  have k: "?k = 0 \<longleftrightarrow> int (length msg) = bytesMaxSize plen" using fits by linarith
  have "m = bigInt (replicate ?k 1 @ 0 # msg)" using assms PrepareMsg_eq [OF fits] by simp
  then have "m = 0 \<longleftrightarrow> ?k = 0 \<and> set msg \<subseteq> {0}" by (auto simp only: bigInt_eq_0) (auto split: if_splits)
  with k show ?thesis by simp
qed

lemma bytesMaxSize_BitsMaxSize: "0 \<le> n \<Longrightarrow> bytesMaxSize (BitsMaxSize n) = n"
  by (subst bytesMaxSize_pos) (simp_all add: BitsMaxSize_def)

subsection \<open>Properties of the package\<close>

text \<open>C6: A message shorter than the maximum size of the prime, prepared, encrypted
  under any list of good keys and decrypted under the same keys in any order,
  is extracted unchanged. This is the contract that the protocol relies on.\<close>

theorem mo_end_to_end:
  assumes "is_prime p"
    and "\<forall>k \<in> set ks. mo_key_ok k \<and> sys_P k = p"
    and "mset ks = mset ls"
    and "int (length msg) < bytesMaxSize (int (big_BitLen p))"
  shows "\<exists>m. PrepareMsg msg (int (big_BitLen p)) = Inr (Inr m) \<and>
    ExtractMsg (fold mo_Decrypt ls (fold mo_Encrypt ks m)) = Inr msg"
proof -
  let ?plen = "int (big_BitLen p)"
  let ?m = "bigInt (replicate (nat (bytesMaxSize ?plen) - length msg) 1 @ 0 # msg)"
  have prep: "PrepareMsg msg ?plen = Inr (Inr ?m)" using assms(4) by (intro PrepareMsg_eq) simp
  have "residue_ok p ?m"
    unfolding residue_ok_def using PrepareMsg_pos [OF assms(4)] PrepareMsg_less [OF prep] by blast
  then have "fold mo_Decrypt ls (fold mo_Encrypt ks ?m) = ?m"
    by (rule mo.dec_all_enc_all [OF assms(3,2)])
  then show ?thesis using prep Extract_Prepare_short [OF assms(4)] by auto
qed

lemma prime_65537: "is_prime 65537"
proof (rule is_prime_sqrt [where k = 257])
  have "list_all (\<lambda>d. \<not> d dvd (65537::nat)) [2..<257]" by simp
  then show "\<forall>d \<in> {2..<257}. \<not> d dvd (65537::nat)" by (simp only: list_all_iff set_upt)
qed simp_all

lemma BitLen_65537: "big_BitLen 65537 = 17"
  using BitLen_unique [of 16 65537] by simp

theorem mo_end_to_end_witness:
  "\<exists>m. PrepareMsg [] (int (big_BitLen 65537)) = Inr (Inr m) \<and>
    ExtractMsg (fold mo_Decrypt
        [\<lparr>sys_P = 65537, mo_E = 5, mo_D = 52429\<rparr>, \<lparr>sys_P = 65537, mo_E = 3, mo_D = 43691\<rparr>]
      (fold mo_Encrypt
        [\<lparr>sys_P = 65537, mo_E = 3, mo_D = 43691\<rparr>, \<lparr>sys_P = 65537, mo_E = 5, mo_D = 52429\<rparr>] m)) = Inr []"
  by (rule mo_end_to_end [OF prime_65537])
    (simp_all add: mo_key_ok_def prime_65537 BitLen_65537 bytesMaxSize_pos add_mset_commute)

text \<open>C28: A key pair that key generation returns for a prime has its exponent in
  the range the comments promise, decryption with it undoes encryption and encryption
  undoes decryption, on every residue that is not 0.\<close>

theorem GenUserKey_correct:
  assumes "is_prime (sys_P syskey)" and "GenUserKey random syskey = Inr (Inr k, random')"
  shows "sys_P k = sys_P syskey \<and> 0 < mo_E k \<and> mo_E k < sys_P syskey - 1 \<and>
    (mo_E k * mo_D k) mod (sys_P syskey - 1) = 1 mod (sys_P syskey - 1) \<and>
    (\<forall>m \<in> {1..<sys_P syskey}.
       mo_Decrypt k (mo_Encrypt k m) = m \<and> mo_Encrypt k (mo_Decrypt k m) = m)"
proof -
  note gen = GenUserKey_ok [OF assms]
  from gen(1,2) have "(mo_E k * mo_D k) mod (sys_P syskey - 1) = 1 mod (sys_P syskey - 1)"
    by (simp add: mo_key_ok_def)
  moreover have "\<forall>m \<in> {1..<sys_P syskey}.
      mo_Decrypt k (mo_Encrypt k m) = m \<and> mo_Encrypt k (mo_Decrypt k m) = m"
    using gen(1,2) by (auto intro!: mo_Decrypt_Encrypt mo_Encrypt_Decrypt simp: residue_ok_def)
  ultimately show ?thesis using gen(2,3,4) by blast
qed

lemma GenUserKey_example:
  "GenUserKey [2] \<lparr>sys_P = 5\<rparr> = Inr (Inr \<lparr>sys_P = 5, mo_E = 3, mo_D = 3\<rparr>, [])"
  by code_simp

theorem GenUserKey_correct_witness:
  "mo_Decrypt \<lparr>sys_P = 5, mo_E = 3, mo_D = 3\<rparr> (mo_Encrypt \<lparr>sys_P = 5, mo_E = 3, mo_D = 3\<rparr> 2) = 2"
proof -
  have "is_prime (sys_P \<lparr>sys_P = 5\<rparr>)" by code_simp
  from GenUserKey_correct [OF this GenUserKey_example] show ?thesis by simp
qed

text \<open>C29: When the loop of \<open>GenUserKey\<close> ends. Let the random reader be any unending stream of
  bytes, of which the first \<open>n\<close> are available, and the system prime at least 4. If some draw of the stream
  is acceptable (below \<open>p - 1\<close> and coprime to it), then with the first such draw available
  key generation returns the key pair with that exponent and has read no further, whatever follows;
  if no draw among the available bytes is acceptable, it returns no key but reads on to the end of the bytes,
  and only the failure of the reader there ends it, so that on a stream with no acceptable draw it
  never returns. Acceptable draws exist for every such prime. The branch
  that the code calls impossible (no inverse) is impossible.\<close>

theorem GenUserKey_returns:
  assumes "4 \<le> sys_P syskey"
  shows "(\<forall>j n. acceptable (sys_P syskey) (nth_draw (sys_P syskey) s j) \<and>
      (\<forall>i < j. \<not> acceptable (sys_P syskey) (nth_draw (sys_P syskey) s i)) \<and>
      Suc j * draw_len (sys_P syskey) \<le> n \<longrightarrow>
      (\<exists>d. GenUserKey (map s [0..<n]) syskey =
        Inr (Inr \<lparr>sys_P = sys_P syskey, mo_E = candidate (sys_P syskey) (nth_draw (sys_P syskey) s j), mo_D = d\<rparr>,
          map s [Suc j * draw_len (sys_P syskey)..<n]))) \<and>
    (\<forall>n. (\<forall>i. Suc i * draw_len (sys_P syskey) \<le> n \<longrightarrow>
        \<not> acceptable (sys_P syskey) (nth_draw (sys_P syskey) s i)) \<longrightarrow>
      GenUserKey (map s [0..<n]) syskey = Inr (Inl (RandError ReaderError), [])) \<and>
    acceptable (sys_P syskey) (replicate (draw_len (sys_P syskey)) 0)"
proof (intro conjI allI impI)
  let ?P = "sys_P syskey"
  fix j n
  assume j: "acceptable ?P (nth_draw ?P s j) \<and> (\<forall>i < j. \<not> acceptable ?P (nth_draw ?P s i)) \<and>
    Suc j * draw_len ?P \<le> n"
  then have loop: "GenUserKey_loop (int ?P - 1) (map s [0..<n]) =
      Inr (Inr (candidate ?P (nth_draw ?P s j)), map s [Suc j * draw_len ?P..<n])"
    by (intro GenUserKey_loop_first [OF assms]) simp_all
  have P: "nat (int ?P - 1) = ?P - 1" by linarith
  from j have "gcd (candidate ?P (nth_draw ?P s j)) (?P - 1) = 1" by (simp add: acceptable_def)
  from big_ModInverse_exists [OF this] obtain d where
    "big_ModInverse (candidate ?P (nth_draw ?P s j)) (?P - 1) = Some d" ..
  with loop P show "\<exists>d. GenUserKey (map s [0..<n]) syskey =
      Inr (Inr \<lparr>sys_P = ?P, mo_E = candidate ?P (nth_draw ?P s j), mo_D = d\<rparr>, map s [Suc j * draw_len ?P..<n])"
    by (simp add: GenUserKey_def Let_def)
next
  fix n
  assume "\<forall>i. Suc i * draw_len (sys_P syskey) \<le> n \<longrightarrow>
      \<not> acceptable (sys_P syskey) (nth_draw (sys_P syskey) s i)"
  then have "GenUserKey_loop (int (sys_P syskey) - 1) (map s [0..<n]) = Inr (Inl ReaderError, [])"
    by (intro GenUserKey_loop_none [OF assms]) simp
  then show "GenUserKey (map s [0..<n]) syskey = Inr (Inl (RandError ReaderError), [])"
    by (simp add: GenUserKey_def Let_def)
qed (rule acceptable_zeros [OF assms])

text \<open>For the prime 5 the byte 1 gives the exponent 2, which is refused, and the byte 2 the
  exponent 3. On the stream 1, 2, 2, ... two bytes are enough; on the stream of ones no prefix gives a key.\<close>

lemma draws_5:
  "draw_len 5 = 1" "acceptable 5 [2]" "\<not> acceptable 5 [1]" "candidate 5 [2] = 3"
  by code_simp+

lemma nth_draw_5: "nth_draw 5 s i = [s i]"
  by (simp add: nth_draw_def draws_5)

theorem GenUserKey_returns_witness:
  "(\<exists>d. GenUserKey (map (\<lambda>i. if i = 0 then 1 else 2) [0..<7]) \<lparr>sys_P = 5\<rparr> =
      Inr (Inr \<lparr>sys_P = 5, mo_E = 3, mo_D = d\<rparr>, map (\<lambda>i. if i = 0 then 1 else 2) [2..<7])) \<and>
    GenUserKey (map (\<lambda>_. 1) [0..<7]) \<lparr>sys_P = 5\<rparr> = Inr (Inl (RandError ReaderError), [])"
proof
  have "4 \<le> sys_P \<lparr>sys_P = 5\<rparr>" by simp
  note ret = GenUserKey_returns [OF this, unfolded mo_SystemKey.simps nth_draw_5 draws_5(1)]
  have "acceptable 5 [if (1::nat) = 0 then 1 else 2] \<and>
      (\<forall>i<1. \<not> acceptable 5 [if (i::nat) = 0 then 1 else 2]) \<and> Suc 1 * 1 \<le> (7::nat)"
    using draws_5 by simp
  from ret [THEN conjunct1, rule_format, OF this]
  show "\<exists>d. GenUserKey (map (\<lambda>i. if i = 0 then 1 else 2) [0..<7]) \<lparr>sys_P = 5\<rparr> =
      Inr (Inr \<lparr>sys_P = 5, mo_E = 3, mo_D = d\<rparr>, map (\<lambda>i. if i = 0 then 1 else 2) [2..<7])"
    by (simp add: draws_5 numeral_2_eq_2 [symmetric] del: upt_rec_numeral)
  show "GenUserKey (map (\<lambda>_. 1) [0..<7]) \<lparr>sys_P = 5\<rparr> = Inr (Inl (RandError ReaderError), [])"
    using ret [THEN conjunct2, THEN conjunct1, rule_format, of 7 "\<lambda>_. 1"] draws_5(3) by simp
qed

text \<open>C30: \<open>PrepareMsg\<close> accepts every message up to the maximum size of the prime, but
  \<open>ExtractMsg\<close> recovers it exactly when the message is strictly shorter than that
  maximum: at the maximum the padding has no leading 1 byte, and the separating 0
  byte is lost in the conversion to a number.\<close>

theorem PrepareMsg_ExtractMsg:
  assumes "int (length msg) \<le> bytesMaxSize plen"
  shows "\<exists>m. PrepareMsg msg plen = Inr (Inr m) \<and>
    (ExtractMsg m = Inr msg \<longleftrightarrow> int (length msg) < bytesMaxSize plen)"
proof (cases "int (length msg) < bytesMaxSize plen")
  case True
  then show ?thesis using PrepareMsg_eq [OF assms] Extract_Prepare_short [OF True] by simp
next
  case False
  with assms have "int (length msg) = bytesMaxSize plen" by simp
  then show ?thesis
    using PrepareMsg_eq [OF assms] Extract_Prepare_full unPad_dropWhile_not_same False by simp
qed

theorem PrepareMsg_ExtractMsg_witness:
  "(\<exists>m. PrepareMsg [13, 7] (BitsMaxSize 3) = Inr (Inr m) \<and>
     (ExtractMsg m = Inr [13, 7] \<longleftrightarrow> int (length [13, 7 :: byte]) < bytesMaxSize (BitsMaxSize 3)))"
  by (rule PrepareMsg_ExtractMsg) (simp add: bytesMaxSize_BitsMaxSize)

text \<open>C31: With the prime size that \<open>BitsMaxSize\<close> chooses for messages of \<open>n\<close> bytes, no message of
  exactly \<open>n\<close> bytes survives, although \<open>PrepareMsg\<close> accepts every one of them. \<open>ExtractMsg\<close> panics exactly when the message, its
  leading 0 bytes apart, has no 0 byte; otherwise it returns a proper suffix of the message, and no error.\<close>

theorem PrepareMsg_full_size_lost:
  "\<exists>m. PrepareMsg msg (BitsMaxSize (int (length msg))) = Inr (Inr m) \<and>
    (case ExtractMsg m of
       Inl e \<Rightarrow> e = Panic ''no 0 in message'' \<and> 0 \<notin> set (dropWhile ((=) 0) msg)
     | Inr r \<Rightarrow> 0 \<in> set (dropWhile ((=) 0) msg) \<and> (\<exists>u. u \<noteq> [] \<and> msg = u @ r))"
proof -
  have size: "int (length msg) = bytesMaxSize (BitsMaxSize (int (length msg)))"
    by (simp add: bytesMaxSize_BitsMaxSize)
  show ?thesis
    using PrepareMsg_eq [of msg "BitsMaxSize (int (length msg))"] Extract_Prepare_full [OF size] size
      unPad_dropWhile_cases [of msg]
    by simp
qed

text \<open>C32: A prepared message is smaller than the prime whose bit length it was prepared
  for, so that exponentiation modulo the prime loses nothing; and it is 0, the one residue that is not a
  unit, exactly for a message of the maximum size that consists of 0 bytes.\<close>

theorem PrepareMsg_bounded:
  assumes "PrepareMsg msg (int (big_BitLen p)) = Inr (Inr m)"
  shows "m < p \<and> (m = 0 \<longleftrightarrow> int (length msg) = bytesMaxSize (int (big_BitLen p)) \<and> set msg \<subseteq> {0})"
  using PrepareMsg_less [OF assms] PrepareMsg_zero [OF assms] by simp

theorem PrepareMsg_bounded_witness:
  "PrepareMsg [] (int (big_BitLen 65537)) = Inr (Inr 256) \<and> (256::nat) < 65537 \<and>
    int (length ([] :: bytes)) \<noteq> bytesMaxSize (int (big_BitLen 65537))"
proof -
  have "PrepareMsg [] 17 = Inr (Inr (bigInt [1, 0]))"
    using PrepareMsg_eq [of "[]" 17] by (simp add: bytesMaxSize_pos)
  then have "PrepareMsg [] (int (big_BitLen 65537)) = Inr (Inr 256)"
    by (simp add: BitLen_65537 bigInt_def)
  with PrepareMsg_bounded [OF this] show ?thesis by simp
qed

text \<open>When the library's prime generator returns, after any number of candidates
  that the primality test refuses, a number of the requested bit length that
  the test accepts, \<open>GenSysKey\<close> returns that number and \<open>VerifySysKey\<close> accepts it.\<close>

theorem GenSysKey_verifies:
  assumes "\<And>i. i < n \<Longrightarrow> \<exists>c. fst (rand_Prime (draws i) bitsp) = Inr c \<and> \<not> probablyPrime c"
    and "\<And>i. i < n \<Longrightarrow> draws (Suc i) = snd (rand_Prime (draws i) bitsp)"
    and "rand_Prime (draws n) bitsp = (Inr p, rest)"
    and "int (big_BitLen p) = bitsp" and "probablyPrime p"
  shows "GenSysKey rand_Prime probablyPrime (draws 0) bitsp = Some (Inr \<lparr>sys_P = p\<rparr>, rest) \<and>
    VerifySysKey probablyPrime \<lparr>sys_P = p\<rparr> bitsp = None"
proof -
  have "GenSysKey rand_Prime probablyPrime (draws (n - j)) bitsp = Some (Inr \<lparr>sys_P = p\<rparr>, rest)"
    if "j \<le> n" for j
    using that
  proof (induction j)
    case 0
    then show ?case using assms(3,5) by (simp add: GenSysKey.simps)
  next
    case (Suc j)
    then have i: "n - Suc j < n" and next_i: "Suc (n - Suc j) = n - j" by auto
    from assms(1) [OF i] assms(2) [OF i] next_i Suc show ?case
      by (auto simp: GenSysKey.simps [of _ _ "draws (n - Suc j)"])
  qed
  from this [of n] assms(4,5) show ?thesis by (simp add: VerifySysKey_def)
qed

theorem GenSysKey_verifies_witness:
  "GenSysKey (\<lambda>random bits. (Inr (unat (hd random)), tl random)) is_prime [9, 11] 4 =
     Some (Inr \<lparr>sys_P = 11\<rparr>, []) \<and>
   VerifySysKey is_prime \<lparr>sys_P = 11\<rparr> 4 = None"
proof -
  have np: "\<not> is_prime 9" by code_simp
  have pr: "is_prime 11" by code_simp
  have bl: "big_BitLen 11 = 4" by code_simp
  show ?thesis
    using GenSysKey_verifies [where n = 1 and draws = "\<lambda>i. if i = 0 then [9, 11] else [11]"
        and bitsp = 4 and p = 11 and rest = "[]" and probablyPrime = is_prime
        and rand_Prime = "\<lambda>random bits. (Inr (unat (hd random)), tl random)"]
    by (simp add: np pr bl)
qed

end
