(* ===== verification/Crypto.thy ===== *)
theory Crypto
  imports Massey_Omura
begin

text \<open>
  \<open>anonbcast/crypto.go\<close>: the messages and keys that travel through the state machine
  as byte slices, the interface \<open>CommutativeCrypto\<close>, and its implementation
  \<open>masseyOmuraCrypto\<close> on top of the package \<open>masseyomura\<close>.

  \<^item> \<open>Msg\<close> and \<open>PrivateKey\<close> are records of byte slices, \<open>masseyOmuraCrypto\<close> a record with the
    prime as bytes.
  \<^item> A value of the Go interface \<open>CommutativeCrypto\<close> is a value of the implementation's
    type together with its methods: the record \<open>crypto_methods\<close> is the method table, and
    \<open>masseyOmura_methods\<close> the one table the sources provide. Code that works for
    every implementation (the client) takes the table as an argument.
  \<^item> SHA-256, \<open>rand.Prime\<close> and \<open>ProbablyPrime\<close> are arguments.

  The theory interprets the contract of \<open>Commutative_Cipher\<close> on \<open>Encrypt\<close> and \<open>Decrypt\<close> of
  \<open>masseyOmuraCrypto\<close>, and shows that generated keys are good, that a submitted message
  is recovered from any interleaving of the participants' keys, and what
  the hash of a key does and does not commit to.
\<close>

record Msg =
  msg_M :: bytes

record PrivateKey =
  pk_E :: bytes
  pk_D :: bytes

record masseyOmuraCrypto =
  crypto_P :: bytes

subsection \<open>Messages\<close>

definition getM :: "Msg \<Rightarrow> nat" where
  "getM m = bigInt (msg_M m)"

fun equal_from :: "bytes \<Rightarrow> bytes \<Rightarrow> bool" where
  "equal_from [] ys = True"
| "equal_from (b # bs) ys = (if b \<noteq> hd ys then False else equal_from bs (tl ys))"

definition Msg_Equal :: "Msg \<Rightarrow> Msg \<Rightarrow> bool" where
  "Msg_Equal m m2 =
     (if length (msg_M m) \<noteq> length (msg_M m2) then False else equal_from (msg_M m) (msg_M m2))"

definition Msg_DeepCopy :: "Msg \<Rightarrow> Msg" where
  "Msg_DeepCopy m = \<lparr>msg_M = go_copy (replicate (length (msg_M m)) 0) (msg_M m)\<rparr>"

definition Msg_Nil :: "Msg \<Rightarrow> bool" where
  "Msg_Nil m \<longleftrightarrow> length (msg_M m) = 0"

definition NilMsg :: Msg where
  "NilMsg = \<lparr>msg_M = []\<rparr>"

definition NewMsg :: "nat \<Rightarrow> Msg" where
  "NewMsg m = \<lparr>msg_M = big_Bytes m\<rparr>"

subsection \<open>Private keys\<close>

definition PrivateKey_Hash :: "(bytes \<Rightarrow> bytes) \<Rightarrow> PrivateKey \<Rightarrow> bytes" where
  "PrivateKey_Hash sha256 pk =
     (let ed = replicate (length (pk_E pk) + length (pk_D pk)) 0;
          ed = go_copy ed (pk_E pk);
          ed = take (length (pk_E pk)) ed @ go_copy (drop (length (pk_E pk)) ed) (pk_D pk)
      in sha256 ed)"

definition HashEquals :: "(bytes \<Rightarrow> bytes) \<Rightarrow> PrivateKey \<Rightarrow> bytes \<Rightarrow> bool" where
  "HashEquals sha256 pk hash =
     (let meHash = PrivateKey_Hash sha256 pk
      in if length hash \<noteq> length meHash then False else equal_from meHash hash)"

definition getE :: "PrivateKey \<Rightarrow> nat" where
  "getE pk = bigInt (pk_E pk)"

definition getD :: "PrivateKey \<Rightarrow> nat" where
  "getD pk = bigInt (pk_D pk)"

definition PrivateKey_DeepCopy :: "PrivateKey \<Rightarrow> PrivateKey" where
  "PrivateKey_DeepCopy pk =
     \<lparr>pk_E = go_copy (replicate (length (pk_E pk)) 0) (pk_E pk),
      pk_D = go_copy (replicate (length (pk_D pk)) 0) (pk_D pk)\<rparr>"

definition NilPrivateKey :: PrivateKey where
  "NilPrivateKey = \<lparr>pk_E = [], pk_D = []\<rparr>"

definition PrivateKey_Nil :: "PrivateKey \<Rightarrow> bool" where
  "PrivateKey_Nil pk \<longleftrightarrow> length (pk_E pk) = 0"

subsection \<open>The interface CommutativeCrypto\<close>

record 'c crypto_methods =
  cc_PrepareMsg :: "'c \<Rightarrow> bytes \<Rightarrow> (mo_error + Msg) go"
  cc_Encrypt :: "'c \<Rightarrow> PrivateKey \<Rightarrow> Msg \<Rightarrow> Msg"
  cc_Decrypt :: "'c \<Rightarrow> PrivateKey \<Rightarrow> Msg \<Rightarrow> Msg"
  cc_ExtractMsg :: "'c \<Rightarrow> Msg \<Rightarrow> bytes go"
  cc_GenKey :: "'c \<Rightarrow> bool \<Rightarrow> reader \<Rightarrow> (PrivateKey \<times> reader) go"
  cc_DeepCopy :: "'c \<Rightarrow> 'c"
  cc_Verify :: "'c \<Rightarrow> int \<Rightarrow> mo_error option"

subsection \<open>masseyOmuraCrypto\<close>

definition getP :: "masseyOmuraCrypto \<Rightarrow> nat" where
  "getP mo = bigInt (crypto_P mo)"

definition createSysKey :: "masseyOmuraCrypto \<Rightarrow> mo_SystemKey" where
  "createSysKey mo = \<lparr>sys_P = getP mo\<rparr>"

definition createPrivateKey :: "masseyOmuraCrypto \<Rightarrow> PrivateKey \<Rightarrow> mo_PrivateKey" where
  "createPrivateKey mo key =
     \<lparr>sys_P = sys_P (createSysKey mo), mo_E = getE key, mo_D = getD key\<rparr>"

definition crypto_Verify :: "(nat \<Rightarrow> bool) \<Rightarrow> masseyOmuraCrypto \<Rightarrow> int \<Rightarrow> mo_error option" where
  "crypto_Verify probablyPrime mo messageSize =
     VerifySysKey probablyPrime (createSysKey mo) (BitsMaxSize messageSize)"

definition crypto_PrepareMsg :: "masseyOmuraCrypto \<Rightarrow> bytes \<Rightarrow> (mo_error + Msg) go" where
  "crypto_PrepareMsg mo msg =
     go_bind (PrepareMsg msg (int (big_BitLen (getP mo)))) (\<lambda>r.
       case r of Inl err \<Rightarrow> Inr (Inl err) | Inr m \<Rightarrow> Inr (Inr (NewMsg m)))"

definition crypto_Encrypt :: "masseyOmuraCrypto \<Rightarrow> PrivateKey \<Rightarrow> Msg \<Rightarrow> Msg" where
  "crypto_Encrypt mo key m = NewMsg (mo_Encrypt (createPrivateKey mo key) (getM m))"

definition crypto_Decrypt :: "masseyOmuraCrypto \<Rightarrow> PrivateKey \<Rightarrow> Msg \<Rightarrow> Msg" where
  "crypto_Decrypt mo key m = NewMsg (mo_Decrypt (createPrivateKey mo key) (getM m))"

definition crypto_ExtractMsg :: "masseyOmuraCrypto \<Rightarrow> Msg \<Rightarrow> bytes go" where
  "crypto_ExtractMsg mo m = ExtractMsg (getM m)"

definition crypto_GenKey :: "masseyOmuraCrypto \<Rightarrow> bool \<Rightarrow> reader \<Rightarrow> (PrivateKey \<times> reader) go" where
  "crypto_GenKey mo debug random =
     go_bind (GenUserKey random (createSysKey mo)) (\<lambda>(r, random').
       case r of
         Inl err \<Rightarrow> go_bind (go_assert debug False) (\<lambda>_. Inl NilDereference)
       | Inr pk \<Rightarrow> Inr (\<lparr>pk_E = big_Bytes (mo_E pk), pk_D = big_Bytes (mo_D pk)\<rparr>, random'))"

definition crypto_DeepCopy :: "masseyOmuraCrypto \<Rightarrow> masseyOmuraCrypto" where
  "crypto_DeepCopy mo = \<lparr>crypto_P = go_copy (replicate (length (crypto_P mo)) 0) (crypto_P mo)\<rparr>"

definition newMasseyOmuraCrypto ::
  "(reader \<Rightarrow> int \<Rightarrow> (rand_error + nat) \<times> reader) \<Rightarrow> (nat \<Rightarrow> bool) \<Rightarrow> bool \<Rightarrow> reader \<Rightarrow> int \<Rightarrow>
   (masseyOmuraCrypto \<times> reader) go option" where
  "newMasseyOmuraCrypto rand_Prime probablyPrime debug random messageSize =
     (case GenSysKey rand_Prime probablyPrime random (BitsMaxSize messageSize) of
        None \<Rightarrow> None
      | Some (Inl err, random') \<Rightarrow> Some (go_bind (go_assert debug False) (\<lambda>_. Inl NilDereference))
      | Some (Inr syskey, random') \<Rightarrow> Some (Inr (\<lparr>crypto_P = big_Bytes (sys_P syskey)\<rparr>, random')))"

definition masseyOmura_methods :: "(nat \<Rightarrow> bool) \<Rightarrow> masseyOmuraCrypto crypto_methods" where
  "masseyOmura_methods probablyPrime =
     \<lparr>cc_PrepareMsg = crypto_PrepareMsg, cc_Encrypt = crypto_Encrypt, cc_Decrypt = crypto_Decrypt,
      cc_ExtractMsg = crypto_ExtractMsg, cc_GenKey = crypto_GenKey, cc_DeepCopy = crypto_DeepCopy,
      cc_Verify = crypto_Verify probablyPrime\<rparr>"

subsection \<open>Good keys and messages\<close>

definition crypto_key_ok :: "masseyOmuraCrypto \<Rightarrow> PrivateKey \<Rightarrow> bool" where
  "crypto_key_ok mo key \<longleftrightarrow> mo_key_ok (createPrivateKey mo key)"

definition crypto_msg_ok :: "masseyOmuraCrypto \<Rightarrow> Msg \<Rightarrow> bool" where
  "crypto_msg_ok mo m \<longleftrightarrow> big_Bytes (bigInt (msg_M m)) = msg_M m \<and> residue_ok (getP mo) (getM m)"

lemma getM_NewMsg [simp]: "getM (NewMsg n) = n"
  by (simp add: getM_def NewMsg_def)

lemma msg_ok_NewMsg: "crypto_msg_ok mo (NewMsg n) \<longleftrightarrow> residue_ok (getP mo) n"
  by (simp add: crypto_msg_ok_def NewMsg_def getM_def)

lemma NewMsg_getM: "crypto_msg_ok mo m \<Longrightarrow> NewMsg (getM m) = m"
  by (simp add: crypto_msg_ok_def NewMsg_def getM_def)

lemma msg_ok_residue: "crypto_msg_ok mo m \<Longrightarrow> residue_ok (getP mo) (getM m)"
  by (simp add: crypto_msg_ok_def)

lemma msg_ok_not_Nil: "crypto_msg_ok mo m \<Longrightarrow> \<not> Msg_Nil m"
  by (auto simp: crypto_msg_ok_def residue_ok_def Msg_Nil_def getM_def)

lemma sys_P_createPrivateKey [simp]: "sys_P (createPrivateKey mo key) = getP mo"
  by (simp add: createPrivateKey_def createSysKey_def)

lemmas crypto_cipher_simps =
  crypto_Encrypt_def crypto_Decrypt_def crypto_key_ok_def msg_ok_NewMsg NewMsg_getM

interpretation mo_crypto: commutative_cipher "crypto_Encrypt mo" "crypto_Decrypt mo"
    "crypto_key_ok mo" "crypto_msg_ok mo" for mo
proof
  fix k m
  assume k: "crypto_key_ok mo k" and m: "crypto_msg_ok mo m"
  have r: "residue_ok (sys_P (createPrivateKey mo k)) (getM m)"
    using msg_ok_residue [OF m] by simp
  have kk: "mo_key_ok (createPrivateKey mo k)" using k by (simp add: crypto_key_ok_def)
  show "crypto_msg_ok mo (crypto_Encrypt mo k m)" "crypto_msg_ok mo (crypto_Decrypt mo k m)"
    using mo_Encrypt_ok [OF kk r] mo_Decrypt_ok [OF kk r] by (simp_all add: crypto_cipher_simps)
  show "crypto_Decrypt mo k (crypto_Encrypt mo k m) = m" "crypto_Encrypt mo k (crypto_Decrypt mo k m) = m"
    using mo_Decrypt_Encrypt [OF kk r] mo_Encrypt_Decrypt [OF kk r] m
    by (simp_all add: crypto_cipher_simps)
next
  fix k l m
  show "crypto_Encrypt mo k (crypto_Encrypt mo l m) = crypto_Encrypt mo l (crypto_Encrypt mo k m)"
    using mo_Encrypt_commute [of "createPrivateKey mo k" "createPrivateKey mo l" "getM m"]
    by (simp add: crypto_Encrypt_def)
qed

subsection \<open>Copies, comparisons and hashes\<close>

lemma equal_from_eq: "length xs = length ys \<Longrightarrow> equal_from xs ys \<longleftrightarrow> xs = ys"
proof (induction xs arbitrary: ys)
  case Nil
  then show ?case by simp
next
  case (Cons x xs)
  then show ?case by (cases ys) auto
qed

lemma Msg_Equal_iff: "Msg_Equal m m2 \<longleftrightarrow> m = m2"
  by (auto simp: Msg_Equal_def equal_from_eq)

lemma Msg_DeepCopy_id [simp]: "Msg_DeepCopy m = m"
  by (simp add: Msg_DeepCopy_def)

lemma PrivateKey_DeepCopy_id [simp]: "PrivateKey_DeepCopy pk = pk"
  by (simp add: PrivateKey_DeepCopy_def)

lemma crypto_DeepCopy_id [simp]: "crypto_DeepCopy mo = mo"
  by (simp add: crypto_DeepCopy_def)

lemma PrivateKey_Hash_eq: "PrivateKey_Hash sha256 pk = sha256 (pk_E pk @ pk_D pk)"
  by (simp add: PrivateKey_Hash_def Let_def go_copy_def)

lemma HashEquals_iff: "HashEquals sha256 pk hash \<longleftrightarrow> hash = sha256 (pk_E pk @ pk_D pk)"
  by (auto simp: HashEquals_def Let_def PrivateKey_Hash_eq equal_from_eq)

lemma Nil_NilMsg [simp]: "Msg_Nil NilMsg"
  by (simp add: Msg_Nil_def NilMsg_def)

lemma Nil_NilPrivateKey [simp]: "PrivateKey_Nil NilPrivateKey"
  by (simp add: PrivateKey_Nil_def NilPrivateKey_def)

subsection \<open>Key generation and message preparation\<close>

lemma crypto_GenKey_ok:
  assumes "is_prime (getP mo)" and "crypto_GenKey mo debug random = Inr (key, random')"
  shows "crypto_key_ok mo key" and "\<not> PrivateKey_Nil key"
proof -
  from assms(2) obtain pk where gen: "GenUserKey random (createSysKey mo) = Inr (Inr pk, random')"
      and key: "key = \<lparr>pk_E = big_Bytes (mo_E pk), pk_D = big_Bytes (mo_D pk)\<rparr>"
    by (auto simp: crypto_GenKey_def elim!: go_bindE split: sum.split_asm)
  have prime: "is_prime (sys_P (createSysKey mo))" using assms(1) by (simp add: createSysKey_def)
  note ok = GenUserKey_ok [OF prime gen]
  have "createPrivateKey mo key = pk"
    using ok(2) by (cases pk) (simp add: createPrivateKey_def key getE_def getD_def createSysKey_def)
  with ok(1) show "crypto_key_ok mo key" by (simp add: crypto_key_ok_def)
  show "\<not> PrivateKey_Nil key" using ok(3) by (simp add: PrivateKey_Nil_def key)
qed

lemma crypto_PrepareMsg_ok:
  assumes "int (length msg) < bytesMaxSize (int (big_BitLen (getP mo)))"
  shows "\<exists>m. crypto_PrepareMsg mo msg = Inr (Inr m) \<and> crypto_msg_ok mo m \<and>
    crypto_ExtractMsg mo m = Inr msg"
proof -
  let ?plen = "int (big_BitLen (getP mo))"
  let ?m = "bigInt (replicate (nat (bytesMaxSize ?plen) - length msg) 1 @ 0 # msg)"
  have prep: "PrepareMsg msg ?plen = Inr (Inr ?m)" using assms by (intro PrepareMsg_eq) simp
  moreover have "residue_ok (getP mo) ?m"
    unfolding residue_ok_def using PrepareMsg_pos [OF assms] PrepareMsg_less [OF prep] by blast
  ultimately show ?thesis
    using Extract_Prepare_short [OF assms]
    by (simp add: crypto_PrepareMsg_def msg_ok_NewMsg crypto_ExtractMsg_def)
qed

end
