(* ===== verification/Op.thy ===== *)
theory Op
  imports Crypto
begin

text \<open>
  \<open>anonbcast/op.go\<close>: the operations that clients submit to the replicated state
  machine. Each Go struct that implements the interface \<open>Op\<close> is a constructor, with the
  struct's fields as its arguments; the crypto object of a start operation is a nilable
  interface value. The state machine is parametric in the type \<open>'c\<close> of crypto objects.
\<close>

datatype OpType =
    JoinOpType
  | StartOpType
  | MessageOpType
  | EncryptedOpType
  | ScrambledOpType
  | DecryptedOpType
  | RevealOpType
  | AbortOpType

datatype 'c Op =
    JoinOp (op_Id: uuid) (op_R: int)
  | StartOp (op_Id: uuid) (op_R: int) (op_Crypto: "'c option")
  | MessageOp (op_Id: uuid) (op_R: int) (op_Message: Msg) (op_RevealKeyHash: bytes)
  | EncryptedOp (op_Id: uuid) (op_R: int) (op_Messages: "Msg list") (op_Prev: int)
  | ScrambledOp (op_Id: uuid) (op_R: int) (op_Messages: "Msg list")
  | DecryptedOp (op_Id: uuid) (op_R: int) (op_Messages: "Msg list") (op_Prev: int)
  | RevealOp (op_Id: uuid) (op_R: int) (op_RevealKey: PrivateKey)
  | AbortOp (op_R: int)

fun Op_Type :: "'c Op \<Rightarrow> OpType" where
  "Op_Type (JoinOp _ _) = JoinOpType"
| "Op_Type (StartOp _ _ _) = StartOpType"
| "Op_Type (MessageOp _ _ _ _) = MessageOpType"
| "Op_Type (EncryptedOp _ _ _ _) = EncryptedOpType"
| "Op_Type (ScrambledOp _ _ _) = ScrambledOpType"
| "Op_Type (DecryptedOp _ _ _ _) = DecryptedOpType"
| "Op_Type (RevealOp _ _ _) = RevealOpType"
| "Op_Type (AbortOp _) = AbortOpType"

fun Op_Round :: "'c Op \<Rightarrow> int" where
  "Op_Round (JoinOp _ R) = R"
| "Op_Round (StartOp _ R _) = R"
| "Op_Round (MessageOp _ R _ _) = R"
| "Op_Round (EncryptedOp _ R _ _) = R"
| "Op_Round (ScrambledOp _ R _) = R"
| "Op_Round (DecryptedOp _ R _ _) = R"
| "Op_Round (RevealOp _ R _) = R"
| "Op_Round (AbortOp R) = R"

end
