(* ===== verification/State_Machine.thy ===== *)
theory State_Machine
  imports Op
begin

text \<open>
  \<open>anonbcast/statemachine.go\<close>: the replicated state machine of the broadcast protocol.

  \<^item> \<open>RoundInfo\<close> and \<open>StateMachine\<close> are the two structs. The Go array of three round infos is a
    list of length 3 (part of the invariant); the phase "" of a round that was never
    started is \<open>NoPhase\<close>. The Go round number is an \<open>int\<close>, here unbounded.
  \<^item> \<open>CurrentRoundInfo\<close> returns a pointer into the array: a handler reads the round info,
    and \<open>put_round\<close> stores the changed one back.
  \<^item> \<open>sm_join\<close> to \<open>sm_abort\<close> are the eight handlers, \<open>Apply\<close> the dispatcher with the
    representation checks before and after. Every handler returns the flag of the Go
    method and the new state, or the panic that the Go code would raise: an assertion
    (only when \<open>debug\<close> is set) or an index out of range.
  \<^item> \<open>GuaranteedNoEffect\<close>, \<open>MayPrecede\<close>, \<open>DeepCopy\<close> and \<open>NewStateMachine\<close> are the remaining methods.

  The theorems about this machine are in \<open>State_Machine_Props\<close>.
\<close>

datatype Phase =
    NoPhase
  | PreparePhase
  | SubmitPhase
  | EncryptPhase
  | ScramblePhase
  | DecryptPhase
  | RevealPhase
  | DonePhase
  | FailedPhase

definition NumRoundsPersisted :: int where
  "NumRoundsPersisted = 3"

record 'c RoundInfo =
  ri_Phase :: Phase
  ri_Crypto :: "'c option"
  ri_Participants :: "uuid list"
  ri_Messages :: "Msg list"
  ri_Encrypted :: "bool list"
  ri_Scrambled :: "bool list"
  ri_Decrypted :: "bool list"
  ri_RevealedKeys :: "PrivateKey list"
  ri_RevealKeyHashes :: "bytes list"

record 'c StateMachine =
  sm_Round :: int
  sm_Rounds :: "'c RoundInfo list"

datatype sm_error = RoundFromFuture | RoundNegative | RoundTooOld

text \<open>The zero value \<open>RoundInfo{}\<close>, and the value that \<open>initRound\<close> stores.\<close>

definition zero_RoundInfo :: "'c RoundInfo" where
  "zero_RoundInfo = \<lparr>ri_Phase = NoPhase, ri_Crypto = None, ri_Participants = [], ri_Messages = [],
     ri_Encrypted = [], ri_Scrambled = [], ri_Decrypted = [], ri_RevealedKeys = [], ri_RevealKeyHashes = []\<rparr>"

subsection \<open>Representation checks\<close>

definition RoundInfo_checkRep :: "'c RoundInfo \<Rightarrow> bool" where
  "RoundInfo_checkRep ri \<longleftrightarrow>
     length (ri_Participants ri) = length (ri_Messages ri) \<and>
     length (ri_Participants ri) = length (ri_Encrypted ri) \<and>
     length (ri_Participants ri) = length (ri_Scrambled ri) \<and>
     length (ri_Participants ri) = length (ri_Decrypted ri) \<and>
     length (ri_Participants ri) = length (ri_RevealedKeys ri) \<and>
     length (ri_Participants ri) = length (ri_RevealKeyHashes ri) \<and>
     (ri_Phase ri = NoPhase \<or> ri_Phase ri = PreparePhase \<or> ri_Phase ri = FailedPhase \<or> ri_Crypto ri \<noteq> None) \<and>
     (ri_Phase ri \<noteq> PreparePhase \<or> ri_Crypto ri = None) \<and>
     left_to_right (ri_Scrambled ri) \<and>
     (\<forall>i1 \<in> {0..<length (ri_Participants ri)}. \<forall>i2 \<in> {0..<length (ri_Participants ri)}.
        \<not> (ri_Participants ri ! i1 = ri_Participants ri ! i2 \<and> i1 \<noteq> i2)) \<and>
     (\<forall>i \<in> {0..<length (ri_Messages ri)}.
        if \<not> Msg_Nil (ri_Messages ri ! i) then 0 < length (ri_RevealKeyHashes ri ! i)
        else length (ri_RevealKeyHashes ri ! i) = 0)"

definition StateMachine_checkRep :: "'c StateMachine \<Rightarrow> bool" where
  "StateMachine_checkRep sm \<longleftrightarrow> 0 \<le> sm_Round sm \<and> (\<forall>ri \<in> set (sm_Rounds sm). RoundInfo_checkRep ri)"

subsection \<open>Rounds\<close>

definition GetRoundInfo :: "'c StateMachine \<Rightarrow> int \<Rightarrow> sm_error + 'c RoundInfo" where
  "GetRoundInfo sm round =
     (if round > sm_Round sm then Inl RoundFromFuture
      else if round < 0 then Inl RoundNegative
      else if round \<le> sm_Round sm - NumRoundsPersisted then Inl RoundTooOld
      else Inr (sm_Rounds sm ! nat (round mod NumRoundsPersisted)))"

definition CurrentRoundInfo :: "bool \<Rightarrow> 'c StateMachine \<Rightarrow> 'c RoundInfo go" where
  "CurrentRoundInfo debug sm =
     (case GetRoundInfo sm (sm_Round sm) of
        Inl err \<Rightarrow> go_bind (go_assert debug False) (\<lambda>_. Inr zero_RoundInfo)
      | Inr ri \<Rightarrow> Inr ri)"

text \<open>
  A write through the pointer of \<open>CurrentRoundInfo\<close>. When that method fails the pointer
  is to a fresh value, and the write does not reach the state machine.
\<close>

definition put_round :: "'c StateMachine \<Rightarrow> 'c RoundInfo \<Rightarrow> 'c StateMachine" where
  "put_round sm ri =
     (if sm_Round sm < 0 then sm
      else sm\<lparr>sm_Rounds := (sm_Rounds sm)[nat (sm_Round sm mod NumRoundsPersisted) := ri]\<rparr>)"

definition initRound :: "bool \<Rightarrow> 'c StateMachine \<Rightarrow> int \<Rightarrow> 'c StateMachine go" where
  "initRound debug sm round =
     go_bind (go_assert debug (sm_Round sm = round)) (\<lambda>_.
       if round smod NumRoundsPersisted < 0 then Inl IndexOutOfRange
       else go_bind (go_store (sm_Rounds sm) (nat (round smod NumRoundsPersisted))
              (zero_RoundInfo\<lparr>ri_Phase := PreparePhase\<rparr>))
            (\<lambda>rounds. Inr (sm\<lparr>sm_Rounds := rounds\<rparr>)))"

definition NewStateMachine :: "bool \<Rightarrow> bytes option \<Rightarrow> 'c StateMachine go" where
  "NewStateMachine debug snapshot =
     (case snapshot of
        Some _ \<Rightarrow> Inl (Panic ''we can only do nil snapshots for now!'')
      | None \<Rightarrow> initRound debug \<lparr>sm_Round = 0, sm_Rounds = replicate 3 zero_RoundInfo\<rparr> 0)"

fun participantIndex_from :: "nat \<Rightarrow> uuid list \<Rightarrow> uuid \<Rightarrow> nat option" where
  "participantIndex_from i [] pid = None"
| "participantIndex_from i (p # ps) pid =
     (if p = pid then Some i else participantIndex_from (Suc i) ps pid)"

definition participantIndex :: "'c RoundInfo \<Rightarrow> uuid \<Rightarrow> nat option" where
  "participantIndex ri pid = participantIndex_from 0 (ri_Participants ri) pid"

definition numEncrypted :: "'c RoundInfo \<Rightarrow> nat" where
  "numEncrypted ri = count_true (ri_Encrypted ri)"

definition numScrambled :: "'c RoundInfo \<Rightarrow> nat" where
  "numScrambled ri = count_true (ri_Scrambled ri)"

definition numDecrypted :: "'c RoundInfo \<Rightarrow> nat" where
  "numDecrypted ri = count_true (ri_Decrypted ri)"

subsection \<open>The handlers\<close>

definition sm_join :: "bool \<Rightarrow> 'c StateMachine \<Rightarrow> uuid \<Rightarrow> (bool \<times> 'c StateMachine) go" where
  "sm_join debug sm pid =
     go_bind (CurrentRoundInfo debug sm) (\<lambda>ri.
       if ri_Phase ri \<noteq> PreparePhase then Inr (False, sm)
       else case participantIndex ri pid of
         None \<Rightarrow> Inr (True, put_round sm (ri\<lparr>
           ri_Participants := ri_Participants ri @ [pid],
           ri_Messages := ri_Messages ri @ [NilMsg],
           ri_Encrypted := ri_Encrypted ri @ [False],
           ri_Scrambled := ri_Scrambled ri @ [False],
           ri_Decrypted := ri_Decrypted ri @ [False],
           ri_RevealedKeys := ri_RevealedKeys ri @ [NilPrivateKey],
           ri_RevealKeyHashes := ri_RevealKeyHashes ri @ [[]]\<rparr>))
       | Some _ \<Rightarrow> Inr (False, sm))"

definition sm_start :: "bool \<Rightarrow> 'c StateMachine \<Rightarrow> 'c option \<Rightarrow> (bool \<times> 'c StateMachine) go" where
  "sm_start debug sm crypto =
     go_bind (CurrentRoundInfo debug sm) (\<lambda>ri.
       if ri_Phase ri \<noteq> PreparePhase then Inr (False, sm)
       else Inr (True, put_round sm (ri\<lparr>ri_Phase := SubmitPhase, ri_Crypto := crypto\<rparr>)))"

definition sm_message :: "bool \<Rightarrow> 'c StateMachine \<Rightarrow> uuid \<Rightarrow> Msg \<Rightarrow> bytes \<Rightarrow> (bool \<times> 'c StateMachine) go" where
  "sm_message debug sm pid message revealKeyHash =
     go_bind (CurrentRoundInfo debug sm) (\<lambda>ri.
       if ri_Phase ri \<noteq> SubmitPhase then Inr (False, sm)
       else case participantIndex ri pid of
         None \<Rightarrow> Inr (False, sm)
       | Some p \<Rightarrow>
           go_bind (go_store (ri_Messages ri) p message) (\<lambda>messages.
           go_bind (go_store (ri_RevealKeyHashes ri) p
               (go_copy (replicate (length revealKeyHash) 0) revealKeyHash)) (\<lambda>hashes.
             let ri = ri\<lparr>ri_Messages := messages, ri_RevealKeyHashes := hashes\<rparr>
             in if list_ex Msg_Nil messages then Inr (True, put_round sm ri)
                else Inr (True, put_round sm (ri\<lparr>ri_Phase := EncryptPhase\<rparr>)))))"

definition sm_encrypted :: "bool \<Rightarrow> 'c StateMachine \<Rightarrow> uuid \<Rightarrow> Msg list \<Rightarrow> int \<Rightarrow> (bool \<times> 'c StateMachine) go" where
  "sm_encrypted debug sm pid messages prev =
     go_bind (CurrentRoundInfo debug sm) (\<lambda>ri.
       if ri_Phase ri \<noteq> EncryptPhase then Inr (False, sm)
       else case participantIndex ri pid of
         None \<Rightarrow> Inr (False, sm)
       | Some p \<Rightarrow>
           if int (numEncrypted ri) \<noteq> prev then Inr (False, sm)
           else go_bind (go_index (ri_Encrypted ri) p) (\<lambda>done.
             if done then Inr (False, sm)
             else go_bind (go_store (ri_Encrypted ri) p True) (\<lambda>encrypted.
               let ri = ri\<lparr>ri_Messages := messages, ri_Encrypted := encrypted\<rparr>
               in if numEncrypted ri = length (ri_Encrypted ri)
                  then Inr (True, put_round sm (ri\<lparr>ri_Phase := ScramblePhase\<rparr>))
                  else Inr (True, put_round sm ri))))"

definition sm_scrambled :: "bool \<Rightarrow> 'c StateMachine \<Rightarrow> uuid \<Rightarrow> Msg list \<Rightarrow> (bool \<times> 'c StateMachine) go" where
  "sm_scrambled debug sm pid messages =
     go_bind (CurrentRoundInfo debug sm) (\<lambda>ri.
       if ri_Phase ri \<noteq> ScramblePhase then Inr (False, sm)
       else case participantIndex ri pid of
         None \<Rightarrow> Inr (False, sm)
       | Some p \<Rightarrow>
           if numScrambled ri \<noteq> p then Inr (False, sm)
           else go_bind (go_index (ri_Scrambled ri) p) (\<lambda>done.
             if done then Inr (False, sm)
             else go_bind (go_store (ri_Scrambled ri) p True) (\<lambda>scrambled.
               let ri = ri\<lparr>ri_Messages := messages, ri_Scrambled := scrambled\<rparr>
               in if numScrambled ri = length (ri_Scrambled ri)
                  then Inr (True, put_round sm (ri\<lparr>ri_Phase := DecryptPhase\<rparr>))
                  else Inr (True, put_round sm ri))))"

definition sm_decrypted :: "bool \<Rightarrow> 'c StateMachine \<Rightarrow> uuid \<Rightarrow> Msg list \<Rightarrow> int \<Rightarrow> (bool \<times> 'c StateMachine) go" where
  "sm_decrypted debug sm pid messages prev =
     go_bind (CurrentRoundInfo debug sm) (\<lambda>ri.
       if ri_Phase ri \<noteq> DecryptPhase then Inr (False, sm)
       else case participantIndex ri pid of
         None \<Rightarrow> Inr (False, sm)
       | Some p \<Rightarrow>
           if int (numDecrypted ri) \<noteq> prev then Inr (False, sm)
           else go_bind (go_index (ri_Decrypted ri) p) (\<lambda>done.
             if done then Inr (False, sm)
             else go_bind (go_store (ri_Decrypted ri) p True) (\<lambda>decrypted.
               let ri = ri\<lparr>ri_Messages := messages, ri_Decrypted := decrypted\<rparr>
               in if numDecrypted ri = length (ri_Decrypted ri)
                  then Inr (True, put_round sm (ri\<lparr>ri_Phase := RevealPhase\<rparr>))
                  else Inr (True, put_round sm ri))))"

text \<open>The end of a round, shared by \<open>reveal\<close> and \<open>abort\<close>: \<open>sm.Round++; sm.initRound(sm.Round)\<close>.\<close>

definition next_round :: "bool \<Rightarrow> 'c StateMachine \<Rightarrow> (bool \<times> 'c StateMachine) go" where
  "next_round debug sm =
     (let sm = sm\<lparr>sm_Round := sm_Round sm + 1\<rparr>
      in go_bind (initRound debug sm (sm_Round sm)) (\<lambda>sm'. Inr (True, sm')))"

definition sm_reveal :: "bool \<Rightarrow> 'c StateMachine \<Rightarrow> uuid \<Rightarrow> PrivateKey \<Rightarrow> (bool \<times> 'c StateMachine) go" where
  "sm_reveal debug sm pid revealKey =
     go_bind (CurrentRoundInfo debug sm) (\<lambda>ri.
       if ri_Phase ri \<noteq> RevealPhase then Inr (False, sm)
       else case participantIndex ri pid of
         None \<Rightarrow> Inr (False, sm)
       | Some p \<Rightarrow>
           go_bind (go_store (ri_RevealedKeys ri) p revealKey) (\<lambda>keys.
             let ri = ri\<lparr>ri_RevealedKeys := keys\<rparr>
             in if list_ex PrivateKey_Nil keys then Inr (True, put_round sm ri)
                else next_round debug (put_round sm (ri\<lparr>ri_Phase := DonePhase\<rparr>))))"

definition sm_abort :: "bool \<Rightarrow> 'c StateMachine \<Rightarrow> (bool \<times> 'c StateMachine) go" where
  "sm_abort debug sm =
     go_bind (CurrentRoundInfo debug sm) (\<lambda>ri.
       next_round debug (put_round sm (ri\<lparr>ri_Phase := FailedPhase\<rparr>)))"

fun Apply_op :: "bool \<Rightarrow> 'c StateMachine \<Rightarrow> 'c Op \<Rightarrow> (bool \<times> 'c StateMachine) go" where
  "Apply_op debug sm (JoinOp pid r) = sm_join debug sm pid"
| "Apply_op debug sm (StartOp pid r crypto) = sm_start debug sm crypto"
| "Apply_op debug sm (MessageOp pid r message hash) = sm_message debug sm pid message hash"
| "Apply_op debug sm (EncryptedOp pid r messages prev) = sm_encrypted debug sm pid messages prev"
| "Apply_op debug sm (ScrambledOp pid r messages) = sm_scrambled debug sm pid messages"
| "Apply_op debug sm (DecryptedOp pid r messages prev) = sm_decrypted debug sm pid messages prev"
| "Apply_op debug sm (RevealOp pid r revealKey) = sm_reveal debug sm pid revealKey"
| "Apply_op debug sm (AbortOp r) = sm_abort debug sm"

definition Apply :: "bool \<Rightarrow> 'c StateMachine \<Rightarrow> 'c Op \<Rightarrow> (bool \<times> 'c StateMachine) go" where
  "Apply debug sm op =
     go_bind (go_assert debug (StateMachine_checkRep sm)) (\<lambda>_.
     go_bind (if Op_Round op \<noteq> sm_Round sm then Inr (False, sm) else Apply_op debug sm op) (\<lambda>(updated, sm').
     go_bind (go_assert debug (StateMachine_checkRep sm')) (\<lambda>_.
       Inr (updated, sm'))))"

subsection \<open>Operations without effect, and the order of states\<close>

fun phaseOrder :: "Phase \<Rightarrow> nat" where
  "phaseOrder PreparePhase = 0"
| "phaseOrder SubmitPhase = 1"
| "phaseOrder EncryptPhase = 2"
| "phaseOrder ScramblePhase = 3"
| "phaseOrder DecryptPhase = 4"
| "phaseOrder RevealPhase = 5"
| "phaseOrder DonePhase = 6"
| "phaseOrder FailedPhase = 7"
| "phaseOrder NoPhase = 0"

text \<open>
  The \<open>switch\<close> of the Go method falls through from each phase to the one before it:
  \<open>noEffect_in\<close> gives each case its own test and then that of the case it falls
  into.
\<close>

function (sequential) noEffect_in :: "Phase \<Rightarrow> OpType \<Rightarrow> bool option" where
  "noEffect_in PreparePhase t = Some False"
| "noEffect_in SubmitPhase t = (if t = JoinOpType \<or> t = StartOpType then Some True else Some False)"
| "noEffect_in EncryptPhase t = (if t = MessageOpType then Some True else noEffect_in SubmitPhase t)"
| "noEffect_in ScramblePhase t = (if t = EncryptedOpType then Some True else noEffect_in EncryptPhase t)"
| "noEffect_in DecryptPhase t = (if t = ScrambledOpType then Some True else noEffect_in ScramblePhase t)"
| "noEffect_in RevealPhase t = (if t = DecryptedOpType then Some True else noEffect_in DecryptPhase t)"
| "noEffect_in _ t = None"
  by pat_completeness auto
termination
  by (relation "measure (\<lambda>(phase, t). phaseOrder phase)") auto

definition GuaranteedNoEffect :: "bool \<Rightarrow> 'c StateMachine \<Rightarrow> 'c Op \<Rightarrow> bool go" where
  "GuaranteedNoEffect debug sm op =
     (if Op_Round op < sm_Round sm then Inr True
      else if Op_Round op = sm_Round sm then
        go_bind (CurrentRoundInfo debug sm) (\<lambda>ri.
          case noEffect_in (ri_Phase ri) (Op_Type op) of
            Some b \<Rightarrow> Inr b
          | None \<Rightarrow> go_bind (go_assert debug False) (\<lambda>_. Inr False))
      else Inr False)"

definition MayPrecede :: "bool \<Rightarrow> 'c StateMachine \<Rightarrow> 'c StateMachine \<Rightarrow> bool go" where
  "MayPrecede debug sm sm2 =
     (if sm_Round sm < sm_Round sm2 then Inr True
      else if sm_Round sm > sm_Round sm2 then Inr False
      else go_bind (CurrentRoundInfo debug sm) (\<lambda>ri.
           go_bind (CurrentRoundInfo debug sm2) (\<lambda>ri2.
             Inr (\<not> phaseOrder (ri_Phase ri) > phaseOrder (ri_Phase ri2)))))"

subsection \<open>Copies\<close>

definition RoundInfo_DeepCopy :: "('c \<Rightarrow> 'c) \<Rightarrow> 'c RoundInfo \<Rightarrow> 'c RoundInfo go" where
  "RoundInfo_DeepCopy crypto_copy ri =
     (let n = length (ri_Participants ri)
      in go_bind (go_store_all 0 (replicate n NilMsg) (map Msg_DeepCopy (ri_Messages ri))) (\<lambda>messages.
         go_bind (go_store_all 0 (replicate n NilPrivateKey) (map PrivateKey_DeepCopy (ri_RevealedKeys ri))) (\<lambda>keys.
         go_bind (go_store_all 0 (replicate n [])
             (map (\<lambda>b. go_copy (replicate (length b) 0) b) (ri_RevealKeyHashes ri))) (\<lambda>hashes.
           Inr \<lparr>ri_Phase = ri_Phase ri,
                ri_Crypto = map_option crypto_copy (ri_Crypto ri),
                ri_Participants = go_copy (replicate n 0) (ri_Participants ri),
                ri_Messages = messages,
                ri_Encrypted = go_copy (replicate n False) (ri_Encrypted ri),
                ri_Scrambled = go_copy (replicate n False) (ri_Scrambled ri),
                ri_Decrypted = go_copy (replicate n False) (ri_Decrypted ri),
                ri_RevealedKeys = keys,
                ri_RevealKeyHashes = hashes\<rparr>))))"

definition StateMachine_DeepCopy :: "bool \<Rightarrow> ('c \<Rightarrow> 'c) \<Rightarrow> 'c StateMachine \<Rightarrow> 'c StateMachine go" where
  "StateMachine_DeepCopy debug crypto_copy sm =
     go_bind (go_assert debug (StateMachine_checkRep sm)) (\<lambda>_.
     go_bind (go_assert debug (StateMachine_checkRep
       (\<lparr>sm_Round = sm_Round sm, sm_Rounds = replicate 3 zero_RoundInfo\<rparr> :: 'c StateMachine))) (\<lambda>_.
     go_bind (go_map (RoundInfo_DeepCopy crypto_copy) (sm_Rounds sm)) (\<lambda>rounds.
     go_bind (go_assert debug (StateMachine_checkRep \<lparr>sm_Round = sm_Round sm, sm_Rounds = rounds\<rparr>)) (\<lambda>_.
     go_bind (go_assert debug (StateMachine_checkRep sm)) (\<lambda>_.
       Inr \<lparr>sm_Round = sm_Round sm, sm_Rounds = rounds\<rparr>)))))"

definition Snapshot :: "'c StateMachine \<Rightarrow> bytes go" where
  "Snapshot sm = Inl (Panic ''implement this'')"

end
