(* ===== verification/Round_Steps.thy ===== *)
theory Round_Steps
  imports State_Machine
begin

text \<open>
  The abstract specification of the state machine: what one operation may do to
  the current round.

  \<^item> \<open>ri_step\<close> relates a round info, an operation that has an effect inside the round, and
    the round info after it, one rule per kind of operation and outcome; \<open>ri_finish\<close> relates
    a round info, an operation that ends the round and the round info that is kept as history.
  \<^item> \<open>sm_basic\<close> is the part of the invariant that the array accesses need; under it
    \<open>Apply_op_spec\<close> shows that the handlers implement exactly these relations: an
    operation is refused and changes nothing, or makes the one step the relation
    allows. Everything later is proved by cases over these relations.
\<close>

definition cur :: "'c StateMachine \<Rightarrow> 'c RoundInfo" where
  "cur sm = sm_Rounds sm ! nat (sm_Round sm mod 3)"

definition advance :: "'c StateMachine \<Rightarrow> 'c StateMachine" where
  "advance sm = sm\<lparr>sm_Round := sm_Round sm + 1,
     sm_Rounds := (sm_Rounds sm)[nat ((sm_Round sm + 1) mod 3) := zero_RoundInfo\<lparr>ri_Phase := PreparePhase\<rparr>]\<rparr>"

definition lists_ok :: "'c RoundInfo \<Rightarrow> bool" where
  "lists_ok ri \<longleftrightarrow>
     distinct (ri_Participants ri) \<and>
     length (ri_Encrypted ri) = length (ri_Participants ri) \<and>
     length (ri_Scrambled ri) = length (ri_Participants ri) \<and>
     length (ri_Decrypted ri) = length (ri_Participants ri) \<and>
     length (ri_RevealedKeys ri) = length (ri_Participants ri) \<and>
     length (ri_RevealKeyHashes ri) = length (ri_Participants ri) \<and>
     left_to_right (ri_Scrambled ri) \<and>
     (ri_Phase ri \<in> {NoPhase, PreparePhase, SubmitPhase} \<longrightarrow>
        length (ri_Messages ri) = length (ri_Participants ri))"

definition sm_basic :: "'c StateMachine \<Rightarrow> bool" where
  "sm_basic sm \<longleftrightarrow> 0 \<le> sm_Round sm \<and> length (sm_Rounds sm) = 3 \<and> (\<forall>ri \<in> set (sm_Rounds sm). lists_ok ri)"

inductive ri_step :: "'c RoundInfo \<Rightarrow> 'c Op \<Rightarrow> 'c RoundInfo \<Rightarrow> bool" where
  join: "ri_Phase ri = PreparePhase \<Longrightarrow> pid \<notin> set (ri_Participants ri) \<Longrightarrow>
    ri_step ri (JoinOp pid r) (ri\<lparr>
      ri_Participants := ri_Participants ri @ [pid], ri_Messages := ri_Messages ri @ [NilMsg],
      ri_Encrypted := ri_Encrypted ri @ [False], ri_Scrambled := ri_Scrambled ri @ [False],
      ri_Decrypted := ri_Decrypted ri @ [False], ri_RevealedKeys := ri_RevealedKeys ri @ [NilPrivateKey],
      ri_RevealKeyHashes := ri_RevealKeyHashes ri @ [[]]\<rparr>)"
| start: "ri_Phase ri = PreparePhase \<Longrightarrow>
    ri_step ri (StartOp pid r crypto) (ri\<lparr>ri_Phase := SubmitPhase, ri_Crypto := crypto\<rparr>)"
| message: "ri_Phase ri = SubmitPhase \<Longrightarrow> p < length (ri_Participants ri) \<Longrightarrow> ri_Participants ri ! p = pid \<Longrightarrow>
    ri_step ri (MessageOp pid r m h) (ri\<lparr>
      ri_Messages := (ri_Messages ri)[p := m], ri_RevealKeyHashes := (ri_RevealKeyHashes ri)[p := h],
      ri_Phase := (if \<exists>x \<in> set ((ri_Messages ri)[p := m]). Msg_Nil x then SubmitPhase else EncryptPhase)\<rparr>)"
| encrypted: "ri_Phase ri = EncryptPhase \<Longrightarrow> p < length (ri_Participants ri) \<Longrightarrow> ri_Participants ri ! p = pid \<Longrightarrow>
    \<not> ri_Encrypted ri ! p \<Longrightarrow> prev = int (numEncrypted ri) \<Longrightarrow>
    ri_step ri (EncryptedOp pid r ms prev) (ri\<lparr>
      ri_Messages := ms, ri_Encrypted := (ri_Encrypted ri)[p := True],
      ri_Phase := (if Suc (numEncrypted ri) = length (ri_Participants ri) then ScramblePhase else EncryptPhase)\<rparr>)"
| scrambled: "ri_Phase ri = ScramblePhase \<Longrightarrow> numScrambled ri < length (ri_Participants ri) \<Longrightarrow>
    ri_Participants ri ! numScrambled ri = pid \<Longrightarrow>
    ri_step ri (ScrambledOp pid r ms) (ri\<lparr>
      ri_Messages := ms, ri_Scrambled := (ri_Scrambled ri)[numScrambled ri := True],
      ri_Phase := (if Suc (numScrambled ri) = length (ri_Participants ri) then DecryptPhase else ScramblePhase)\<rparr>)"
| decrypted: "ri_Phase ri = DecryptPhase \<Longrightarrow> p < length (ri_Participants ri) \<Longrightarrow> ri_Participants ri ! p = pid \<Longrightarrow>
    \<not> ri_Decrypted ri ! p \<Longrightarrow> prev = int (numDecrypted ri) \<Longrightarrow>
    ri_step ri (DecryptedOp pid r ms prev) (ri\<lparr>
      ri_Messages := ms, ri_Decrypted := (ri_Decrypted ri)[p := True],
      ri_Phase := (if Suc (numDecrypted ri) = length (ri_Participants ri) then RevealPhase else DecryptPhase)\<rparr>)"
| revealed: "ri_Phase ri = RevealPhase \<Longrightarrow> p < length (ri_Participants ri) \<Longrightarrow> ri_Participants ri ! p = pid \<Longrightarrow>
    \<exists>k \<in> set ((ri_RevealedKeys ri)[p := key]). PrivateKey_Nil k \<Longrightarrow>
    ri_step ri (RevealOp pid r key) (ri\<lparr>ri_RevealedKeys := (ri_RevealedKeys ri)[p := key]\<rparr>)"

inductive ri_finish :: "'c RoundInfo \<Rightarrow> 'c Op \<Rightarrow> 'c RoundInfo \<Rightarrow> bool" where
  all_revealed: "ri_Phase ri = RevealPhase \<Longrightarrow> p < length (ri_Participants ri) \<Longrightarrow> ri_Participants ri ! p = pid \<Longrightarrow>
    \<forall>k \<in> set ((ri_RevealedKeys ri)[p := key]). \<not> PrivateKey_Nil k \<Longrightarrow>
    ri_finish ri (RevealOp pid r key) (ri\<lparr>ri_RevealedKeys := (ri_RevealedKeys ri)[p := key], ri_Phase := DonePhase\<rparr>)"
| aborted: "ri_finish ri (AbortOp r) (ri\<lparr>ri_Phase := FailedPhase\<rparr>)"

inductive_simps ri_step_simps:
  "ri_step ri (JoinOp pid r) ri'"
  "ri_step ri (StartOp pid r crypto) ri'"
  "ri_step ri (MessageOp pid r m h) ri'"
  "ri_step ri (EncryptedOp pid r ms prev) ri'"
  "ri_step ri (ScrambledOp pid r ms) ri'"
  "ri_step ri (DecryptedOp pid r ms prev) ri'"
  "ri_step ri (RevealOp pid r key) ri'"
  "ri_step ri (AbortOp r) ri'"

inductive_simps ri_finish_simps:
  "ri_finish ri (JoinOp pid r) ri'"
  "ri_finish ri (StartOp pid r crypto) ri'"
  "ri_finish ri (MessageOp pid r m h) ri'"
  "ri_finish ri (EncryptedOp pid r ms prev) ri'"
  "ri_finish ri (ScrambledOp pid r ms) ri'"
  "ri_finish ri (DecryptedOp pid r ms prev) ri'"
  "ri_finish ri (RevealOp pid r key) ri'"
  "ri_finish ri (AbortOp r) ri'"

subsection \<open>The current round\<close>

lemma participantIndex_from_Some:
  "participantIndex_from i ps pid = Some p \<Longrightarrow> i \<le> p \<and> p < i + length ps \<and> ps ! (p - i) = pid"
proof (induction i ps pid rule: participantIndex_from.induct)
  case (1 i pid)
  then show ?case by simp
next
  case (2 i q ps pid)
  show ?case
  proof (cases "q = pid")
    case True
    with "2.prems" show ?thesis by simp
  next
    case False
    with 2 have "Suc i \<le> p \<and> p < Suc i + length ps \<and> ps ! (p - Suc i) = pid" by simp
    moreover then have "p - i = Suc (p - Suc i)" by linarith
    ultimately show ?thesis by simp
  qed
qed

lemma participantIndex_from_None: "participantIndex_from i ps pid = None \<longleftrightarrow> pid \<notin> set ps"
  by (induction i ps pid rule: participantIndex_from.induct) auto

lemma participantIndex_None: "participantIndex ri pid = None \<longleftrightarrow> pid \<notin> set (ri_Participants ri)"
  by (simp add: participantIndex_def participantIndex_from_None)

lemma participantIndex_Some:
  assumes "distinct (ri_Participants ri)"
  shows "participantIndex ri pid = Some p \<longleftrightarrow> p < length (ri_Participants ri) \<and> ri_Participants ri ! p = pid"
proof
  assume "participantIndex ri pid = Some p"
  then show "p < length (ri_Participants ri) \<and> ri_Participants ri ! p = pid"
    using participantIndex_from_Some [of 0 "ri_Participants ri" pid p] by (simp add: participantIndex_def)
next
  assume p: "p < length (ri_Participants ri) \<and> ri_Participants ri ! p = pid"
  then have "participantIndex ri pid \<noteq> None" by (auto simp: participantIndex_None)
  then obtain q where q: "participantIndex ri pid = Some q" by auto
  then have "q < length (ri_Participants ri) \<and> ri_Participants ri ! q = pid"
    using participantIndex_from_Some [of 0 "ri_Participants ri" pid q] by (simp add: participantIndex_def)
  with p assms have "q = p" by (auto simp: nth_eq_iff_index_eq)
  with q show "participantIndex ri pid = Some p" by simp
qed

lemma mod3_less: "nat (r mod 3) < 3"
  by (simp add: nat_less_iff)

lemma nat_mod3_less [simp]: "length xs = 3 \<Longrightarrow> nat (r mod 3) < length xs"
  using mod3_less [of r] by simp

lemma nat_mod3_eq: "nat (r mod 3) = nat (s mod 3) \<longleftrightarrow> r mod 3 = (s :: int) mod 3"
  by (simp add: eq_nat_nat_iff)

lemma cur_in: "length (sm_Rounds sm) = 3 \<Longrightarrow> cur sm \<in> set (sm_Rounds sm)"
  unfolding cur_def by (rule nth_mem) simp

lemma CurrentRoundInfo_cur: "sm_basic sm \<Longrightarrow> CurrentRoundInfo debug sm = Inr (cur sm)"
  by (simp add: CurrentRoundInfo_def GetRoundInfo_def NumRoundsPersisted_def sm_basic_def cur_def)

lemma lists_ok_cur: "sm_basic sm \<Longrightarrow> lists_ok (cur sm)"
  using cur_in [of sm] by (auto simp: sm_basic_def)

lemma Round_put_round [simp]: "sm_Round (put_round sm ri) = sm_Round sm"
  by (simp add: put_round_def)

lemma length_put_round [simp]: "length (sm_Rounds (put_round sm ri)) = length (sm_Rounds sm)"
  by (simp add: put_round_def)

lemma put_round_basic:
  "sm_basic sm \<Longrightarrow> put_round sm ri = sm\<lparr>sm_Rounds := (sm_Rounds sm)[nat (sm_Round sm mod 3) := ri]\<rparr>"
  by (simp add: put_round_def sm_basic_def NumRoundsPersisted_def)

lemma cur_put_round [simp]: "sm_basic sm \<Longrightarrow> cur (put_round sm ri) = ri"
  by (simp add: put_round_basic cur_def sm_basic_def)

lemma sm_basic_put_round: "sm_basic sm \<Longrightarrow> lists_ok ri \<Longrightarrow> sm_basic (put_round sm ri)"
  by (auto simp: put_round_basic) (auto simp: sm_basic_def dest!: subsetD [OF set_update_subset_insert])

lemma lists_ok_fresh: "lists_ok (zero_RoundInfo\<lparr>ri_Phase := PreparePhase\<rparr>)"
  by (simp add: lists_ok_def zero_RoundInfo_def left_to_right_def)

lemma sm_basic_advance: "sm_basic sm \<Longrightarrow> sm_basic (advance sm)"
  using lists_ok_fresh
  by (auto simp: sm_basic_def advance_def dest!: subsetD [OF set_update_subset_insert])

lemma smod3: "0 \<le> r \<Longrightarrow> r smod 3 = r mod (3 :: int)"
  by (simp add: signed_modulo_int_def sgn_if)

lemma next_round_eq:
  assumes "0 \<le> sm_Round sm" and "length (sm_Rounds sm) = 3"
  shows "next_round debug sm = Inr (True, advance sm)"
proof -
  have "(sm_Round sm + 1) smod 3 = (sm_Round sm + 1) mod 3" using assms(1) by (intro smod3) simp
  then show ?thesis
    using assms by (simp add: next_round_def initRound_def Let_def advance_def NumRoundsPersisted_def
        not_less pos_mod_sign)
qed

subsection \<open>The handlers implement the steps\<close>

text \<open>
  One operation, applied to a state machine whose round number it carries: refused
  without a change, a step inside the round, or the end of the round.
\<close>

definition op_result :: "'c StateMachine \<Rightarrow> 'c Op \<Rightarrow> bool \<times> 'c StateMachine \<Rightarrow> bool" where
  "op_result sm op res \<longleftrightarrow>
     (res = (False, sm) \<and> (\<forall>ri'. \<not> ri_step (cur sm) op ri' \<and> \<not> ri_finish (cur sm) op ri')) \<or>
     (\<exists>ri'. ri_step (cur sm) op ri' \<and> res = (True, put_round sm ri')) \<or>
     (\<exists>ri'. ri_finish (cur sm) op ri' \<and> res = (True, advance (put_round sm ri')))"

lemma op_result_refused:
  "(\<And>ri'. \<not> ri_step (cur sm) op ri') \<Longrightarrow> (\<And>ri'. \<not> ri_finish (cur sm) op ri') \<Longrightarrow> op_result sm op (False, sm)"
  by (simp add: op_result_def)

lemma op_result_step: "ri_step (cur sm) op ri' \<Longrightarrow> op_result sm op (True, put_round sm ri')"
  by (auto simp: op_result_def)

lemma op_result_finish: "ri_finish (cur sm) op ri' \<Longrightarrow> op_result sm op (True, advance (put_round sm ri'))"
  by (auto simp: op_result_def)

lemmas handler_defs = sm_join_def sm_start_def sm_message_def sm_encrypted_def sm_scrambled_def
  sm_decrypted_def sm_reveal_def sm_abort_def

lemma join_spec:
  assumes "sm_basic sm"
  shows "\<exists>res. sm_join debug sm pid = Inr res \<and> op_result sm (JoinOp pid r) res"
proof (cases "ri_Phase (cur sm) = PreparePhase \<and> pid \<notin> set (ri_Participants (cur sm))")
  case True
  then show ?thesis
    using ri_step.join [of "cur sm" pid r]
    by (auto simp: sm_join_def CurrentRoundInfo_cur [OF assms] participantIndex_None [THEN iffD2]
        intro: op_result_step)
next
  case False
  then have "sm_join debug sm pid = Inr (False, sm)"
    using participantIndex_None [of "cur sm" pid]
    by (auto simp: sm_join_def CurrentRoundInfo_cur [OF assms] split: option.split)
  moreover have "op_result sm (JoinOp pid r) (False, sm)"
    using False by (auto intro!: op_result_refused simp: ri_step_simps ri_finish_simps)
  ultimately show ?thesis by blast
qed

lemma start_spec:
  assumes "sm_basic sm"
  shows "\<exists>res. sm_start debug sm crypto = Inr res \<and> op_result sm (StartOp pid r crypto) res"
proof (cases "ri_Phase (cur sm) = PreparePhase")
  case True
  then show ?thesis
    using ri_step.start [of "cur sm" pid r crypto]
    by (auto simp: sm_start_def CurrentRoundInfo_cur [OF assms] intro: op_result_step)
next
  case False
  then have "op_result sm (StartOp pid r crypto) (False, sm)"
    by (auto intro!: op_result_refused simp: ri_step_simps ri_finish_simps)
  with False show ?thesis by (auto simp: sm_start_def CurrentRoundInfo_cur [OF assms])
qed

lemma same_phase: "ri_Phase ri = ph \<Longrightarrow> ri\<lparr>ri_Phase := ph\<rparr> = ri"
  by (cases ri) simp

lemma put_phase_if:
  "(if c then Inr (True, put_round sm ri) else Inr (True, put_round sm (ri\<lparr>ri_Phase := ph\<rparr>))) =
     Inr (True, put_round sm (ri\<lparr>ri_Phase := (if c then ri_Phase ri else ph)\<rparr>))"
  "(if c then Inr (True, put_round sm (ri\<lparr>ri_Phase := ph\<rparr>)) else Inr (True, put_round sm ri)) =
     Inr (True, put_round sm (ri\<lparr>ri_Phase := (if c then ph else ri_Phase ri)\<rparr>))"
  by (simp_all add: same_phase)

lemma participant_cases:
  assumes "lists_ok ri"
  obtains (absent) "participantIndex ri pid = None" and "pid \<notin> set (ri_Participants ri)"
  | (present) p where "participantIndex ri pid = Some p" and "p < length (ri_Participants ri)"
      and "ri_Participants ri ! p = pid"
proof (cases "participantIndex ri pid")
  case None
  then show ?thesis using absent by (simp add: participantIndex_None)
next
  case (Some p)
  then show ?thesis using present assms by (simp add: participantIndex_Some lists_ok_def)
qed

lemma message_spec:
  assumes "sm_basic sm"
  shows "\<exists>res. sm_message debug sm pid m h = Inr res \<and> op_result sm (MessageOp pid r m h) res"
proof (cases "ri_Phase (cur sm) = SubmitPhase")
  case submit: True
  have ok: "lists_ok (cur sm)" by (rule lists_ok_cur [OF assms])
  note cur = CurrentRoundInfo_cur [OF assms]
  from ok show ?thesis
  proof (cases rule: participant_cases [where pid = pid])
    case absent
    then have "op_result sm (MessageOp pid r m h) (False, sm)"
      by (intro op_result_refused notI) (auto simp: ri_step_simps ri_finish_simps)
    with submit absent show ?thesis by (simp add: sm_message_def cur)
  next
    case (present p)
    let ?ri = "(cur sm)\<lparr>ri_Messages := (ri_Messages (cur sm))[p := m],
      ri_RevealKeyHashes := (ri_RevealKeyHashes (cur sm))[p := h]\<rparr>"
    let ?ph = "if \<exists>x \<in> set ((ri_Messages (cur sm))[p := m]). Msg_Nil x then SubmitPhase else EncryptPhase"
    have "sm_message debug sm pid m h = Inr (True, put_round sm (?ri\<lparr>ri_Phase := ?ph\<rparr>))"
      using submit present ok
      by (simp add: sm_message_def cur lists_ok_def list_ex_iff Let_def put_phase_if
          cong: if_cong split del: if_split)
    moreover have "ri_step (cur sm) (MessageOp pid r m h) (?ri\<lparr>ri_Phase := ?ph\<rparr>)"
      by (rule ri_step.message [OF submit present(2,3)])
    ultimately show ?thesis by (blast intro: op_result_step)
  qed
next
  case False
  then have "op_result sm (MessageOp pid r m h) (False, sm)"
    by (intro op_result_refused notI) (auto simp: ri_step_simps ri_finish_simps)
  with False show ?thesis by (simp add: sm_message_def CurrentRoundInfo_cur [OF assms])
qed

lemma refusedI:
  "(\<And>ri'. ri_step (cur sm) op ri' \<Longrightarrow> False) \<Longrightarrow> (\<And>ri'. ri_finish (cur sm) op ri' \<Longrightarrow> False) \<Longrightarrow>
   res = Inr (False, sm) \<Longrightarrow> \<exists>r. res = Inr r \<and> op_result sm op r"
  by (auto intro: op_result_refused)

lemma stepI: "ri_step (cur sm) op ri' \<Longrightarrow> res = Inr (True, put_round sm ri') \<Longrightarrow> \<exists>r. res = Inr r \<and> op_result sm op r"
  by (auto intro: op_result_step)

lemma finishI:
  "ri_finish (cur sm) op ri' \<Longrightarrow> res = Inr (True, advance (put_round sm ri')) \<Longrightarrow>
   \<exists>r. res = Inr r \<and> op_result sm op r"
  by (auto intro: op_result_finish)

lemma encrypted_spec:
  assumes "sm_basic sm"
  shows "\<exists>res. sm_encrypted debug sm pid ms prev = Inr res \<and> op_result sm (EncryptedOp pid r ms prev) res"
proof -
  note cur = CurrentRoundInfo_cur [OF assms]
  have ok: "lists_ok (cur sm)" by (rule lists_ok_cur [OF assms])
  from ok show ?thesis
  proof (cases rule: participant_cases [where pid = pid])
    case absent
    then show ?thesis
      by (intro refusedI) (auto simp: sm_encrypted_def cur ri_step_simps ri_finish_simps)
  next
    case (present p)
    have len: "p < length (ri_Encrypted (cur sm))" using present ok by (simp add: lists_ok_def)
    show ?thesis
    proof (cases "ri_Phase (cur sm) = EncryptPhase \<and> \<not> ri_Encrypted (cur sm) ! p \<and> prev = int (numEncrypted (cur sm))")
      case True
      then show ?thesis
        using present ok len
        by (intro stepI [OF ri_step.encrypted [of "cur sm" p]])
          (auto simp: sm_encrypted_def cur Let_def numEncrypted_def count_true_set lists_ok_def put_phase_if
            cong: if_cong split del: if_split)
    next
      case False
      have uniq: "q = p" if "q < length (ri_Participants (cur sm))" "ri_Participants (cur sm) ! q = pid" for q
        using that present ok by (auto simp: lists_ok_def nth_eq_iff_index_eq)
      from False present len show ?thesis
        by (intro refusedI) (auto simp: sm_encrypted_def cur ri_step_simps ri_finish_simps dest: uniq)
    qed
  qed
qed

lemma scrambled_spec:
  assumes "sm_basic sm"
  shows "\<exists>res. sm_scrambled debug sm pid ms = Inr res \<and> op_result sm (ScrambledOp pid r ms) res"
proof -
  note cur = CurrentRoundInfo_cur [OF assms]
  have ok: "lists_ok (cur sm)" by (rule lists_ok_cur [OF assms])
  from ok show ?thesis
  proof (cases rule: participant_cases [where pid = pid])
    case absent
    then show ?thesis
      by (intro refusedI) (auto simp: sm_scrambled_def cur ri_step_simps ri_finish_simps)
  next
    case (present p)
    have len: "p < length (ri_Scrambled (cur sm))" using present ok by (simp add: lists_ok_def)
    show ?thesis
    proof (cases "ri_Phase (cur sm) = ScramblePhase \<and> numScrambled (cur sm) = p")
      case True
      have "\<not> ri_Scrambled (cur sm) ! p"
        using True len ok left_to_right_count [of "ri_Scrambled (cur sm)" p]
        by (simp add: lists_ok_def numScrambled_def)
      with True show ?thesis
        using present ok len
        by (intro stepI [OF ri_step.scrambled [of "cur sm"]])
          (auto simp: sm_scrambled_def cur Let_def numScrambled_def count_true_set lists_ok_def put_phase_if
            cong: if_cong split del: if_split)
    next
      case False
      have uniq: "q = p" if "q < length (ri_Participants (cur sm))" "ri_Participants (cur sm) ! q = pid" for q
        using that present ok by (auto simp: lists_ok_def nth_eq_iff_index_eq)
      from False present len show ?thesis
        by (intro refusedI) (auto simp: sm_scrambled_def cur ri_step_simps ri_finish_simps dest: uniq)
    qed
  qed
qed

lemma decrypted_spec:
  assumes "sm_basic sm"
  shows "\<exists>res. sm_decrypted debug sm pid ms prev = Inr res \<and> op_result sm (DecryptedOp pid r ms prev) res"
proof -
  note cur = CurrentRoundInfo_cur [OF assms]
  have ok: "lists_ok (cur sm)" by (rule lists_ok_cur [OF assms])
  from ok show ?thesis
  proof (cases rule: participant_cases [where pid = pid])
    case absent
    then show ?thesis
      by (intro refusedI) (auto simp: sm_decrypted_def cur ri_step_simps ri_finish_simps)
  next
    case (present p)
    have len: "p < length (ri_Decrypted (cur sm))" using present ok by (simp add: lists_ok_def)
    show ?thesis
    proof (cases "ri_Phase (cur sm) = DecryptPhase \<and> \<not> ri_Decrypted (cur sm) ! p \<and> prev = int (numDecrypted (cur sm))")
      case True
      then show ?thesis
        using present ok len
        by (intro stepI [OF ri_step.decrypted [of "cur sm" p]])
          (auto simp: sm_decrypted_def cur Let_def numDecrypted_def count_true_set lists_ok_def put_phase_if
            cong: if_cong split del: if_split)
    next
      case False
      have uniq: "q = p" if "q < length (ri_Participants (cur sm))" "ri_Participants (cur sm) ! q = pid" for q
        using that present ok by (auto simp: lists_ok_def nth_eq_iff_index_eq)
      from False present len show ?thesis
        by (intro refusedI) (auto simp: sm_decrypted_def cur ri_step_simps ri_finish_simps dest: uniq)
    qed
  qed
qed

lemma reveal_spec:
  assumes "sm_basic sm"
  shows "\<exists>res. sm_reveal debug sm pid key = Inr res \<and> op_result sm (RevealOp pid r key) res"
proof -
  note cur = CurrentRoundInfo_cur [OF assms]
  have ok: "lists_ok (cur sm)" by (rule lists_ok_cur [OF assms])
  from ok show ?thesis
  proof (cases rule: participant_cases [where pid = pid])
    case absent
    then show ?thesis
      by (intro refusedI) (auto simp: sm_reveal_def cur ri_step_simps ri_finish_simps)
  next
    case (present p)
    have len: "p < length (ri_RevealedKeys (cur sm))" using present ok by (simp add: lists_ok_def)
    let ?keys = "(ri_RevealedKeys (cur sm))[p := key]"
    consider (other) "ri_Phase (cur sm) \<noteq> RevealPhase"
      | (some) "ri_Phase (cur sm) = RevealPhase" and "\<exists>k \<in> set ?keys. PrivateKey_Nil k"
      | (none) "ri_Phase (cur sm) = RevealPhase" and "\<forall>k \<in> set ?keys. \<not> PrivateKey_Nil k"
      by blast
    then show ?thesis
    proof cases
      case other
      then show ?thesis
        by (intro refusedI) (auto simp: sm_reveal_def cur ri_step_simps ri_finish_simps)
    next
      case some
      then show ?thesis
        using present len
        by (intro stepI [OF ri_step.revealed [of "cur sm" p]])
          (simp_all add: sm_reveal_def cur Let_def list_ex_iff)
    next
      case none
      let ?ri = "(cur sm)\<lparr>ri_RevealedKeys := ?keys, ri_Phase := DonePhase\<rparr>"
      have "next_round debug (put_round sm ?ri) = Inr (True, advance (put_round sm ?ri))"
        using assms by (intro next_round_eq) (auto simp: sm_basic_def)
      then show ?thesis
        using none present len
        by (intro finishI [OF ri_finish.all_revealed [of "cur sm" p]])
          (simp_all add: sm_reveal_def cur Let_def list_ex_iff)
    qed
  qed
qed

lemma abort_spec:
  assumes "sm_basic sm"
  shows "\<exists>res. sm_abort debug sm = Inr res \<and> op_result sm (AbortOp r) res"
proof (rule finishI [OF ri_finish.aborted])
  show "sm_abort debug sm = Inr (True, advance (put_round sm ((cur sm)\<lparr>ri_Phase := FailedPhase\<rparr>)))"
    using assms next_round_eq [of "put_round sm ((cur sm)\<lparr>ri_Phase := FailedPhase\<rparr>)" debug]
    by (simp add: sm_abort_def CurrentRoundInfo_cur [OF assms] sm_basic_def)
qed

lemmas handler_specs = join_spec start_spec message_spec encrypted_spec scrambled_spec
  decrypted_spec reveal_spec abort_spec

lemma Apply_op_spec: "sm_basic sm \<Longrightarrow> \<exists>res. Apply_op debug sm op = Inr res \<and> op_result sm op res"
  by (cases op) (simp_all only: Apply_op.simps handler_specs)

lemma Apply_nodebug:
  "Apply False sm op = (if Op_Round op \<noteq> sm_Round sm then Inr (False, sm) else Apply_op False sm op)"
  by (simp add: Apply_def go_bind_def split: sum.split)

lemma Apply_cases:
  assumes "sm_basic sm" and "Apply False sm op = Inr (updated, sm')"
  obtains (refused) "\<not> updated" and "sm' = sm"
  | (within) ri' where "updated" and "Op_Round op = sm_Round sm" and "ri_step (cur sm) op ri'"
      and "sm' = put_round sm ri'"
  | (finished) ri' where "updated" and "Op_Round op = sm_Round sm" and "ri_finish (cur sm) op ri'"
      and "sm' = advance (put_round sm ri')"
proof (cases "Op_Round op = sm_Round sm")
  case True
  with assms have "op_result sm op (updated, sm')"
    using Apply_op_spec [OF assms(1), of False op] by (auto simp: Apply_nodebug)
  with True show ?thesis
    using refused within finished by (auto simp: op_result_def)
next
  case False
  with assms(2) show ?thesis using refused by (simp add: Apply_nodebug)
qed

subsection \<open>Steps keep the lists aligned\<close>

lemma ri_step_lists_ok: "ri_step ri op ri' \<Longrightarrow> lists_ok ri \<Longrightarrow> lists_ok ri'"
proof (induction rule: ri_step.induct)
  case (scrambled ri pid r ms)
  then show ?case
    using left_to_right_set_next [of "ri_Scrambled ri"] by (simp add: lists_ok_def numScrambled_def)
qed (simp_all add: lists_ok_def left_to_right_append_False)

lemma ri_finish_lists_ok: "ri_finish ri op ri' \<Longrightarrow> lists_ok ri \<Longrightarrow> lists_ok ri'"
  by (induction rule: ri_finish.induct) (simp_all add: lists_ok_def)

lemma Apply_basic:
  assumes "sm_basic sm" and "Apply False sm op = Inr (updated, sm')"
  shows "sm_basic sm'"
  using assms
proof (cases rule: Apply_cases)
  case refused
  with assms show ?thesis by simp
next
  case (within ri')
  with assms show ?thesis
    using ri_step_lists_ok lists_ok_cur sm_basic_put_round by blast
next
  case (finished ri')
  with assms show ?thesis
    using ri_finish_lists_ok lists_ok_cur sm_basic_put_round sm_basic_advance by blast
qed

lemma Apply_total: "sm_basic sm \<Longrightarrow> \<exists>updated sm'. Apply False sm op = Inr (updated, sm')"
  using Apply_op_spec [of sm False op] by (auto simp: Apply_nodebug)

end
