(* ===== verification/Machine_Invariant.thy ===== *)
theory Machine_Invariant
  imports Round_Steps
begin

text \<open>
  The invariant of the state machine and the order of its states, for every sequence
  of operations, legal or not, that the log may hold.

  \<^item> \<open>sm_inv\<close> is the invariant: the lists of every round are aligned, a phase is
    entered only when every participant has finished the one before (\<open>barrier\<close>), an open
    phase waits for someone (\<open>unfinished\<close>), the current round is in a live phase, and the
    earlier rounds that are still kept have ended.
  \<^item> \<open>sm_le\<close> is the order that steps climb; \<open>machine\<close> interprets the contract of \<open>ordered_steps\<close>
    on \<open>Apply\<close>, the invariant and this order: no operation panics, the invariant is kept, and
    states only move forward.
\<close>

definition barrier :: "'c RoundInfo \<Rightarrow> bool" where
  "barrier ri \<longleftrightarrow>
     (ri_Phase ri \<in> {PreparePhase, SubmitPhase} \<longrightarrow> (\<forall>s \<in> set (ri_Encrypted ri). \<not> s)) \<and>
     (ri_Phase ri \<in> {PreparePhase, SubmitPhase, EncryptPhase} \<longrightarrow> (\<forall>s \<in> set (ri_Scrambled ri). \<not> s)) \<and>
     (ri_Phase ri \<in> {PreparePhase, SubmitPhase, EncryptPhase, ScramblePhase} \<longrightarrow> (\<forall>s \<in> set (ri_Decrypted ri). \<not> s)) \<and>
     (ri_Phase ri \<in> {PreparePhase, SubmitPhase, EncryptPhase, ScramblePhase, DecryptPhase} \<longrightarrow>
        (\<forall>k \<in> set (ri_RevealedKeys ri). PrivateKey_Nil k)) \<and>
     (ri_Phase ri \<in> {ScramblePhase, DecryptPhase, RevealPhase, DonePhase} \<longrightarrow> (\<forall>s \<in> set (ri_Encrypted ri). s)) \<and>
     (ri_Phase ri \<in> {DecryptPhase, RevealPhase, DonePhase} \<longrightarrow> (\<forall>s \<in> set (ri_Scrambled ri). s)) \<and>
     (ri_Phase ri \<in> {RevealPhase, DonePhase} \<longrightarrow> (\<forall>s \<in> set (ri_Decrypted ri). s)) \<and>
     (ri_Phase ri = DonePhase \<longrightarrow> (\<forall>k \<in> set (ri_RevealedKeys ri). \<not> PrivateKey_Nil k))"

definition unfinished :: "'c RoundInfo \<Rightarrow> bool" where
  "unfinished ri \<longleftrightarrow>
     (ri_Phase ri = PreparePhase \<longrightarrow> (\<forall>m \<in> set (ri_Messages ri). Msg_Nil m)) \<and>
     (ri_Phase ri = SubmitPhase \<longrightarrow> ri_Participants ri = [] \<or> (\<exists>m \<in> set (ri_Messages ri). Msg_Nil m)) \<and>
     (ri_Phase ri = EncryptPhase \<longrightarrow> numEncrypted ri < length (ri_Participants ri)) \<and>
     (ri_Phase ri = ScramblePhase \<longrightarrow> numScrambled ri < length (ri_Participants ri)) \<and>
     (ri_Phase ri = DecryptPhase \<longrightarrow> numDecrypted ri < length (ri_Participants ri)) \<and>
     (ri_Phase ri = RevealPhase \<longrightarrow> (\<exists>k \<in> set (ri_RevealedKeys ri). PrivateKey_Nil k))"

definition live :: "Phase \<Rightarrow> bool" where
  "live ph \<longleftrightarrow> ph \<in> {PreparePhase, SubmitPhase, EncryptPhase, ScramblePhase, DecryptPhase, RevealPhase}"

definition round_at :: "'c StateMachine \<Rightarrow> int \<Rightarrow> 'c RoundInfo" where
  "round_at sm r = sm_Rounds sm ! nat (r mod 3)"

definition kept :: "'c StateMachine \<Rightarrow> int \<Rightarrow> bool" where
  "kept sm r \<longleftrightarrow> 0 \<le> r \<and> sm_Round sm - 3 < r \<and> r < sm_Round sm"

definition history :: "'c StateMachine \<Rightarrow> bool" where
  "history sm \<longleftrightarrow> (\<forall>r. kept sm r \<longrightarrow> ri_Phase (round_at sm r) \<in> {DonePhase, FailedPhase})"

definition ri_inv :: "'c RoundInfo \<Rightarrow> bool" where
  "ri_inv ri \<longleftrightarrow> lists_ok ri \<and> barrier ri \<and> unfinished ri"

definition sm_inv :: "'c StateMachine \<Rightarrow> bool" where
  "sm_inv sm \<longleftrightarrow> sm_basic sm \<and> (\<forall>ri \<in> set (sm_Rounds sm). ri_inv ri) \<and> live (ri_Phase (cur sm)) \<and> history sm"

text \<open>The machine as a step function on states, for runs of operations.\<close>

definition sm_step :: "'c StateMachine \<Rightarrow> 'c Op \<Rightarrow> 'c StateMachine go" where
  "sm_step sm op = go_bind (Apply False sm op) (\<lambda>(updated, sm'). Inr sm')"

inductive sm_reachable :: "'c StateMachine \<Rightarrow> bool" where
  init: "NewStateMachine False None = Inr sm \<Longrightarrow> sm_reachable sm"
| step: "sm_reachable sm \<Longrightarrow> Apply False sm op = Inr (updated, sm') \<Longrightarrow> sm_reachable sm'"

text \<open>
  The order that runs climb: a later round, or the same round with no phase and
  no count going back, the participants fixed from the submit phase on, the hashes from the
  encrypt phase on, and the messages unchanged as long as the phase and the
  counts are.
\<close>

definition ri_le :: "'c RoundInfo \<Rightarrow> 'c RoundInfo \<Rightarrow> bool" where
  "ri_le ri ri' \<longleftrightarrow>
     phaseOrder (ri_Phase ri) \<le> phaseOrder (ri_Phase ri') \<and>
     numEncrypted ri \<le> numEncrypted ri' \<and> numScrambled ri \<le> numScrambled ri' \<and>
     numDecrypted ri \<le> numDecrypted ri' \<and>
     (1 \<le> phaseOrder (ri_Phase ri) \<longrightarrow>
        ri_Participants ri' = ri_Participants ri \<and> ri_Crypto ri' = ri_Crypto ri) \<and>
     (2 \<le> phaseOrder (ri_Phase ri) \<longrightarrow> ri_RevealKeyHashes ri' = ri_RevealKeyHashes ri) \<and>
     (2 \<le> phaseOrder (ri_Phase ri) \<and> phaseOrder (ri_Phase ri') = phaseOrder (ri_Phase ri) \<and>
      numEncrypted ri' = numEncrypted ri \<and> numScrambled ri' = numScrambled ri \<and>
      numDecrypted ri' = numDecrypted ri \<longrightarrow>
        ri_Messages ri' = ri_Messages ri \<and> ri_Encrypted ri' = ri_Encrypted ri \<and>
        ri_Scrambled ri' = ri_Scrambled ri \<and> ri_Decrypted ri' = ri_Decrypted ri)"

definition sm_le :: "'c StateMachine \<Rightarrow> 'c StateMachine \<Rightarrow> bool" where
  "sm_le sm sm' \<longleftrightarrow> sm_Round sm < sm_Round sm' \<or> (sm_Round sm = sm_Round sm' \<and> ri_le (cur sm) (cur sm'))"

definition sm_init :: "'c StateMachine" where
  "sm_init = \<lparr>sm_Round = 0,
     sm_Rounds = [zero_RoundInfo\<lparr>ri_Phase := PreparePhase\<rparr>, zero_RoundInfo, zero_RoundInfo]\<rparr>"

subsection \<open>One step of a round\<close>

lemma all_flags_set:
  "p < length ss \<Longrightarrow> \<not> ss ! p \<Longrightarrow> Suc (count_true ss) = length ss \<Longrightarrow> \<forall>s \<in> set (ss[p := True]). s"
  using count_true_full [of "ss[p := True]"] by (simp add: count_true_set)

lemma some_flag_unset:
  "p < length ss \<Longrightarrow> \<not> ss ! p \<Longrightarrow> Suc (count_true ss) \<noteq> length ss \<Longrightarrow> count_true (ss[p := True]) < length ss"
  using count_true_le [of "ss[p := True]"] by (simp add: count_true_set)

lemma scramble_turn:
  "lists_ok ri \<Longrightarrow> numScrambled ri < length (ri_Participants ri) \<Longrightarrow> \<not> ri_Scrambled ri ! numScrambled ri"
  using left_to_right_count [of "ri_Scrambled ri" "numScrambled ri"] by (simp add: lists_ok_def numScrambled_def)

lemmas ri_inv_defs = ri_inv_def barrier_def unfinished_def numEncrypted_def numScrambled_def numDecrypted_def

lemma ri_step_barrier:
  assumes "ri_step ri op ri'" and "lists_ok ri" and "barrier ri"
  shows "barrier ri'"
  using assms
proof (induction rule: ri_step.induct)
  case (encrypted ri p pid prev r ms)
  then have "p < length (ri_Encrypted ri)" by (simp add: lists_ok_def)
  with encrypted all_flags_set [of p "ri_Encrypted ri"] show ?case
    by (auto simp: barrier_def numEncrypted_def lists_ok_def)
next
  case (scrambled ri pid r ms)
  then have "numScrambled ri < length (ri_Scrambled ri)" by (simp add: lists_ok_def)
  with scrambled scramble_turn [of ri] all_flags_set [of "numScrambled ri" "ri_Scrambled ri"] show ?case
    by (auto simp: barrier_def numScrambled_def lists_ok_def)
next
  case (decrypted ri p pid prev r ms)
  then have "p < length (ri_Decrypted ri)" by (simp add: lists_ok_def)
  with decrypted all_flags_set [of p "ri_Decrypted ri"] show ?case
    by (auto simp: barrier_def numDecrypted_def lists_ok_def)
qed (auto simp: barrier_def)

lemma ri_step_unfinished:
  assumes "ri_step ri op ri'" and "lists_ok ri" and "barrier ri" and "unfinished ri"
  shows "unfinished ri'"
  using assms
proof (induction rule: ri_step.induct)
  case (start ri pid r crypto)
  then show ?case by (cases "ri_Messages ri") (auto simp: unfinished_def lists_ok_def)
next
  case (message ri p pid r m h)
  then show ?case by (auto simp: unfinished_def barrier_def numEncrypted_def count_true_none)
next
  case (encrypted ri p pid prev r ms)
  then have "p < length (ri_Encrypted ri)" by (simp add: lists_ok_def)
  with encrypted some_flag_unset [of p "ri_Encrypted ri"] show ?case
    by (auto simp: unfinished_def barrier_def numEncrypted_def numScrambled_def lists_ok_def count_true_none)
next
  case (scrambled ri pid r ms)
  then have "numScrambled ri < length (ri_Scrambled ri)" by (simp add: lists_ok_def)
  with scrambled scramble_turn [of ri] some_flag_unset [of "numScrambled ri" "ri_Scrambled ri"] show ?case
    by (auto simp: unfinished_def barrier_def numScrambled_def numDecrypted_def lists_ok_def count_true_none)
next
  case (decrypted ri p pid prev r ms)
  then have "p < length (ri_Decrypted ri)" by (simp add: lists_ok_def)
  with decrypted some_flag_unset [of p "ri_Decrypted ri"] show ?case
    by (cases "ri_RevealedKeys ri") (auto simp: unfinished_def barrier_def numDecrypted_def lists_ok_def)
qed (auto simp: unfinished_def)

lemma ri_step_inv: "ri_step ri op ri' \<Longrightarrow> ri_inv ri \<Longrightarrow> ri_inv ri'"
  by (simp add: ri_inv_def ri_step_lists_ok ri_step_barrier ri_step_unfinished)

lemma ri_finish_inv: "ri_finish ri op ri' \<Longrightarrow> ri_inv ri \<Longrightarrow> ri_inv ri'"
  by (induction rule: ri_finish.induct) (auto simp: ri_inv_def barrier_def unfinished_def lists_ok_def)

lemma ri_step_live: "ri_step ri op ri' \<Longrightarrow> live (ri_Phase ri')"
  by (induction rule: ri_step.induct) (auto simp: live_def)

lemma ri_finish_ended: "ri_finish ri op ri' \<Longrightarrow> ri_Phase ri' \<in> {DonePhase, FailedPhase}"
  by (induction rule: ri_finish.induct) auto

lemma ri_step_phase_mono: "ri_step ri op ri' \<Longrightarrow> phaseOrder (ri_Phase ri) \<le> phaseOrder (ri_Phase ri')"
  by (induction rule: ri_step.induct) auto

subsection \<open>The invariant of the machine\<close>

lemma kept_mod3: "kept sm r \<Longrightarrow> r mod 3 \<noteq> sm_Round sm mod 3"
  unfolding kept_def by presburger

lemma round_at_put_round: "sm_basic sm \<Longrightarrow> kept sm r \<Longrightarrow> round_at (put_round sm ri) r = round_at sm r"
  by (simp add: round_at_def put_round_basic nat_mod3_eq kept_mod3 [symmetric])

lemma round_at_put_round_cur: "sm_basic sm \<Longrightarrow> round_at (put_round sm ri) (sm_Round sm) = ri"
  by (simp add: round_at_def put_round_basic sm_basic_def)

lemma round_at_advance:
  assumes "sm_Round sm - 2 < r" and "r \<le> sm_Round sm"
  shows "round_at (advance sm) r = round_at sm r"
proof -
  have "r mod 3 \<noteq> (sm_Round sm + 1) mod 3" using assms by presburger
  then show ?thesis by (simp add: round_at_def advance_def nat_mod3_eq)
qed

lemma cur_advance: "length (sm_Rounds sm) = 3 \<Longrightarrow> cur (advance sm) = zero_RoundInfo\<lparr>ri_Phase := PreparePhase\<rparr>"
  by (simp add: cur_def advance_def)

lemma Round_advance [simp]: "sm_Round (advance sm) = sm_Round sm + 1"
  by (simp add: advance_def)

lemma fresh_inv: "ri_inv (zero_RoundInfo\<lparr>ri_Phase := PreparePhase\<rparr>)" and zero_inv: "ri_inv zero_RoundInfo"
  by (simp_all add: ri_inv_def barrier_def unfinished_def lists_ok_def zero_RoundInfo_def left_to_right_def)

lemma history_put_round: "sm_basic sm \<Longrightarrow> history sm \<Longrightarrow> history (put_round sm ri)"
  by (auto simp: history_def round_at_put_round kept_def)

lemma history_advance:
  assumes "sm_basic sm" and "history sm" and "ri_Phase ri \<in> {DonePhase, FailedPhase}"
  shows "history (advance (put_round sm ri))"
  unfolding history_def
proof (intro allI impI)
  fix r
  assume k: "kept (advance (put_round sm ri)) r"
  then have eq: "round_at (advance (put_round sm ri)) r = round_at (put_round sm ri) r"
    by (intro round_at_advance) (auto simp: kept_def)
  show "ri_Phase (round_at (advance (put_round sm ri)) r) \<in> {DonePhase, FailedPhase}"
  proof (cases "r = sm_Round sm")
    case True
    with eq assms show ?thesis by (simp add: round_at_put_round_cur)
  next
    case False
    with k have "kept sm r" by (simp add: kept_def)
    with eq assms show ?thesis by (auto simp: round_at_put_round history_def)
  qed
qed

lemma rounds_put_round:
  "sm_basic sm \<Longrightarrow> \<forall>ri \<in> set (sm_Rounds sm). P ri \<Longrightarrow> P ri' \<Longrightarrow> \<forall>ri \<in> set (sm_Rounds (put_round sm ri')). P ri"
  by (auto simp: put_round_basic dest!: subsetD [OF set_update_subset_insert])

lemma rounds_advance:
  "\<forall>ri \<in> set (sm_Rounds sm). P ri \<Longrightarrow> P (zero_RoundInfo\<lparr>ri_Phase := PreparePhase\<rparr>) \<Longrightarrow>
   \<forall>ri \<in> set (sm_Rounds (advance sm)). P ri"
  by (auto simp: advance_def dest!: subsetD [OF set_update_subset_insert])

lemma sm_inv_basic: "sm_inv sm \<Longrightarrow> sm_basic sm"
  by (simp add: sm_inv_def)

lemma sm_inv_cur: "sm_inv sm \<Longrightarrow> ri_inv (cur sm)"
  using cur_in [of sm] by (auto simp: sm_inv_def sm_basic_def)

lemma sm_inv_put_round:
  "sm_inv sm \<Longrightarrow> ri_inv ri \<Longrightarrow> live (ri_Phase ri) \<Longrightarrow> sm_inv (put_round sm ri)"
  by (auto simp: sm_inv_def history_put_round sm_basic_put_round ri_inv_def [of ri]
      dest: rounds_put_round [where P = ri_inv and ri' = ri])

lemma sm_inv_advance:
  assumes "sm_inv sm" and "ri_inv ri" and "ri_Phase ri \<in> {DonePhase, FailedPhase}"
  shows "sm_inv (advance (put_round sm ri))"
proof -
  have basic: "sm_basic (put_round sm ri)"
    using assms by (intro sm_basic_put_round) (auto simp: sm_inv_def ri_inv_def)
  have "\<forall>ri' \<in> set (sm_Rounds (put_round sm ri)). ri_inv ri'"
    using assms by (intro rounds_put_round) (auto simp: sm_inv_def)
  then have "\<forall>ri' \<in> set (sm_Rounds (advance (put_round sm ri))). ri_inv ri'"
    by (intro rounds_advance fresh_inv)
  moreover have "history (advance (put_round sm ri))"
    using assms by (intro history_advance) (auto simp: sm_inv_def)
  moreover have "live (ri_Phase (cur (advance (put_round sm ri))))"
    using basic by (simp add: cur_advance sm_basic_def live_def)
  ultimately show ?thesis using sm_basic_advance [OF basic] by (simp add: sm_inv_def)
qed

lemma Apply_inv:
  assumes "sm_inv sm" and "Apply False sm op = Inr (updated, sm')"
  shows "sm_inv sm'"
  using sm_inv_basic [OF assms(1)] assms(2)
proof (cases rule: Apply_cases)
  case refused
  with assms show ?thesis by simp
next
  case (within ri')
  with assms(1) show ?thesis
    by (auto intro: sm_inv_put_round ri_step_inv ri_step_live sm_inv_cur)
next
  case (finished ri')
  with assms(1) show ?thesis
    using ri_finish_inv [OF finished(3) sm_inv_cur [OF assms(1)]] ri_finish_ended [OF finished(3)]
    by (auto intro: sm_inv_advance)
qed

lemma NewStateMachine_init: "NewStateMachine debug None = Inr sm_init"
  by (simp add: NewStateMachine_def initRound_def sm_init_def NumRoundsPersisted_def numeral_3_eq_3 go_store_def)

lemma sm_init_inv: "sm_inv sm_init"
  using fresh_inv zero_inv
  by (auto simp: sm_inv_def sm_basic_def sm_init_def cur_def live_def history_def kept_def ri_inv_def)

lemma reachable_inv: "sm_reachable sm \<Longrightarrow> sm_inv sm"
  by (induction rule: sm_reachable.induct) (auto simp: NewStateMachine_init sm_init_inv intro: Apply_inv)

subsection \<open>The order of states\<close>

lemma ri_le_refl: "ri_le ri ri"
  by (simp add: ri_le_def)

lemma ri_le_trans: "ri_le a b \<Longrightarrow> ri_le b c \<Longrightarrow> ri_le a c"
  unfolding ri_le_def by (elim conjE) (intro conjI impI; simp)

lemma ri_step_le: "ri_step ri op ri' \<Longrightarrow> lists_ok ri \<Longrightarrow> ri_le ri ri'"
  by (induction rule: ri_step.induct)
    (auto simp: ri_le_def lists_ok_def numEncrypted_def numScrambled_def numDecrypted_def count_true_set
      left_to_right_count)

lemma sm_le_refl: "sm_le sm sm"
  by (simp add: sm_le_def ri_le_refl)

lemma sm_le_trans: "sm_le a b \<Longrightarrow> sm_le b c \<Longrightarrow> sm_le a c"
  by (auto simp: sm_le_def intro: ri_le_trans)

lemma Apply_le:
  assumes "sm_inv sm" and "Apply False sm op = Inr (updated, sm')"
  shows "sm_le sm sm'"
  using sm_inv_basic [OF assms(1)] assms(2)
proof (cases rule: Apply_cases)
  case (within ri')
  with sm_inv_basic [OF assms(1)] show ?thesis
    by (auto simp: sm_le_def intro: ri_step_le lists_ok_cur)
qed (simp_all add: sm_le_refl, simp add: sm_le_def)

interpretation machine: ordered_steps sm_step sm_inv sm_le
proof
  fix sm :: "'c StateMachine" and op
  assume inv: "sm_inv sm"
  from Apply_total [OF sm_inv_basic [OF inv], of op] Apply_inv [OF inv, of op]
  show "\<exists>sm'. sm_step sm op = Inr sm' \<and> sm_inv sm'" by (auto simp: sm_step_def)
next
  fix sm sm' :: "'c StateMachine" and op
  assume "sm_inv sm" and "sm_step sm op = Inr sm'"
  then show "sm_le sm sm'" by (auto simp: sm_step_def elim!: go_bindE intro: Apply_le)
qed (auto intro: sm_le_refl sm_le_trans)

end
