(* ===== verification/State_Machine_Props.thy ===== *)
theory State_Machine_Props
  imports Machine_Invariant
begin

text \<open>
  The correctness of \<open>anonbcast/statemachine.go\<close>, for every sequence of operations that the log
  may hold: totality, refinement of the abstract steps, the phase barriers, the soundness of
  \<open>GuaranteedNoEffect\<close>, the history of rounds, the order of \<open>MayPrecede\<close>, and the test-and-set
  of the encrypt and decrypt phases.

  \<open>past\<close> interprets \<open>ordered_steps\<close> a second time, with the order that keeps the
  finished rounds.
\<close>

definition history_le :: "'c StateMachine \<Rightarrow> 'c StateMachine \<Rightarrow> bool" where
  "history_le sm sm' \<longleftrightarrow> sm_Round sm \<le> sm_Round sm' \<and>
     (\<forall>r. r < sm_Round sm \<and> kept sm' r \<longrightarrow> round_at sm' r = round_at sm r)"

text \<open>A run of two participants, for the witnesses.\<close>

definition demo_crypto :: masseyOmuraCrypto where
  "demo_crypto = \<lparr>crypto_P = [1, 0, 1]\<rparr>"

definition demo_ops :: "masseyOmuraCrypto Op list" where
  "demo_ops = [JoinOp 1 0, JoinOp 2 0, StartOp 1 0 (Some demo_crypto),
     MessageOp 1 0 \<lparr>msg_M = [5]\<rparr> [9], MessageOp 2 0 \<lparr>msg_M = [6]\<rparr> [8]]"

definition demo_round :: "masseyOmuraCrypto RoundInfo" where
  "demo_round = \<lparr>ri_Phase = EncryptPhase, ri_Crypto = Some demo_crypto, ri_Participants = [1, 2],
     ri_Messages = [\<lparr>msg_M = [5]\<rparr>, \<lparr>msg_M = [6]\<rparr>], ri_Encrypted = [False, False], ri_Scrambled = [False, False],
     ri_Decrypted = [False, False], ri_RevealedKeys = [NilPrivateKey, NilPrivateKey],
     ri_RevealKeyHashes = [[9], [8]]\<rparr>"

definition demo_sm :: "masseyOmuraCrypto StateMachine" where
  "demo_sm = \<lparr>sm_Round = 0, sm_Rounds = [demo_round, zero_RoundInfo, zero_RoundInfo]\<rparr>"

lemma run_reachable: "sm_reachable sm \<Longrightarrow> go_run sm_step sm ops = Inr sm' \<Longrightarrow> sm_reachable sm'"
  by (induction ops arbitrary: sm) (auto simp: sm_step_def elim!: go_bindE intro: sm_reachable.step)

lemma init_reachable: "sm_reachable sm_init"
  by (rule sm_reachable.init) (rule NewStateMachine_init)

lemmas sm_eval = sm_step_def Apply_nodebug handler_defs CurrentRoundInfo_def GetRoundInfo_def
  NumRoundsPersisted_def put_round_def next_round_def initRound_def participantIndex_def
  numEncrypted_def numScrambled_def numDecrypted_def Let_def Msg_Nil_def NilMsg_def
  PrivateKey_Nil_def NilPrivateKey_def zero_RoundInfo_def

lemma demo_run: "go_run sm_step sm_init demo_ops = Inr demo_sm"
  by (simp add: sm_eval sm_init_def demo_ops_def demo_sm_def demo_round_def)

lemma demo_reachable: "sm_reachable demo_sm"
  by (rule run_reachable [OF init_reachable demo_run])

subsection \<open>Totality and refinement\<close>

text \<open>C11: the state machine never panics in production (assertions off): from the
  initial state, every sequence of operations, whoever made them, is applied to the end.\<close>

theorem Apply_runs_total:
  "\<exists>sm0 sm. NewStateMachine False None = Inr sm0 \<and> go_run sm_step sm0 ops = Inr sm"
  using machine.run_total [OF sm_init_inv] by (auto simp: NewStateMachine_init)

text \<open>C5: \<open>Apply\<close> implements the abstract protocol. In every reachable state an operation for another
  round is refused without a change, and one for the current round makes exactly the
  step that the relations \<open>ri_step\<close> (inside the round) or \<open>ri_finish\<close> (end of the round) allow,
  or is refused without a change because they allow none; the flag tells which.\<close>

theorem Apply_refines_steps:
  assumes "sm_reachable sm"
  shows "\<exists>updated sm'. Apply False sm op = Inr (updated, sm') \<and>
     (if Op_Round op = sm_Round sm then op_result sm op (updated, sm') else \<not> updated \<and> sm' = sm)"
  using Apply_op_spec [OF sm_inv_basic [OF reachable_inv [OF assms]], of False op]
  by (auto simp: Apply_nodebug)

theorem Apply_refines_steps_witness:
  "\<exists>updated sm'. Apply False demo_sm (JoinOp 3 0) = Inr (updated, sm') \<and>
     (if Op_Round (JoinOp 3 0 :: masseyOmuraCrypto Op) = sm_Round demo_sm
      then op_result demo_sm (JoinOp 3 0) (updated, sm') else \<not> updated \<and> sm' = demo_sm)"
  by (rule Apply_refines_steps [OF demo_reachable])

subsection \<open>Phase barriers\<close>

lemma GetRoundInfo_cases:
  assumes "GetRoundInfo sm r = Inr ri"
  obtains (current) "r = sm_Round sm" and "ri = cur sm"
  | (past) "kept sm r" and "ri = round_at sm r"
  using assms
  by (cases "r = sm_Round sm")
    (auto simp: GetRoundInfo_def NumRoundsPersisted_def cur_def kept_def round_at_def split: if_splits)

lemma GetRoundInfo_inv:
  assumes "sm_inv sm" and "GetRoundInfo sm r = Inr ri"
  shows "ri_inv ri \<and> ri_Phase ri \<noteq> NoPhase"
  using assms(2)
proof (cases rule: GetRoundInfo_cases)
  case current
  with assms(1) show ?thesis by (auto simp: sm_inv_cur sm_inv_def live_def)
next
  case past
  with assms(1) have "ri \<in> set (sm_Rounds sm)" by (simp add: round_at_def sm_inv_def sm_basic_def)
  with past assms(1) show ?thesis by (auto simp: sm_inv_def history_def)
qed

text \<open>C8: the phase barriers. In every round that can be read from a reachable state, nobody has
  scrambled before everyone has encrypted, nobody has decrypted before everyone
  has scrambled, no key is revealed before everyone has decrypted, a round is done only
  with every key revealed, and the flags have one entry per participant.\<close>

theorem phase_barriers:
  assumes "sm_reachable sm" and "GetRoundInfo sm r = Inr ri" and "ri_Phase ri \<noteq> FailedPhase"
  shows "(True \<in> set (ri_Scrambled ri) \<longrightarrow> False \<notin> set (ri_Encrypted ri)) \<and>
    (True \<in> set (ri_Decrypted ri) \<longrightarrow> False \<notin> set (ri_Scrambled ri)) \<and>
    ((\<exists>k \<in> set (ri_RevealedKeys ri). \<not> PrivateKey_Nil k) \<longrightarrow> False \<notin> set (ri_Decrypted ri)) \<and>
    (ri_Phase ri = DonePhase \<longrightarrow> (\<forall>k \<in> set (ri_RevealedKeys ri). \<not> PrivateKey_Nil k)) \<and>
    length (ri_Encrypted ri) = length (ri_Participants ri) \<and>
    length (ri_Scrambled ri) = length (ri_Participants ri) \<and>
    length (ri_Decrypted ri) = length (ri_Participants ri) \<and>
    length (ri_RevealedKeys ri) = length (ri_Participants ri)"
proof -
  have "lists_ok ri" and b: "barrier ri" and "ri_Phase ri \<noteq> NoPhase"
    using GetRoundInfo_inv [OF reachable_inv [OF assms(1)] assms(2)] by (simp_all add: ri_inv_def)
  moreover from b assms(3) have "True \<in> set (ri_Scrambled ri) \<longrightarrow> False \<notin> set (ri_Encrypted ri)"
    and "True \<in> set (ri_Decrypted ri) \<longrightarrow> False \<notin> set (ri_Scrambled ri)"
    and "(\<exists>k \<in> set (ri_RevealedKeys ri). \<not> PrivateKey_Nil k) \<longrightarrow> False \<notin> set (ri_Decrypted ri)"
    and "ri_Phase ri = DonePhase \<longrightarrow> (\<forall>k \<in> set (ri_RevealedKeys ri). \<not> PrivateKey_Nil k)"
    using calculation by (cases "ri_Phase ri"; auto simp: barrier_def)+
  ultimately show ?thesis by (simp add: lists_ok_def)
qed

lemma demo_current: "GetRoundInfo demo_sm 0 = Inr demo_round"
  by (simp add: GetRoundInfo_def NumRoundsPersisted_def demo_sm_def)

theorem phase_barriers_witness:
  "False \<in> set (ri_Encrypted demo_round) \<and> True \<notin> set (ri_Scrambled demo_round)"
  using phase_barriers [OF demo_reachable demo_current] by (auto simp: demo_round_def)

subsection \<open>Operations without effect\<close>

lemma noEffect_refused:
  assumes "noEffect_in ph (Op_Type op) = Some True" and "phaseOrder ph \<le> phaseOrder (ri_Phase ri)"
    and "live (ri_Phase ri)"
  shows "\<not> ri_step ri op ri'" and "\<not> ri_finish ri op ri'"
  using assms by (cases op; cases ph; auto simp: ri_step_simps ri_finish_simps live_def)+

lemma noEffect_Apply:
  assumes "sm_inv sm" and "Op_Round op = sm_Round sm"
    and "noEffect_in ph (Op_Type op) = Some True" and "phaseOrder ph \<le> phaseOrder (ri_Phase (cur sm))"
  shows "Apply False sm op = Inr (False, sm)"
proof -
  have "live (ri_Phase (cur sm))" using assms(1) by (simp add: sm_inv_def)
  with noEffect_refused [OF assms(3,4)] have "op_result sm op res \<Longrightarrow> res = (False, sm)" for res
    by (auto simp: op_result_def)
  with Apply_op_spec [OF sm_inv_basic [OF assms(1)], of False op] assms(2) show ?thesis
    by (auto simp: Apply_nodebug)
qed

lemma noEffect_forever:
  assumes "sm_reachable sm" and "GuaranteedNoEffect False sm op = Inr True"
    and "go_run sm_step sm ops = Inr sm'"
  shows "Apply False sm' op = Inr (False, sm')"
proof -
  have inv: "sm_inv sm" by (rule reachable_inv [OF assms(1)])
  have inv': "sm_inv sm'" by (rule machine.run_inv [OF inv assms(3)])
  have le: "sm_le sm sm'" by (rule machine.run_le [OF inv assms(3)])
  consider (old) "Op_Round op \<noteq> sm_Round sm'"
    | (same) "Op_Round op = sm_Round sm" and "sm_Round sm' = sm_Round sm"
    using le assms(2) by (fastforce simp: sm_le_def GuaranteedNoEffect_def split: if_splits)
  then show ?thesis
  proof cases
    case old
    then show ?thesis by (simp add: Apply_nodebug)
  next
    case same
    with assms(2) have "noEffect_in (ri_Phase (cur sm)) (Op_Type op) = Some True"
      by (auto simp: GuaranteedNoEffect_def CurrentRoundInfo_cur [OF sm_inv_basic [OF inv]] split: option.splits)
    moreover have "phaseOrder (ri_Phase (cur sm)) \<le> phaseOrder (ri_Phase (cur sm'))"
      using le same by (simp add: sm_le_def ri_le_def)
    ultimately show ?thesis using noEffect_Apply [OF inv'] same by simp
  qed
qed

text \<open>C4: \<open>GuaranteedNoEffect\<close> is sound for all futures. When it answers true for an operation in a
  reachable state, that operation is refused and changes nothing in that state and in
  every state that any further operations may lead to; so the client may drop it.\<close>

theorem GuaranteedNoEffect_sound:
  assumes "sm_reachable sm" and "GuaranteedNoEffect False sm op = Inr True"
    and "go_run sm_step sm ops = Inr sm'"
  shows "Apply False sm' op = Inr (False, sm')"
  by (rule noEffect_forever [OF assms])

theorem GuaranteedNoEffect_sound_witness:
  "GuaranteedNoEffect False demo_sm (JoinOp 3 0) = Inr True \<and>
   (\<exists>sm'. go_run sm_step demo_sm [AbortOp 0] = Inr sm' \<and> Apply False sm' (JoinOp 3 0) = Inr (False, sm'))"
proof -
  have no: "GuaranteedNoEffect False demo_sm (JoinOp 3 0) = Inr True"
    by (simp add: GuaranteedNoEffect_def sm_eval demo_sm_def demo_round_def)
  obtain sm' where "go_run sm_step demo_sm [AbortOp 0] = Inr sm'"
    using machine.run_total [OF reachable_inv [OF demo_reachable]] by blast
  with GuaranteedNoEffect_sound [OF demo_reachable no this] no show ?thesis by blast
qed

subsection \<open>The order of states and the history\<close>

text \<open>C13: states only move forward. After any operations on a reachable state, \<open>MayPrecede\<close> of the
  old and the new state answers true; this is what the client asserts between the
  states it is sent.\<close>

theorem runs_move_forward:
  assumes "sm_reachable sm" and "go_run sm_step sm ops = Inr sm'"
  shows "MayPrecede False sm sm' = Inr True"
proof -
  have inv: "sm_inv sm" by (rule reachable_inv [OF assms(1)])
  then have "sm_basic sm" and "sm_basic sm'"
    using machine.run_inv [OF inv assms(2)] by (simp_all add: sm_inv_basic)
  then show ?thesis
    using machine.run_le [OF inv assms(2)]
    by (auto simp: MayPrecede_def CurrentRoundInfo_cur sm_le_def ri_le_def)
qed

theorem runs_move_forward_witness:
  "\<exists>sm'. go_run sm_step demo_sm [AbortOp 0] = Inr sm' \<and> MayPrecede False demo_sm sm' = Inr True"
  using machine.run_total [OF reachable_inv [OF demo_reachable], of "[AbortOp 0]"]
    runs_move_forward [OF demo_reachable, of "[AbortOp 0]"] by blast

lemma history_le_trans: "history_le a b \<Longrightarrow> history_le b c \<Longrightarrow> history_le a c"
  by (auto simp: history_le_def kept_def)

lemma Apply_history_le:
  assumes "sm_inv sm" and "Apply False sm op = Inr (updated, sm')"
  shows "history_le sm sm'"
  using sm_inv_basic [OF assms(1)] assms(2)
proof (cases rule: Apply_cases)
  case (within ri')
  with sm_inv_basic [OF assms(1)] show ?thesis
    by (auto simp: history_le_def round_at_put_round kept_def)
next
  case (finished ri')
  have "round_at sm' r = round_at sm r" if "r < sm_Round sm" and "kept sm' r" for r
  proof -
    have "round_at sm' r = round_at (put_round sm ri') r"
      using that finished by (auto intro!: round_at_advance simp: kept_def)
    also have "\<dots> = round_at sm r"
      using that finished by (intro round_at_put_round sm_inv_basic assms(1)) (auto simp: kept_def)
    finally show ?thesis .
  qed
  with finished show ?thesis by (auto simp: history_le_def)
qed (simp add: history_le_def)

interpretation past: ordered_steps sm_step sm_inv history_le
proof
  fix sm sm' :: "'c StateMachine" and op
  assume "sm_inv sm" and "sm_step sm op = Inr sm'"
  then show "history_le sm sm'" by (auto simp: sm_step_def elim!: go_bindE intro: Apply_history_le)
qed (auto simp: history_le_def [of s s for s] intro: history_le_trans)

text \<open>C9: the history is immutable. A round earlier than the current one has ended, successfully or
  not, and as long as it is kept (the last three rounds are), no operations change what
  \<open>GetRoundInfo\<close> returns for it.\<close>

theorem past_rounds_immutable:
  assumes "sm_reachable sm" and "GetRoundInfo sm r = Inr ri" and "r < sm_Round sm"
    and "go_run sm_step sm ops = Inr sm'" and "GetRoundInfo sm' r = Inr ri'"
  shows "ri' = ri \<and> ri_Phase ri \<in> {DonePhase, FailedPhase}"
proof -
  have inv: "sm_inv sm" by (rule reachable_inv [OF assms(1)])
  have le: "history_le sm sm'" by (rule past.run_le [OF inv assms(4)])
  from assms(2,3) have ri: "kept sm r" "ri = round_at sm r" by (auto elim: GetRoundInfo_cases)
  from assms(5,3) le have "kept sm' r" "ri' = round_at sm' r"
    by (auto elim: GetRoundInfo_cases simp: history_le_def)
  with le ri assms(3) inv show ?thesis by (auto simp: history_le_def sm_inv_def history_def)
qed

definition demo_aborted :: "masseyOmuraCrypto StateMachine" where
  "demo_aborted = \<lparr>sm_Round = 1, sm_Rounds = [demo_round\<lparr>ri_Phase := FailedPhase\<rparr>,
     zero_RoundInfo\<lparr>ri_Phase := PreparePhase\<rparr>, zero_RoundInfo]\<rparr>"

lemma demo_abort: "Apply False demo_sm (AbortOp 0) = Inr (True, demo_aborted)"
  by (simp add: sm_eval demo_sm_def demo_aborted_def go_store_def signed_modulo_int_def)

lemma demo_aborted_reachable: "sm_reachable demo_aborted"
  by (rule sm_reachable.step [OF demo_reachable demo_abort])

theorem past_rounds_immutable_witness:
  "\<exists>sm'. go_run sm_step demo_aborted [JoinOp 1 1] = Inr sm' \<and>
     GetRoundInfo sm' 0 = Inr (demo_round\<lparr>ri_Phase := FailedPhase\<rparr>)"
proof -
  have ri: "GetRoundInfo demo_aborted 0 = Inr (demo_round\<lparr>ri_Phase := FailedPhase\<rparr>)"
    by (simp add: GetRoundInfo_def NumRoundsPersisted_def demo_aborted_def)
  have "\<exists>sm' ri'. go_run sm_step demo_aborted [JoinOp 1 1] = Inr sm' \<and> GetRoundInfo sm' 0 = Inr ri'"
    by (simp add: sm_eval demo_aborted_def)
  then obtain sm' ri' where run: "go_run sm_step demo_aborted [JoinOp 1 1] = Inr sm'"
    and ri': "GetRoundInfo sm' 0 = Inr ri'" by blast
  have "ri' = demo_round\<lparr>ri_Phase := FailedPhase\<rparr>"
    using past_rounds_immutable [OF demo_aborted_reachable ri _ run ri'] by (simp add: demo_aborted_def)
  with run ri' show ?thesis by blast
qed

subsection \<open>Test-and-set\<close>

lemma Apply_True:
  assumes "sm_inv sm" and "Apply False sm op = Inr (True, sm')" and "Op_Type op \<noteq> AbortOpType"
    and "Op_Type op \<noteq> RevealOpType"
  obtains ri' where "Op_Round op = sm_Round sm" and "ri_step (cur sm) op ri'" and "sm' = put_round sm ri'"
  using sm_inv_basic [OF assms(1)] assms(2)
proof (cases rule: Apply_cases)
  case (within ri')
  show ?thesis by (rule that [OF within(2-4)])
next
  case (finished ri')
  with assms(3,4) show ?thesis by (cases op) (auto simp: ri_finish_simps)
qed simp

lemma count_true_all: "\<forall>s \<in> set ss. s \<Longrightarrow> length ss = n \<Longrightarrow> count_true ss = n"
  using count_true_full by blast

lemma phase_counts:
  assumes "ri_inv ri"
  shows "ri_Phase ri = EncryptPhase \<Longrightarrow> numScrambled ri = 0 \<and> numDecrypted ri = 0"
    and "ri_Phase ri = ScramblePhase \<Longrightarrow> numEncrypted ri = length (ri_Participants ri) \<and> numDecrypted ri = 0"
    and "ri_Phase ri = DecryptPhase \<Longrightarrow>
      numEncrypted ri = length (ri_Participants ri) \<and> numScrambled ri = length (ri_Participants ri)"
  using assms
  by (simp_all add: ri_inv_def barrier_def lists_ok_def numEncrypted_def numScrambled_def numDecrypted_def)
    (auto intro: count_true_none count_true_all)

text \<open>The count that the \<open>Prev\<close> of an operation is compared with.\<close>

fun tested_count :: "'c RoundInfo \<Rightarrow> OpType \<Rightarrow> int" where
  "tested_count ri EncryptedOpType = int (numEncrypted ri)"
| "tested_count ri DecryptedOpType = int (numDecrypted ri)"
| "tested_count ri _ = 0"

definition tested :: "'c RoundInfo \<Rightarrow> 'c Op \<Rightarrow> bool" where
  "tested ri op \<longleftrightarrow> (Op_Type op = EncryptedOpType \<and> ri_Phase ri = EncryptPhase \<or>
     Op_Type op = DecryptedOpType \<and> ri_Phase ri = DecryptPhase) \<and> op_Prev op = tested_count ri (Op_Type op)"

lemma ri_step_tested:
  "ri_step ri op ri' \<Longrightarrow> Op_Type op \<in> {EncryptedOpType, DecryptedOpType} \<Longrightarrow> lists_ok ri \<Longrightarrow>
   tested ri op \<and> tested_count ri' (Op_Type op) = tested_count ri (Op_Type op) + 1"
  by (induction rule: ri_step.induct)
    (auto simp: tested_def numEncrypted_def numDecrypted_def count_true_set lists_ok_def)

lemma Apply_tested:
  assumes "sm_inv sm" and "Apply False sm op = Inr (True, sm')" and "Op_Type op \<in> {EncryptedOpType, DecryptedOpType}"
  shows "Op_Round op = sm_Round sm" and "sm_Round sm' = sm_Round sm" and "tested (cur sm) op"
    and "tested_count (cur sm') (Op_Type op) = tested_count (cur sm) (Op_Type op) + 1"
proof -
  obtain ri' where ri': "Op_Round op = sm_Round sm" "ri_step (cur sm) op ri'" "sm' = put_round sm ri'"
    using assms by (auto elim: Apply_True)
  with ri_step_tested [OF ri'(2) assms(3) lists_ok_cur [OF sm_inv_basic [OF assms(1)]]] sm_inv_basic [OF assms(1)]
  show "Op_Round op = sm_Round sm" and "sm_Round sm' = sm_Round sm" and "tested (cur sm) op"
    and "tested_count (cur sm') (Op_Type op) = tested_count (cur sm) (Op_Type op) + 1" by simp_all
qed

lemma ri_le_tested_count: "ri_le ri ri' \<Longrightarrow> tested_count ri t \<le> tested_count ri' t"
  by (cases t) (simp_all add: ri_le_def)

text \<open>C10: test-and-set. Once an \<open>EncryptedOp\<close> or \<open>DecryptedOp\<close> has been accepted, no operation of the same
  type and round with the same \<open>Prev\<close> is ever accepted again, from any participant,
  whatever operations come in between.\<close>

theorem test_and_set_once:
  assumes "sm_reachable sm" and "Apply False sm op = Inr (True, sm1)"
    and "Op_Type op \<in> {EncryptedOpType, DecryptedOpType}"
    and "go_run sm_step sm1 ops = Inr sm2"
    and "Op_Type op' = Op_Type op" and "Op_Round op' = Op_Round op" and "op_Prev op' = op_Prev op"
  shows "Apply False sm2 op' = Inr (False, sm2)"
proof -
  have inv: "sm_inv sm" by (rule reachable_inv [OF assms(1)])
  note first = Apply_tested [OF inv assms(2,3)]
  have inv1: "sm_inv sm1" by (rule Apply_inv [OF inv assms(2)])
  have inv2: "sm_inv sm2" by (rule machine.run_inv [OF inv1 assms(4)])
  have le: "sm_le sm1 sm2" by (rule machine.run_le [OF inv1 assms(4)])
  obtain updated sm' where second: "Apply False sm2 op' = Inr (updated, sm')"
    using Apply_total [OF sm_inv_basic [OF inv2]] by blast
  have "\<not> updated"
  proof
    assume updated
    then have *: "Op_Round op' = sm_Round sm2" "tested (cur sm2) op'"
      using Apply_tested [OF inv2, of op' sm'] second assms(3,5) by auto
    with le first assms(6) have "ri_le (cur sm1) (cur sm2)" by (simp add: sm_le_def)
    from ri_le_tested_count [OF this, of "Op_Type op"] first * assms(5,7) show False
      by (simp add: tested_def)
  qed
  with second sm_inv_basic [OF inv2] show ?thesis by (auto elim: Apply_cases)
qed

definition demo_encrypt1 :: "masseyOmuraCrypto Op" where
  "demo_encrypt1 = EncryptedOp 1 0 [\<lparr>msg_M = [7]\<rparr>, \<lparr>msg_M = [8]\<rparr>] 0"

definition demo_encrypted1 :: "masseyOmuraCrypto StateMachine" where
  "demo_encrypted1 = put_round demo_sm (demo_round\<lparr>
     ri_Messages := [\<lparr>msg_M = [7]\<rparr>, \<lparr>msg_M = [8]\<rparr>], ri_Encrypted := [True, False]\<rparr>)"

lemma demo_encrypt: "Apply False demo_sm demo_encrypt1 = Inr (True, demo_encrypted1)"
  by (simp add: sm_eval demo_sm_def demo_round_def demo_encrypt1_def demo_encrypted1_def)

theorem test_and_set_once_witness:
  "Apply False demo_sm demo_encrypt1 = Inr (True, demo_encrypted1) \<and>
   Apply False demo_encrypted1 (EncryptedOp 2 0 [] 0) = Inr (False, demo_encrypted1)"
  using test_and_set_once [OF demo_reachable demo_encrypt, of "[]" demo_encrypted1 "EncryptedOp 2 0 [] 0"]
    demo_encrypt by (simp add: demo_encrypt1_def)

text \<open>
  An operation that a participant computes from the messages of a round it has read: one that
  carries the count it saw, or a scramble by the participant whose turn it was.
\<close>

definition computed_from :: "'c RoundInfo \<Rightarrow> 'c Op \<Rightarrow> bool" where
  "computed_from ri op \<longleftrightarrow>
     (case op of
        EncryptedOp pid r ms prev \<Rightarrow> ri_Phase ri = EncryptPhase \<and> prev = int (numEncrypted ri)
      | ScrambledOp pid r ms \<Rightarrow> ri_Phase ri = ScramblePhase \<and> participantIndex ri pid = Some (numScrambled ri)
      | DecryptedOp pid r ms prev \<Rightarrow> ri_Phase ri = DecryptPhase \<and> prev = int (numDecrypted ri)
      | _ \<Rightarrow> False)"

definition same_flags :: "'c RoundInfo \<Rightarrow> 'c RoundInfo \<Rightarrow> bool" where
  "same_flags ri ri' \<longleftrightarrow> ri_Phase ri' = ri_Phase ri \<and> ri_Participants ri' = ri_Participants ri \<and>
     ri_Messages ri' = ri_Messages ri \<and> ri_Encrypted ri' = ri_Encrypted ri \<and>
     ri_Scrambled ri' = ri_Scrambled ri \<and> ri_Decrypted ri' = ri_Decrypted ri \<and> ri_Crypto ri' = ri_Crypto ri"

lemma accepted_unchanged:
  assumes "ri_inv ri" and "ri_inv ri1" and "ri_le ri ri1" and "computed_from ri op" and "ri_step ri1 op ri2"
  shows "same_flags ri ri1"
proof -
  have phase: "2 \<le> phaseOrder (ri_Phase ri)" using assms(4) by (cases op) (auto simp: computed_from_def)
  then have parts: "ri_Participants ri1 = ri_Participants ri" and crypto: "ri_Crypto ri1 = ri_Crypto ri"
    using assms(3) by (simp_all add: ri_le_def)
  have ok: "lists_ok ri" using assms(1) by (simp add: ri_inv_def)
  have same: "ri_Phase ri1 = ri_Phase ri \<and> numEncrypted ri1 = numEncrypted ri \<and>
    numScrambled ri1 = numScrambled ri \<and> numDecrypted ri1 = numDecrypted ri"
  proof (cases op)
    case (EncryptedOp pid r ms prev)
    with assms(4,5) phase_counts(1) [OF assms(1)] phase_counts(1) [OF assms(2)] show ?thesis
      by (auto simp: computed_from_def ri_step_simps)
  next
    case (ScrambledOp pid r ms)
    with assms(4,5) phase_counts(2) [OF assms(1)] phase_counts(2) [OF assms(2)] parts ok show ?thesis
      by (auto simp: computed_from_def ri_step_simps participantIndex_Some lists_ok_def nth_eq_iff_index_eq)
  next
    case (DecryptedOp pid r ms prev)
    with assms(4,5) phase_counts(3) [OF assms(1)] phase_counts(3) [OF assms(2)] parts show ?thesis
      by (auto simp: computed_from_def ri_step_simps)
  qed (use assms(4) in \<open>simp_all add: computed_from_def\<close>)
  with assms(3) phase parts crypto show ?thesis by (simp add: ri_le_def same_flags_def)
qed

text \<open>C3: no lost update. A participant reads a reachable state and computes from its messages an
  encryption or decryption that carries the count it saw, or a scramble because it saw that
  its turn has come. If the operation is accepted later, in whatever state the log has
  led to, the messages of that state are still the ones it was computed from.\<close>

theorem no_lost_update:
  assumes "sm_reachable sm" and "computed_from (cur sm) op" and "Op_Round op = sm_Round sm"
    and "go_run sm_step sm ops = Inr sm1" and "Apply False sm1 op = Inr (True, sm2)"
  shows "ri_Messages (cur sm1) = ri_Messages (cur sm) \<and> ri_Participants (cur sm1) = ri_Participants (cur sm) \<and>
         ri_Encrypted (cur sm1) = ri_Encrypted (cur sm) \<and> ri_Scrambled (cur sm1) = ri_Scrambled (cur sm) \<and>
         ri_Decrypted (cur sm1) = ri_Decrypted (cur sm)"
proof -
  have inv: "sm_inv sm" by (rule reachable_inv [OF assms(1)])
  have inv1: "sm_inv sm1" by (rule machine.run_inv [OF inv assms(4)])
  have "Op_Type op \<noteq> AbortOpType" and "Op_Type op \<noteq> RevealOpType"
    using assms(2) by (cases op; simp add: computed_from_def)+
  then obtain ri2 where step: "Op_Round op = sm_Round sm1" "ri_step (cur sm1) op ri2"
    using Apply_True [OF inv1 assms(5)] by blast
  have "ri_le (cur sm) (cur sm1)"
    using machine.run_le [OF inv assms(4)] step(1) assms(3) by (simp add: sm_le_def)
  from accepted_unchanged [OF sm_inv_cur [OF inv] sm_inv_cur [OF inv1] this assms(2) step(2)]
  show ?thesis by (simp add: same_flags_def)
qed

theorem no_lost_update_witness:
  "\<exists>sm1. go_run sm_step demo_sm [JoinOp 3 0] = Inr sm1 \<and> Apply False sm1 demo_encrypt1 = Inr (True, demo_encrypted1) \<and>
     ri_Messages (cur sm1) = [\<lparr>msg_M = [5]\<rparr>, \<lparr>msg_M = [6]\<rparr>]"
proof -
  have run: "go_run sm_step demo_sm [JoinOp 3 0] = Inr demo_sm"
    by (simp add: sm_eval demo_sm_def demo_round_def)
  have cur: "cur demo_sm = demo_round" by (simp add: cur_def demo_sm_def)
  show ?thesis
    using no_lost_update [OF demo_reachable _ _ run demo_encrypt] demo_encrypt run
    by (simp add: cur) (simp add: computed_from_def demo_encrypt1_def demo_sm_def demo_round_def numEncrypted_def)
qed

end
