(* ===== verification/Machine_Progress.thy ===== *)
theory Machine_Progress
  imports State_Machine_Props
begin

text \<open>
  Progress, copies and the representation checks of \<open>anonbcast/statemachine.go\<close>.

  \<^item> \<open>ri_todo\<close> measures what a round still waits for; in every reachable state with a
    participant, some operation of a participant makes it smaller, so the round can be completed.
  \<^item> \<open>checked\<close> interprets \<open>total_steps\<close> on the machine with the assertions switched on, driven by
    legal operations: no assertion of \<open>checkRep\<close> is ever violated.
  \<^item> The copies: when \<open>DeepCopy\<close> is the identity, and when it panics.
\<close>

definition ri_todo :: "'c RoundInfo \<Rightarrow> nat" where
  "ri_todo ri =
     (let n = length (ri_Participants ri)
      in (5 - phaseOrder (ri_Phase ri)) * Suc n +
         (case ri_Phase ri of
            SubmitPhase \<Rightarrow> length (filter Msg_Nil (ri_Messages ri))
          | EncryptPhase \<Rightarrow> n - numEncrypted ri
          | ScramblePhase \<Rightarrow> n - numScrambled ri
          | DecryptPhase \<Rightarrow> n - numDecrypted ri
          | RevealPhase \<Rightarrow> length (filter PrivateKey_Nil (ri_RevealedKeys ri))
          | _ \<Rightarrow> 0))"

text \<open>
  Legal operations: a start with a crypto value, a message with a hash, and as many
  non-nil messages as there are participants. These are the operations the client builds.
\<close>

fun legal :: "'c RoundInfo \<Rightarrow> 'c Op \<Rightarrow> bool" where
  "legal ri (StartOp pid r crypto) \<longleftrightarrow> crypto \<noteq> None"
| "legal ri (MessageOp pid r m h) \<longleftrightarrow> \<not> Msg_Nil m \<and> h \<noteq> []"
| "legal ri (EncryptedOp pid r ms prev) \<longleftrightarrow> length ms = length (ri_Participants ri) \<and> list_all (\<lambda>m. \<not> Msg_Nil m) ms"
| "legal ri (ScrambledOp pid r ms) \<longleftrightarrow> length ms = length (ri_Participants ri) \<and> list_all (\<lambda>m. \<not> Msg_Nil m) ms"
| "legal ri (DecryptedOp pid r ms prev) \<longleftrightarrow> length ms = length (ri_Participants ri) \<and> list_all (\<lambda>m. \<not> Msg_Nil m) ms"
| "legal ri op \<longleftrightarrow> True"

text \<open>The machine with its assertions switched on, as a client that submits only legal operations drives it.\<close>

definition checked_step :: "'c StateMachine \<Rightarrow> 'c Op \<Rightarrow> 'c StateMachine go" where
  "checked_step sm op =
     (if legal (cur sm) op then go_bind (Apply True sm op) (\<lambda>(updated, sm'). Inr sm') else Inr sm)"

subsection \<open>Progress\<close>

lemma length_filter_update:
  assumes "p < length xs" and "P (xs ! p)" and "\<not> P v"
  shows "length (filter P (xs[p := v])) < length (filter P xs)"
proof -
  have "filter P xs = filter P (take p xs) @ xs ! p # filter P (drop (Suc p) xs)"
    using assms by (subst id_take_nth_drop [OF assms(1)]) simp
  moreover have "filter P (xs[p := v]) = filter P (take p xs) @ filter P (drop (Suc p) xs)"
    using assms by (simp add: upd_conv_take_nth_drop)
  ultimately show ?thesis by simp
qed

definition progress_op :: "'c RoundInfo \<Rightarrow> int \<Rightarrow> 'c Op \<Rightarrow> bool" where
  "progress_op ri r op \<longleftrightarrow> Op_Round op = r \<and> Op_Type op \<noteq> AbortOpType \<and> op_Id op \<in> set (ri_Participants ri)"

definition makes_progress :: "'c RoundInfo \<Rightarrow> int \<Rightarrow> bool" where
  "makes_progress ri r \<longleftrightarrow> (\<exists>op ri'. progress_op ri r op \<and>
     (ri_step ri op ri' \<and> ri_todo ri' < ri_todo ri \<and> ri_Participants ri' = ri_Participants ri \<or>
      ri_finish ri op ri' \<and> ri_Phase ri' = DonePhase))"

lemma progress_step:
  "ri_step ri op ri' \<Longrightarrow> progress_op ri r op \<Longrightarrow> ri_todo ri' < ri_todo ri \<Longrightarrow>
   ri_Participants ri' = ri_Participants ri \<Longrightarrow> makes_progress ri r"
  by (auto simp: makes_progress_def)

lemma progress_finish: "ri_finish ri op ri' \<Longrightarrow> progress_op ri r op \<Longrightarrow> ri_Phase ri' = DonePhase \<Longrightarrow> makes_progress ri r"
  by (auto simp: makes_progress_def)

lemma progress_start:
  assumes "ri_inv ri" and "ri_Phase ri = PreparePhase" and "ri_Participants ri \<noteq> []"
  shows "makes_progress ri r"
proof (rule progress_step [OF ri_step.start [OF assms(2)]])
  show "progress_op ri r (StartOp (hd (ri_Participants ri)) r None)"
    using assms(3) by (simp add: progress_op_def)
  have "length (filter Msg_Nil (ri_Messages ri)) \<le> length (ri_Participants ri)"
    using assms(1,2) length_filter_le [of Msg_Nil "ri_Messages ri"] by (simp add: ri_inv_def lists_ok_def)
  with assms(2) show "ri_todo (ri\<lparr>ri_Phase := SubmitPhase, ri_Crypto := None\<rparr>) < ri_todo ri"
    by (simp add: ri_todo_def Let_def)
qed simp

lemma progress_message:
  assumes "ri_inv ri" and "ri_Phase ri = SubmitPhase" and "ri_Participants ri \<noteq> []"
  shows "makes_progress ri r"
proof -
  let ?m = "\<lparr>msg_M = [1]\<rparr>"
  have len: "length (ri_Messages ri) = length (ri_Participants ri)"
    using assms(1,2) by (simp add: ri_inv_def lists_ok_def)
  obtain p where p: "p < length (ri_Participants ri)" "Msg_Nil (ri_Messages ri ! p)"
    using assms len by (auto simp: ri_inv_def unfinished_def in_set_conv_nth)
  have less: "length (filter Msg_Nil ((ri_Messages ri)[p := ?m])) < length (filter Msg_Nil (ri_Messages ri))"
    by (rule length_filter_update) (use p len in \<open>simp_all add: Msg_Nil_def\<close>)
  show ?thesis
  proof (rule progress_step [OF ri_step.message [OF assms(2) p(1) refl, where m = ?m and h = "[1]"]])
    show "progress_op ri r (MessageOp (ri_Participants ri ! p) r ?m [1])"
      using p by (simp add: progress_op_def)
  qed (use less assms(2) in \<open>auto simp: ri_todo_def Let_def numEncrypted_def\<close>)
qed

lemma unset_flag:
  assumes "count_true ss < length ss"
  obtains p where "p < length ss" and "\<not> ss ! p"
  using assms count_true_full [of ss] by (metis in_set_conv_nth order_less_irrefl)

lemma progress_encrypted:
  assumes "ri_inv ri" and "ri_Phase ri = EncryptPhase"
  shows "makes_progress ri r"
proof -
  have len: "length (ri_Encrypted ri) = length (ri_Participants ri)"
    and lt: "numEncrypted ri < length (ri_Participants ri)"
    using assms by (simp_all add: ri_inv_def lists_ok_def unfinished_def)
  obtain p where p: "p < length (ri_Participants ri)" "\<not> ri_Encrypted ri ! p"
    using lt len unset_flag [of "ri_Encrypted ri"] by (metis numEncrypted_def)
  show ?thesis
  proof (rule progress_step [OF ri_step.encrypted [OF assms(2) p(1) refl p(2) refl, where ms = "[]"]])
    show "progress_op ri r (EncryptedOp (ri_Participants ri ! p) r [] (int (numEncrypted ri)))"
      using p by (simp add: progress_op_def)
  qed (use lt p len assms(2) in \<open>auto simp: ri_todo_def Let_def numEncrypted_def numScrambled_def count_true_set\<close>)
qed

lemma progress_scrambled:
  assumes "ri_inv ri" and "ri_Phase ri = ScramblePhase"
  shows "makes_progress ri r"
proof -
  have len: "length (ri_Scrambled ri) = length (ri_Participants ri)"
    and lt: "numScrambled ri < length (ri_Participants ri)"
    and ltr: "left_to_right (ri_Scrambled ri)"
    using assms by (simp_all add: ri_inv_def lists_ok_def unfinished_def)
  have "\<not> ri_Scrambled ri ! numScrambled ri"
    using left_to_right_count [OF ltr] lt len by (simp add: numScrambled_def)
  then have count: "count_true ((ri_Scrambled ri)[numScrambled ri := True]) = Suc (numScrambled ri)"
    using lt len by (simp add: count_true_set numScrambled_def)
  show ?thesis
  proof (rule progress_step [OF ri_step.scrambled [OF assms(2) lt refl, where ms = "[]"]])
    show "progress_op ri r (ScrambledOp (ri_Participants ri ! numScrambled ri) r [])"
      using lt by (simp add: progress_op_def)
  qed (use lt count assms(2) in \<open>auto simp: ri_todo_def Let_def numScrambled_def [of "ri_Scrambled_update f x" for f x]
        numScrambled_def [of "ri_Phase_update f x" for f x]  numDecrypted_def\<close>)
qed

lemma progress_decrypted:
  assumes "ri_inv ri" and "ri_Phase ri = DecryptPhase"
  shows "makes_progress ri r"
proof -
  have len: "length (ri_Decrypted ri) = length (ri_Participants ri)"
    and lt: "numDecrypted ri < length (ri_Participants ri)"
    and keys: "length (ri_RevealedKeys ri) = length (ri_Participants ri)"
    using assms by (simp_all add: ri_inv_def lists_ok_def unfinished_def)
  obtain p where p: "p < length (ri_Participants ri)" "\<not> ri_Decrypted ri ! p"
    using lt len unset_flag [of "ri_Decrypted ri"] by (metis numDecrypted_def)
  have nils: "length (filter PrivateKey_Nil (ri_RevealedKeys ri)) \<le> length (ri_Participants ri)"
    using keys by (metis length_filter_le)
  show ?thesis
  proof (rule progress_step [OF ri_step.decrypted [OF assms(2) p(1) refl p(2) refl, where ms = "[]"]])
    show "progress_op ri r (DecryptedOp (ri_Participants ri ! p) r [] (int (numDecrypted ri)))"
      using p by (simp add: progress_op_def)
  qed (use lt p len nils assms(2) in \<open>auto simp: ri_todo_def Let_def numDecrypted_def count_true_set\<close>)
qed

lemma progress_revealed:
  assumes "ri_inv ri" and "ri_Phase ri = RevealPhase"
  shows "makes_progress ri r"
proof -
  let ?k = "\<lparr>pk_E = [1], pk_D = [1]\<rparr>"
  have len: "length (ri_RevealedKeys ri) = length (ri_Participants ri)"
    using assms(1) by (simp add: ri_inv_def lists_ok_def)
  obtain p where p: "p < length (ri_Participants ri)" "PrivateKey_Nil (ri_RevealedKeys ri ! p)"
    using assms len by (auto simp: ri_inv_def unfinished_def in_set_conv_nth)
  have op: "progress_op ri r (RevealOp (ri_Participants ri ! p) r ?k)"
    using p by (simp add: progress_op_def)
  show ?thesis
  proof (cases "\<exists>k \<in> set ((ri_RevealedKeys ri)[p := ?k]). PrivateKey_Nil k")
    case True
    have "length (filter PrivateKey_Nil ((ri_RevealedKeys ri)[p := ?k])) < length (filter PrivateKey_Nil (ri_RevealedKeys ri))"
      by (rule length_filter_update) (use p len in \<open>simp_all add: PrivateKey_Nil_def\<close>)
    with assms(2) show ?thesis
      by (intro progress_step [OF ri_step.revealed [OF assms(2) p(1) refl True] op]) (simp_all add: ri_todo_def Let_def)
  next
    case False
    then show ?thesis
      by (intro progress_finish [OF ri_finish.all_revealed [OF assms(2) p(1) refl] op]) auto
  qed
qed

lemma ri_progress:
  assumes "ri_inv ri" and "live (ri_Phase ri)" and "ri_Participants ri \<noteq> []"
  shows "makes_progress ri r"
  using assms progress_start progress_message progress_encrypted progress_scrambled progress_decrypted
    progress_revealed by (auto simp: live_def)

lemma ri_step_det: "ri_step ri op a \<Longrightarrow> ri_step ri op b \<Longrightarrow> lists_ok ri \<Longrightarrow> a = b"
  by (induction rule: ri_step.induct)
    (auto simp: ri_step_simps lists_ok_def nth_eq_iff_index_eq)

lemma ri_finish_det: "ri_finish ri op a \<Longrightarrow> ri_finish ri op b \<Longrightarrow> lists_ok ri \<Longrightarrow> a = b"
  by (induction rule: ri_finish.induct)
    (auto simp: ri_finish_simps lists_ok_def nth_eq_iff_index_eq)

lemma ri_step_finish: "ri_step ri op a \<Longrightarrow> ri_finish ri op b \<Longrightarrow> lists_ok ri \<Longrightarrow> False"
  by (induction rule: ri_step.induct)
    (auto simp: ri_finish_simps lists_ok_def nth_eq_iff_index_eq)

lemma sm_step_within:
  assumes "sm_inv sm" and "Op_Round op = sm_Round sm" and "ri_step (cur sm) op ri'"
  shows "sm_step sm op = Inr (put_round sm ri')"
proof -
  have ok: "lists_ok (cur sm)" by (rule lists_ok_cur [OF sm_inv_basic [OF assms(1)]])
  obtain res where res: "Apply_op False sm op = Inr res" "op_result sm op res"
    using Apply_op_spec [OF sm_inv_basic [OF assms(1)]] by blast
  have det: "a = ri'" if "ri_step (cur sm) op a" for a
    by (rule ri_step_det [OF that assms(3) ok])
  have "\<not> ri_finish (cur sm) op a" for a
    using ri_step_finish [OF assms(3) _ ok] by blast
  with res(2) assms(3) have "res = (True, put_round sm ri')"
    by (auto simp: op_result_def dest: det)
  with res assms(2) show ?thesis by (simp add: sm_step_def Apply_nodebug)
qed

lemma sm_step_finished:
  assumes "sm_inv sm" and "Op_Round op = sm_Round sm" and "ri_finish (cur sm) op ri'"
  shows "sm_step sm op = Inr (advance (put_round sm ri'))"
proof -
  have ok: "lists_ok (cur sm)" by (rule lists_ok_cur [OF sm_inv_basic [OF assms(1)]])
  obtain res where res: "Apply_op False sm op = Inr res" "op_result sm op res"
    using Apply_op_spec [OF sm_inv_basic [OF assms(1)]] by blast
  have det: "a = ri'" if "ri_finish (cur sm) op a" for a
    by (rule ri_finish_det [OF that assms(3) ok])
  have "\<not> ri_step (cur sm) op a" for a
    using ri_step_finish [OF _ assms(3) ok] by blast
  with res(2) assms(3) have "res = (True, advance (put_round sm ri'))"
    by (auto simp: op_result_def dest: det)
  with res assms(2) show ?thesis by (simp add: sm_step_def Apply_nodebug)
qed

definition completes :: "'c StateMachine \<Rightarrow> 'c Op list \<Rightarrow> bool" where
  "completes sm ops \<longleftrightarrow> (\<forall>op \<in> set ops. progress_op (cur sm) (sm_Round sm) op) \<and>
     (\<exists>sm' ri. go_run sm_step sm ops = Inr sm' \<and> sm_Round sm' = sm_Round sm + 1 \<and>
        GetRoundInfo sm' (sm_Round sm) = Inr ri \<and> ri_Phase ri = DonePhase)"

lemma completes_last:
  assumes "sm_inv sm" and "progress_op (cur sm) (sm_Round sm) op" and "ri_finish (cur sm) op ri'"
    and "ri_Phase ri' = DonePhase"
  shows "completes sm [op]"
proof -
  have b: "sm_basic sm" by (rule sm_inv_basic [OF assms(1)])
  have "sm_step sm op = Inr (advance (put_round sm ri'))"
    using assms by (intro sm_step_finished) (simp_all add: progress_op_def)
  moreover have "GetRoundInfo (advance (put_round sm ri')) (sm_Round sm) = Inr ri'"
  proof -
    have "round_at (advance (put_round sm ri')) (sm_Round sm) = ri'"
      by (subst round_at_advance) (simp_all add: round_at_put_round_cur [OF b])
    then show ?thesis using b by (simp add: GetRoundInfo_def round_at_def NumRoundsPersisted_def sm_basic_def)
  qed
  ultimately show ?thesis using assms(2,4) by (simp add: completes_def)
qed

lemma completes_Cons:
  assumes "sm_inv sm" and "progress_op (cur sm) (sm_Round sm) op" and "ri_step (cur sm) op ri'"
    and "ri_Participants ri' = ri_Participants (cur sm)" and "completes (put_round sm ri') ops"
  shows "completes sm (op # ops)"
proof -
  have "sm_step sm op = Inr (put_round sm ri')"
    using assms by (intro sm_step_within) (simp_all add: progress_op_def)
  with assms sm_inv_basic [OF assms(1)] show ?thesis by (simp add: completes_def progress_op_def)
qed

lemma exists_completion: "sm_inv sm \<Longrightarrow> ri_Participants (cur sm) \<noteq> [] \<Longrightarrow> \<exists>ops. completes sm ops"
proof (induction "ri_todo (cur sm)" arbitrary: sm rule: less_induct)
  case less
  have b: "sm_basic sm" by (rule sm_inv_basic [OF less.prems(1)])
  have "makes_progress (cur sm) (sm_Round sm)"
    using less.prems by (intro ri_progress sm_inv_cur) (auto simp: sm_inv_def)
  then obtain op ri' where op: "progress_op (cur sm) (sm_Round sm) op" and
    "ri_step (cur sm) op ri' \<and> ri_todo ri' < ri_todo (cur sm) \<and> ri_Participants ri' = ri_Participants (cur sm) \<or>
     ri_finish (cur sm) op ri' \<and> ri_Phase ri' = DonePhase"
    by (auto simp: makes_progress_def)
  then consider (within) "ri_step (cur sm) op ri'" "ri_todo ri' < ri_todo (cur sm)"
      "ri_Participants ri' = ri_Participants (cur sm)"
    | (last) "ri_finish (cur sm) op ri'" "ri_Phase ri' = DonePhase" by blast
  then show ?case
  proof cases
    case within
    have "sm_inv (put_round sm ri')"
      using less.prems(1) within(1)
      by (intro sm_inv_put_round ri_step_inv [OF within(1)] ri_step_live [OF within(1)] sm_inv_cur) (auto simp: sm_inv_def)
    then obtain ops where "completes (put_round sm ri') ops"
      using less.hyps [of "put_round sm ri'"] within(2,3) b less.prems(2) by auto
    then show ?thesis using completes_Cons [OF less.prems(1) op within(1,3)] by blast
  next
    case last
    then show ?thesis using completes_last [OF less.prems(1) op] by blast
  qed
qed

text \<open>C7: progress. From every reachable state whose current round has a participant, there are
  operations of its participants, none of them an abort, that complete the round: they
  are applied, the machine moves on to the next round, and the round is kept as done.\<close>

theorem round_can_complete:
  assumes "sm_reachable sm" and "ri_Participants (cur sm) \<noteq> []"
  shows "\<exists>ops sm' ri. (\<forall>op \<in> set ops. Op_Type op \<noteq> AbortOpType \<and> op_Id op \<in> set (ri_Participants (cur sm))) \<and>
     go_run sm_step sm ops = Inr sm' \<and> sm_Round sm' = sm_Round sm + 1 \<and>
     GetRoundInfo sm' (sm_Round sm) = Inr ri \<and> ri_Phase ri = DonePhase"
  using exists_completion [OF reachable_inv [OF assms(1)] assms(2)]
  by (fastforce simp: completes_def progress_op_def)

theorem round_can_complete_witness:
  "\<exists>ops sm' ri. go_run sm_step demo_sm ops = Inr sm' \<and> sm_Round sm' = 1 \<and>
     GetRoundInfo sm' 0 = Inr ri \<and> ri_Phase ri = DonePhase"
  using round_can_complete [OF demo_reachable] by (auto simp: cur_def demo_sm_def demo_round_def)

text \<open>A round that was started without participants accepts nothing but an abort; the progress
  property needs its participant.\<close>

theorem empty_round_waits_for_abort:
  assumes "sm_reachable sm" and "ri_Participants (cur sm) = []" and "ri_Phase (cur sm) \<noteq> PreparePhase"
    and "Op_Type op \<noteq> AbortOpType"
  shows "Apply False sm op = Inr (False, sm)"
proof -
  have inv: "sm_inv sm" by (rule reachable_inv [OF assms(1)])
  then have "ri_Phase (cur sm) \<in> {SubmitPhase, RevealPhase, EncryptPhase, ScramblePhase, DecryptPhase}"
    using assms(3) by (auto simp: sm_inv_def live_def)
  then have "\<not> ri_step (cur sm) op ri'" and "\<not> ri_finish (cur sm) op ri'" for ri'
    using assms(2-4) by (cases op; auto simp: ri_step_simps ri_finish_simps)+
  then have "op_result sm op res \<Longrightarrow> res = (False, sm)" for res by (auto simp: op_result_def)
  with Apply_op_spec [OF sm_inv_basic [OF inv], of False op] show ?thesis by (auto simp: Apply_nodebug)
qed

definition demo_empty :: "masseyOmuraCrypto StateMachine" where
  "demo_empty = put_round sm_init (zero_RoundInfo\<lparr>ri_Phase := SubmitPhase, ri_Crypto := Some demo_crypto\<rparr>)"

lemma demo_empty_reachable: "sm_reachable demo_empty"
  by (rule sm_reachable.step [OF init_reachable, of "StartOp 1 0 (Some demo_crypto)" True])
    (simp add: demo_empty_def sm_eval sm_init_def)

theorem empty_round_waits_for_abort_witness:
  "Apply False demo_empty (MessageOp 1 0 \<lparr>msg_M = [5]\<rparr> [9]) = Inr (False, demo_empty)"
  by (rule empty_round_waits_for_abort [OF demo_empty_reachable])
    (simp_all add: demo_empty_def sm_init_def put_round_def cur_def zero_RoundInfo_def NumRoundsPersisted_def)

subsection \<open>The representation checks\<close>

lemma checkRep_iff:
  "RoundInfo_checkRep ri \<longleftrightarrow>
     distinct (ri_Participants ri) \<and> length (ri_Messages ri) = length (ri_Participants ri) \<and>
     length (ri_Encrypted ri) = length (ri_Participants ri) \<and>
     length (ri_Scrambled ri) = length (ri_Participants ri) \<and>
     length (ri_Decrypted ri) = length (ri_Participants ri) \<and>
     length (ri_RevealedKeys ri) = length (ri_Participants ri) \<and>
     left_to_right (ri_Scrambled ri) \<and>
     (ri_Phase ri \<in> {NoPhase, PreparePhase, FailedPhase} \<or> ri_Crypto ri \<noteq> None) \<and>
     (ri_Phase ri = PreparePhase \<longrightarrow> ri_Crypto ri = None) \<and>
     list_all2 (\<lambda>m h. Msg_Nil m = (h = [])) (ri_Messages ri) (ri_RevealKeyHashes ri)"
  unfolding RoundInfo_checkRep_def distinct_conv_nth list_all2_conv_all_nth
  by (auto simp: Ball_def split: if_splits) 

definition filled :: "'c RoundInfo \<Rightarrow> bool" where
  "filled ri \<longleftrightarrow> (ri_Phase ri \<in> {EncryptPhase, ScramblePhase, DecryptPhase, RevealPhase} \<longrightarrow>
     (\<forall>m \<in> set (ri_Messages ri). \<not> Msg_Nil m))"

lemma hashes_filled:
  assumes "list_all2 (\<lambda>m h. Msg_Nil m = (h = [])) ms hs" and "\<forall>m \<in> set ms. \<not> Msg_Nil m"
    and "length ms' = length ms" and "\<forall>m \<in> set ms'. \<not> Msg_Nil m"
  shows "list_all2 (\<lambda>m h. Msg_Nil m = (h = [])) ms' hs"
  using assms by (auto simp: list_all2_conv_all_nth)

lemma ri_step_checkRep:
  assumes "ri_step ri op ri'" and "RoundInfo_checkRep ri" and "filled ri" and "lists_ok ri" and "legal ri op"
  shows "RoundInfo_checkRep ri' \<and> filled ri'"
proof -
  have "lists_ok ri'" by (rule ri_step_lists_ok [OF assms(1,4)])
  with assms show ?thesis
  proof (induction rule: ri_step.induct)
    case (message ri p pid r m h)
    then show ?case
      by (auto simp: checkRep_iff filled_def lists_ok_def intro: list_all2_update_cong)
  next
    case (encrypted ri p pid prev r ms)
    then show ?case
      by (auto simp: checkRep_iff filled_def lists_ok_def list_all_iff intro: hashes_filled)
  next
    case (scrambled ri pid r ms)
    then show ?case
      by (auto simp: checkRep_iff filled_def lists_ok_def list_all_iff intro: hashes_filled)
  next
    case (decrypted ri p pid prev r ms)
    then show ?case
      by (auto simp: checkRep_iff filled_def lists_ok_def list_all_iff intro: hashes_filled)
  qed (auto simp: checkRep_iff filled_def lists_ok_def list_all2_appendI Msg_Nil_def NilMsg_def)
qed

lemma ri_finish_checkRep:
  "ri_finish ri op ri' \<Longrightarrow> RoundInfo_checkRep ri \<Longrightarrow> RoundInfo_checkRep ri'"
  by (induction rule: ri_finish.induct) (auto simp: checkRep_iff)

definition checked_inv :: "'c StateMachine \<Rightarrow> bool" where
  "checked_inv sm \<longleftrightarrow> sm_inv sm \<and> StateMachine_checkRep sm \<and> filled (cur sm)"

lemma fresh_checkRep: "RoundInfo_checkRep (zero_RoundInfo\<lparr>ri_Phase := PreparePhase\<rparr>)"
  and zero_checkRep: "RoundInfo_checkRep zero_RoundInfo"
  and fresh_filled: "filled (zero_RoundInfo\<lparr>ri_Phase := PreparePhase\<rparr>)"
  by (simp_all add: checkRep_iff zero_RoundInfo_def left_to_right_def filled_def)

lemma op_result_checked:
  assumes "checked_inv sm" and "op_result sm op (updated, sm')" and "legal (cur sm) op" and "sm_inv sm'"
  shows "checked_inv sm'"
proof -
  have b: "sm_basic sm" and rep: "StateMachine_checkRep sm" and fill: "filled (cur sm)"
    using assms(1) by (simp_all add: checked_inv_def sm_inv_basic)
  have cur: "RoundInfo_checkRep (cur sm)"
    using rep b cur_in [of sm] by (simp add: StateMachine_checkRep_def sm_basic_def)
  have put: "StateMachine_checkRep (put_round sm ri)" if "RoundInfo_checkRep ri" for ri
    using rep rounds_put_round [OF b, of RoundInfo_checkRep ri] that by (simp add: StateMachine_checkRep_def)
  have adv: "StateMachine_checkRep (advance (put_round sm ri))" if "RoundInfo_checkRep ri" for ri
    using put [OF that] rounds_advance [of "put_round sm ri" RoundInfo_checkRep] fresh_checkRep
    by (simp add: StateMachine_checkRep_def)
  consider (refused) "sm' = sm" | (within) ri' where "ri_step (cur sm) op ri'" "sm' = put_round sm ri'"
    | (finished) ri' where "ri_finish (cur sm) op ri'" "sm' = advance (put_round sm ri')"
    using assms(2) by (auto simp: op_result_def)
  then show ?thesis
  proof cases
    case refused
    with assms show ?thesis by simp
  next
    case within
    then show ?thesis
      using ri_step_checkRep [OF within(1) cur fill lists_ok_cur [OF b] assms(3)] put assms(4) b
      by (simp add: checked_inv_def)
  next
    case finished
    then show ?thesis
      using adv [OF ri_finish_checkRep [OF finished(1) cur]] assms(4) b fresh_filled
      by (simp add: checked_inv_def cur_advance sm_basic_def)
  qed
qed

lemma checked_step_total:
  assumes "checked_inv sm"
  shows "\<exists>sm'. checked_step sm op = Inr sm' \<and> checked_inv sm'"
proof (cases "legal (cur sm) op \<and> Op_Round op = sm_Round sm")
  case True
  have b: "sm_inv sm" "sm_basic sm" "StateMachine_checkRep sm" using assms by (simp_all add: checked_inv_def sm_inv_basic)
  obtain updated sm' where res: "Apply_op True sm op = Inr (updated, sm')" "op_result sm op (updated, sm')"
    using Apply_op_spec [OF b(2), of True op] by auto
  have "sm_inv sm'"
    using res(2) ri_step_inv ri_finish_inv ri_step_live ri_finish_ended sm_inv_put_round sm_inv_advance
      sm_inv_cur [OF b(1)] b(1) unfolding op_result_def by blast
  from op_result_checked [OF assms res(2) _ this] True have "checked_inv sm'" by simp
  with True res b show ?thesis by (simp add: checked_step_def Apply_def checked_inv_def)
next
  case False
  with assms show ?thesis by (auto simp: checked_step_def Apply_def checked_inv_def)
qed

interpretation checked: total_steps checked_step checked_inv
  by unfold_locales (rule checked_step_total)

text \<open>C12: with the assertions switched on, no sequence of legal operations, in any order and
  interleaving, ever violates the representation checks that \<open>Apply\<close> asserts before and
  after every operation.\<close>

theorem legal_runs_keep_checkRep:
  "\<exists>sm0 sm. NewStateMachine True None = Inr sm0 \<and> go_run checked_step sm0 ops = Inr sm \<and> StateMachine_checkRep sm"
proof -
  have "checked_inv sm_init"
    using sm_init_inv fresh_checkRep zero_checkRep fresh_filled
    by (auto simp: checked_inv_def StateMachine_checkRep_def sm_init_def cur_def)
  from checked.run_total [OF this, of ops] show ?thesis
    by (auto simp: NewStateMachine_init checked_inv_def)
qed

subsection \<open>Copies\<close>

text \<open>What the copy of a round holds: the messages, filled up with nil to one per participant.\<close>

definition padded :: "'c RoundInfo \<Rightarrow> 'c RoundInfo" where
  "padded ri = ri\<lparr>ri_Messages := ri_Messages ri @
     replicate (length (ri_Participants ri) - length (ri_Messages ri)) NilMsg\<rparr>"

lemma padded_aligned: "length (ri_Messages ri) = length (ri_Participants ri) \<Longrightarrow> padded ri = ri"
  by (simp add: padded_def)

lemma RoundInfo_DeepCopy_spec:
  assumes "lists_ok ri"
  shows "RoundInfo_DeepCopy crypto_DeepCopy ri =
     (if length (ri_Messages ri) \<le> length (ri_Participants ri) then Inr (padded ri) else Inl IndexOutOfRange)"
proof -
  have ids: "Msg_DeepCopy = (\<lambda>x. x)" "PrivateKey_DeepCopy = (\<lambda>x. x)" "crypto_DeepCopy = (\<lambda>x. x)" by auto
  have hash: "(\<lambda>b. go_copy (replicate (length b) (0 :: byte)) b) = (\<lambda>x. x)" by auto
  show ?thesis
    using assms
    by (simp add: RoundInfo_DeepCopy_def Let_def ids hash lists_ok_def go_store_all_prefix go_store_all_same_length
        go_store_all_too_long padded_def option.map_ident)
qed

lemma go_map_same_error:
  assumes "\<And>x. x \<in> set xs \<Longrightarrow> f x = (if P x then Inr (g x) else Inl e)"
  shows "go_map f xs = (if \<forall>x \<in> set xs. P x then Inr (map g xs) else Inl e)"
  using assms by (induction xs) auto

lemma StateMachine_DeepCopy_eq:
  assumes "sm_inv sm"
  shows "StateMachine_DeepCopy False crypto_DeepCopy sm =
     (if \<forall>ri \<in> set (sm_Rounds sm). length (ri_Messages ri) \<le> length (ri_Participants ri)
      then Inr (sm\<lparr>sm_Rounds := map padded (sm_Rounds sm)\<rparr>) else Inl IndexOutOfRange)"
proof -
  have "go_map (RoundInfo_DeepCopy crypto_DeepCopy) (sm_Rounds sm) =
     (if \<forall>ri \<in> set (sm_Rounds sm). length (ri_Messages ri) \<le> length (ri_Participants ri)
      then Inr (map padded (sm_Rounds sm)) else Inl IndexOutOfRange)"
    by (rule go_map_same_error) (use assms in \<open>auto simp: sm_inv_def sm_basic_def RoundInfo_DeepCopy_spec\<close>)
  then show ?thesis by (cases sm) (simp add: StateMachine_DeepCopy_def)
qed

text \<open>C14: \<open>DeepCopy\<close> of a reachable state: equal to the original when every round has one message per
  participant, padded with nil messages when one has fewer, and a panic, index out
  of range, when one has more. An \<open>EncryptedOp\<close>, \<open>ScrambledOp\<close> or \<open>DecryptedOp\<close> of a participant can
  bring about the last two, since \<open>Apply\<close> does not check the number of messages.\<close>

theorem DeepCopy_spec:
  assumes "sm_reachable sm"
  shows "StateMachine_DeepCopy False crypto_DeepCopy sm =
     (if \<forall>ri \<in> set (sm_Rounds sm). length (ri_Messages ri) = length (ri_Participants ri) then Inr sm
      else if \<forall>ri \<in> set (sm_Rounds sm). length (ri_Messages ri) \<le> length (ri_Participants ri)
      then Inr (sm\<lparr>sm_Rounds := map padded (sm_Rounds sm)\<rparr>) else Inl IndexOutOfRange)"
proof -
  have "map padded (sm_Rounds sm) = sm_Rounds sm"
    if "\<forall>ri \<in> set (sm_Rounds sm). length (ri_Messages ri) = length (ri_Participants ri)"
    using that by (intro map_idI) (simp add: padded_aligned)
  then show ?thesis by (auto simp: StateMachine_DeepCopy_eq [OF reachable_inv [OF assms]])
qed

definition demo_oversized :: "masseyOmuraCrypto StateMachine" where
  "demo_oversized = put_round demo_sm (demo_round\<lparr>
     ri_Messages := [\<lparr>msg_M = [7]\<rparr>, \<lparr>msg_M = [8]\<rparr>, \<lparr>msg_M = [9]\<rparr>], ri_Encrypted := [True, False]\<rparr>)"

lemma demo_oversized_reachable: "sm_reachable demo_oversized"
  by (rule sm_reachable.step [OF demo_reachable,
        of "EncryptedOp 1 0 [\<lparr>msg_M = [7]\<rparr>, \<lparr>msg_M = [8]\<rparr>, \<lparr>msg_M = [9]\<rparr>] 0" True])
    (simp add: demo_oversized_def sm_eval demo_sm_def demo_round_def)

theorem DeepCopy_spec_witness:
  "StateMachine_DeepCopy False crypto_DeepCopy demo_sm = Inr demo_sm \<and>
   StateMachine_DeepCopy False crypto_DeepCopy demo_oversized = Inl IndexOutOfRange"
  using DeepCopy_spec [OF demo_reachable] DeepCopy_spec [OF demo_oversized_reachable]
  by (simp add: demo_oversized_def demo_sm_def demo_round_def put_round_def NumRoundsPersisted_def
      zero_RoundInfo_def)

end
