(* ===== verification/Resp_Channels.thy ===== *)
theory Resp_Channels
  imports Egg_Prelude "HOL-Library.AList"
begin

text \<open>
  \<open>anonbcast/respchannels.go\<close>: the table of the channels on which requests wait for their result,
  indexed by Raft term and log index.

  \<^item> \<open>respChannels\<close> is the implementation: a Go map of maps, as an association list of association
    lists, with the identity of the next channel that \<open>make\<close> returns and the channels closed so far.
  \<^item> The locale \<open>channel_table\<close> is the interface \<open>RespChannels\<close> with the laws a client relies on;
    \<open>resp\<close> interprets it on the implementation.
\<close>

type_synonym chan = nat

record respChannels =
  rc_m :: "(int \<times> (int \<times> chan) list) list"
  rc_fresh :: chan
  rc_closed :: "chan list"

text \<open>The built-in \<open>close\<close>: closing a closed channel panics.\<close>

definition close_chan :: "respChannels \<Rightarrow> chan \<Rightarrow> respChannels go" where
  "close_chan r ch = (if ch \<in> set (rc_closed r) then Inl ClosedChannel else Inr (r\<lparr>rc_closed := ch # rc_closed r\<rparr>))"

definition NewRespChannels :: respChannels where
  "NewRespChannels = \<lparr>rc_m = [], rc_fresh = 0, rc_closed = []\<rparr>"

definition rc_Get :: "respChannels \<Rightarrow> int \<Rightarrow> int \<Rightarrow> chan option" where
  "rc_Get r i j = (case map_of (rc_m r) i of None \<Rightarrow> None | Some mm \<Rightarrow> map_of mm j)"

definition rc_Create :: "bool \<Rightarrow> respChannels \<Rightarrow> int \<Rightarrow> int \<Rightarrow> (chan \<times> respChannels) go" where
  "rc_Create debug r i j =
     go_bind (go_assert debug (rc_Get r i j = None)) (\<lambda>_.
       let ch = rc_fresh r;
           m = (if map_of (rc_m r) i = None then AList.update i [] (rc_m r) else rc_m r);
           mm = the (map_of m i)
       in Inr (ch, r\<lparr>rc_fresh := Suc ch, rc_m := AList.update i (AList.update j ch mm) m\<rparr>))"

definition rc_Close :: "bool \<Rightarrow> respChannels \<Rightarrow> int \<Rightarrow> int \<Rightarrow> respChannels go" where
  "rc_Close debug r i j =
     go_bind (go_assert debug (rc_Get r i j \<noteq> None)) (\<lambda>_.
     go_bind (case rc_Get r i j of None \<Rightarrow> Inl (Panic ''close of nil channel'') | Some ch \<Rightarrow> close_chan r ch) (\<lambda>r.
       let mm = AList.delete j (the (map_of (rc_m r) i));
           m = AList.update i mm (rc_m r)
       in Inr (r\<lparr>rc_m := (if mm = [] then AList.delete i m else m)\<rparr>)))"

fun close_all :: "respChannels \<Rightarrow> chan list \<Rightarrow> respChannels go" where
  "close_all r [] = Inr r"
| "close_all r (ch # chs) = go_bind (close_chan r ch) (\<lambda>r'. close_all r' chs)"

text \<open>The nested loops of \<open>Clear\<close> go over the entries of the two maps.\<close>

definition rc_entries :: "(int \<times> (int \<times> chan) list) list \<Rightarrow> ((int \<times> int) \<times> chan) list" where
  "rc_entries m = concat (map (\<lambda>(i, mm). map (\<lambda>(j, ch). ((i, j), ch)) mm) m)"

definition rc_Clear :: "respChannels \<Rightarrow> respChannels go" where
  "rc_Clear r = go_bind (close_all r (map snd (rc_entries (rc_m r)))) (\<lambda>r. Inr (r\<lparr>rc_m := []\<rparr>))"

subsection \<open>The contract\<close>

locale channel_table =
  fixes Create :: "'t \<Rightarrow> int \<Rightarrow> int \<Rightarrow> (chan \<times> 't) go"
    and Get :: "'t \<Rightarrow> int \<Rightarrow> int \<Rightarrow> chan option"
    and Close :: "'t \<Rightarrow> int \<Rightarrow> int \<Rightarrow> 't go"
    and Clear :: "'t \<Rightarrow> 't go"
    and inv :: "'t \<Rightarrow> bool"
    and closed :: "'t \<Rightarrow> chan set"
  assumes create: "inv t \<Longrightarrow> Get t i j = None \<Longrightarrow>
      \<exists>ch t'. Create t i j = Inr (ch, t') \<and> inv t' \<and> closed t' = closed t \<and> ch \<notin> closed t \<and>
        (\<forall>i' j'. Get t i' j' \<noteq> Some ch) \<and>
        (\<forall>i' j'. Get t' i' j' = (if i' = i \<and> j' = j then Some ch else Get t i' j'))"
    and close: "inv t \<Longrightarrow> Get t i j = Some ch \<Longrightarrow>
      \<exists>t'. Close t i j = Inr t' \<and> inv t' \<and> closed t' = insert ch (closed t) \<and>
        (\<forall>i' j'. Get t' i' j' = (if i' = i \<and> j' = j then None else Get t i' j'))"
    and clear: "inv t \<Longrightarrow> \<exists>t'. Clear t = Inr t' \<and> inv t' \<and>
        closed t' = closed t \<union> {ch. \<exists>i j. Get t i j = Some ch} \<and> (\<forall>i j. Get t' i j = None)"
    and get_open: "inv t \<Longrightarrow> Get t i j = Some ch \<Longrightarrow> ch \<notin> closed t"
    and get_inj: "inv t \<Longrightarrow> Get t i j = Some ch \<Longrightarrow> Get t i' j' = Some ch \<Longrightarrow> i = i' \<and> j = j'"
begin

text \<open>What is handed out is new, open, and stays the request's own until it is closed.\<close>

lemma create_get:
  assumes "inv t" and "Get t i j = None" and "Create t i j = Inr (ch, t')"
  shows "inv t'" and "Get t' i j = Some ch" and "ch \<notin> closed t'"
    and "i' \<noteq> i \<or> j' \<noteq> j \<Longrightarrow> Get t' i' j' = Get t i' j'"
  using create [OF assms(1,2)] assms(3) by auto

lemma clear_empty:
  assumes "inv t" and "Clear t = Inr t'"
  shows "inv t'" and "Get t' i j = None" and "Get t i j = Some ch \<Longrightarrow> ch \<in> closed t'" and "closed t \<subseteq> closed t'"
  using clear [OF assms(1)] assms(2) by auto

lemma close_get:
  assumes "inv t" and "Get t i j = Some ch" and "Close t i j = Inr t'"
  shows "inv t'" and "Get t' i j = None" and "ch \<in> closed t'"
  using close [OF assms(1,2)] assms(3) by auto

end

subsection \<open>The implementation\<close>

definition rc_inv :: "respChannels \<Rightarrow> bool" where
  "rc_inv r \<longleftrightarrow>
     distinct (map fst (rc_m r)) \<and> (\<forall>(i, mm) \<in> set (rc_m r). distinct (map fst mm)) \<and>
     (\<forall>i j ch. rc_Get r i j = Some ch \<longrightarrow> ch < rc_fresh r \<and> ch \<notin> set (rc_closed r)) \<and>
     (\<forall>ch \<in> set (rc_closed r). ch < rc_fresh r) \<and>
     (\<forall>i j i' j' ch. rc_Get r i j = Some ch \<and> rc_Get r i' j' = Some ch \<longrightarrow> i = i' \<and> j = j')"

lemma set_rc_entries: "((i, j), ch) \<in> set (rc_entries m) \<longleftrightarrow> (\<exists>mm. (i, mm) \<in> set m \<and> (j, ch) \<in> set mm)"
  by (force simp: rc_entries_def)

lemma rc_entries_Get:
  assumes "rc_inv r"
  shows "((i, j), ch) \<in> set (rc_entries (rc_m r)) \<longleftrightarrow> rc_Get r i j = Some ch"
proof -
  have d: "distinct (map fst (rc_m r))" and dd: "\<And>i mm. (i, mm) \<in> set (rc_m r) \<Longrightarrow> distinct (map fst mm)"
    using assms by (auto simp: rc_inv_def)
  have "(\<exists>mm. (i, mm) \<in> set (rc_m r) \<and> (j, ch) \<in> set mm) \<longleftrightarrow> (\<exists>mm. map_of (rc_m r) i = Some mm \<and> map_of mm j = Some ch)"
    using dd by (metis d map_of_eq_Some_iff)
  then show ?thesis by (simp add: set_rc_entries rc_Get_def split: option.split)
qed

lemma distinct_rc_keys:
  "distinct (map fst m) \<Longrightarrow> \<forall>(i, mm) \<in> set m. distinct (map fst mm) \<Longrightarrow> distinct (map fst (rc_entries m))"
proof (induction m)
  case (Cons e m)
  obtain i mm where e: "e = (i, mm)" by (cases e)
  have eq: "map fst (rc_entries (e # m)) = map (Pair i) (map fst mm) @ map fst (rc_entries m)"
    by (simp add: e rc_entries_def comp_def case_prod_beta)
  have sub: "\<And>i' j' ch. ((i', j'), ch) \<in> set (rc_entries m) \<Longrightarrow> i' \<in> fst ` set m"
    by (force simp: set_rc_entries)
  have "distinct (map (Pair i) (map fst mm))"
    using Cons.prems(2) by (auto simp: e distinct_map inj_on_def)
  moreover have "distinct (map fst (rc_entries m))" using Cons by (simp add: e)
  moreover have "set (map (Pair i) (map fst mm)) \<inter> set (map fst (rc_entries m)) = {}"
    using Cons.prems(1) sub by (fastforce simp: e)
  ultimately show ?case by (simp only: eq distinct_append simp_thms)
qed (simp add: rc_entries_def)

lemma rc_inj: "rc_inv r \<Longrightarrow> rc_Get r i j = Some ch \<Longrightarrow> rc_Get r i' j' = Some ch \<Longrightarrow> i = i' \<and> j = j'"
  unfolding rc_inv_def by blast

lemma rc_open: "rc_inv r \<Longrightarrow> rc_Get r i j = Some ch \<Longrightarrow> ch < rc_fresh r \<and> ch \<notin> set (rc_closed r)"
  unfolding rc_inv_def by blast

lemma distinct_rc_chans:
  assumes "rc_inv r"
  shows "distinct (map snd (rc_entries (rc_m r)))"
proof -
  have "distinct (rc_entries (rc_m r))"
    using distinct_rc_keys [of "rc_m r"] assms by (auto simp: rc_inv_def distinct_map)
  moreover have "inj_on snd (set (rc_entries (rc_m r)))"
  proof (rule inj_onI)
    fix x y assume xy: "x \<in> set (rc_entries (rc_m r))" "y \<in> set (rc_entries (rc_m r))" "snd x = snd y"
    obtain i j ch i' j' ch' where "x = ((i, j), ch)" "y = ((i', j'), ch')" by (metis prod.collapse)
    with xy rc_inj [OF assms] show "x = y" by (auto simp: rc_entries_Get [OF assms])
  qed
  ultimately show ?thesis by (simp add: distinct_map)
qed

lemma close_all_ok:
  "distinct chs \<Longrightarrow> set chs \<inter> set (rc_closed r) = {} \<Longrightarrow>
   close_all r chs = Inr (r\<lparr>rc_closed := rev chs @ rc_closed r\<rparr>)"
  by (induction chs arbitrary: r) (auto simp: close_chan_def)

lemma rc_Clear_ok:
  assumes "rc_inv r"
  shows "\<exists>r'. rc_Clear r = Inr r' \<and> rc_inv r' \<and>
     set (rc_closed r') = set (rc_closed r) \<union> {ch. \<exists>i j. rc_Get r i j = Some ch} \<and> (\<forall>i j. rc_Get r' i j = None)"
proof -
  let ?chs = "map snd (rc_entries (rc_m r))"
  have chs: "set ?chs = {ch. \<exists>i j. rc_Get r i j = Some ch}"
    using rc_entries_Get [OF assms] by force
  then have "set ?chs \<inter> set (rc_closed r) = {}" using assms by (auto simp: rc_inv_def)
  from close_all_ok [OF distinct_rc_chans [OF assms] this]
  have "rc_Clear r = Inr (r\<lparr>rc_closed := rev ?chs @ rc_closed r, rc_m := []\<rparr>)" by (simp add: rc_Clear_def)
  moreover have "\<forall>ch \<in> set ?chs. ch < rc_fresh r" using assms unfolding chs by (auto simp: rc_inv_def)
  ultimately show ?thesis using assms chs by (auto simp: rc_inv_def rc_Get_def)
qed

lemma in_update: "(k', v') \<in> set (AList.update k v al) \<Longrightarrow> k' = k \<and> v' = v \<or> (k', v') \<in> set al"
  by (induction al) (auto split: if_splits)

lemma in_delete: "(k', v') \<in> set (AList.delete k al) \<Longrightarrow> k' \<noteq> k \<and> (k', v') \<in> set al"
  by (auto simp: AList.delete_eq)

lemma rc_Create_ok:
  assumes "rc_inv r" and "rc_Get r i j = None"
  shows "\<exists>ch r'. rc_Create debug r i j = Inr (ch, r') \<and> rc_inv r' \<and> set (rc_closed r') = set (rc_closed r) \<and>
     ch \<notin> set (rc_closed r) \<and> (\<forall>i' j'. rc_Get r i' j' \<noteq> Some ch) \<and>
     (\<forall>i' j'. rc_Get r' i' j' = (if i' = i \<and> j' = j then Some ch else rc_Get r i' j'))"
proof -
  define m where "m = (if map_of (rc_m r) i = None then AList.update i [] (rc_m r) else rc_m r)"
  define mm where "mm = the (map_of m i)"
  define r' where "r' = r\<lparr>rc_fresh := Suc (rc_fresh r), rc_m := AList.update i (AList.update j (rc_fresh r) mm) m\<rparr>"
  have create: "rc_Create debug r i j = Inr (rc_fresh r, r')"
    using assms(2) by (simp add: rc_Create_def Let_def r'_def m_def mm_def)
  have get: "rc_Get r' i' j' = (if i' = i \<and> j' = j then Some (rc_fresh r) else rc_Get r i' j')" for i' j'
    by (auto simp: rc_Get_def update_conv' r'_def m_def mm_def split: option.split)
  have dm: "distinct (map fst m)" and dmm: "\<And>i' mm'. (i', mm') \<in> set m \<Longrightarrow> distinct (map fst mm')"
    using assms(1) by (auto simp: rc_inv_def m_def distinct_update dest!: in_update split: if_splits)
  have "(i, mm) \<in> set m" by (intro map_of_SomeD) (simp add: mm_def m_def update_conv')
  then have "distinct (map fst (AList.update j (rc_fresh r) mm))" by (simp add: dmm distinct_update)
  then have "distinct (map fst (rc_m r'))" and "\<forall>(i', mm') \<in> set (rc_m r'). distinct (map fst mm')"
    using dm dmm by (auto simp: r'_def distinct_update dest!: in_update)
  moreover have less: "ch < rc_fresh r \<and> ch \<notin> set (rc_closed r)" if "rc_Get r i' j' = Some ch" for i' j' ch
    by (rule rc_open [OF assms(1) that])
  moreover have "rc_fresh r \<notin> set (rc_closed r)" using assms(1) by (auto simp: rc_inv_def)
  moreover have fresh: "rc_Get r i' j' \<noteq> Some (rc_fresh r)" for i' j' using less by blast
  ultimately have "rc_inv r'"
    using assms(1) unfolding rc_inv_def get by (auto simp: r'_def less_Suc_eq split: if_splits)
  with create get fresh show ?thesis
    using \<open>rc_fresh r \<notin> set (rc_closed r)\<close> by (auto simp: r'_def [symmetric]) (auto simp: r'_def)
qed

lemma rc_Close_ok:
  assumes "rc_inv r" and "rc_Get r i j = Some ch"
  shows "\<exists>r'. rc_Close debug r i j = Inr r' \<and> rc_inv r' \<and> set (rc_closed r') = insert ch (set (rc_closed r)) \<and>
     (\<forall>i' j'. rc_Get r' i' j' = (if i' = i \<and> j' = j then None else rc_Get r i' j'))"
proof -
  obtain mm where mm: "map_of (rc_m r) i = Some mm" "map_of mm j = Some ch"
    using assms(2) by (auto simp: rc_Get_def split: option.splits)
  define m where "m = AList.update i (AList.delete j mm) (rc_m r)"
  define r' where "r' = r\<lparr>rc_closed := ch # rc_closed r, rc_m := (if AList.delete j mm = [] then AList.delete i m else m)\<rparr>"
  have open_ch: "ch \<notin> set (rc_closed r)" and less: "ch < rc_fresh r" using rc_open [OF assms] by simp_all
  have close: "rc_Close debug r i j = Inr r'"
    using assms(2) open_ch mm by (simp add: rc_Close_def close_chan_def Let_def r'_def m_def)
  have get: "rc_Get r' i' j' = (if i' = i \<and> j' = j then None else rc_Get r i' j')" for i' j'
  proof (cases "AList.delete j mm = []")
    case True
    then have "map_of mm j' = (if j' = j then Some ch else None)" for j'
      using delete_conv' [of j mm] mm(2) by (metis fun_upd_apply map_of.simps(1))
    with True mm show ?thesis
      by (auto simp: rc_Get_def r'_def m_def update_conv' delete_conv' split: option.split)
  next
    case False
    with mm show ?thesis
      by (auto simp: rc_Get_def r'_def m_def update_conv' delete_conv' split: option.split)
  qed
  have "distinct (map fst mm)" using assms(1) map_of_SomeD [OF mm(1)] by (auto simp: rc_inv_def)
  then have "distinct (map fst (rc_m r'))" and "\<forall>(i', mm') \<in> set (rc_m r'). distinct (map fst mm')"
    using assms(1) by (auto simp: rc_inv_def r'_def m_def distinct_update distinct_delete dest!: in_update in_delete)
  moreover have "\<forall>i j. rc_Get r' i j \<noteq> Some ch" using rc_inj [OF assms] by (auto simp: get)
  moreover have "ch' < rc_fresh r \<and> ch' \<notin> set (rc_closed r)" if "rc_Get r' i' j' = Some ch'" for i' j' ch'
    using that rc_open [OF assms(1)] by (simp add: get split: if_splits)
  moreover have "i' = i'' \<and> j' = j''" if "rc_Get r' i' j' = Some ch'" and "rc_Get r' i'' j'' = Some ch'" for i' j' i'' j'' ch'
    using that rc_inj [OF assms(1)] by (simp add: get split: if_splits)
  moreover have "rc_fresh r' = rc_fresh r" and "rc_closed r' = ch # rc_closed r" by (simp_all add: r'_def)
  moreover have "\<forall>ch \<in> set (rc_closed r). ch < rc_fresh r" using assms(1) by (simp add: rc_inv_def)
  ultimately have "rc_inv r'"
    using less unfolding rc_inv_def by (intro conjI) auto
  with close get show ?thesis by (auto simp: r'_def [symmetric]) (auto simp: r'_def)
qed

interpretation resp: channel_table "rc_Create debug" rc_Get "rc_Close debug" rc_Clear rc_inv "\<lambda>r. set (rc_closed r)" for debug
proof
  fix r :: respChannels and i j :: int
  assume "rc_inv r" and "rc_Get r i j = None"
  then show "\<exists>ch r'. rc_Create debug r i j = Inr (ch, r') \<and> rc_inv r' \<and> set (rc_closed r') = set (rc_closed r) \<and>
     ch \<notin> set (rc_closed r) \<and> (\<forall>i' j'. rc_Get r i' j' \<noteq> Some ch) \<and>
     (\<forall>i' j'. rc_Get r' i' j' = (if i' = i \<and> j' = j then Some ch else rc_Get r i' j'))"
    by (rule rc_Create_ok)
next
  fix r :: respChannels and i j :: int and ch
  assume "rc_inv r" and "rc_Get r i j = Some ch"
  then show "\<exists>r'. rc_Close debug r i j = Inr r' \<and> rc_inv r' \<and> set (rc_closed r') = insert ch (set (rc_closed r)) \<and>
     (\<forall>i' j'. rc_Get r' i' j' = (if i' = i \<and> j' = j then None else rc_Get r i' j'))"
    by (rule rc_Close_ok)
next
  fix r :: respChannels
  assume "rc_inv r"
  then show "\<exists>r'. rc_Clear r = Inr r' \<and> rc_inv r' \<and>
     set (rc_closed r') = set (rc_closed r) \<union> {ch. \<exists>i j. rc_Get r i j = Some ch} \<and> (\<forall>i j. rc_Get r' i j = None)"
    by (rule rc_Clear_ok)
qed (use rc_open rc_inj in blast)+

lemma NewRespChannels_inv: "rc_inv NewRespChannels"
  by (simp add: rc_inv_def NewRespChannels_def rc_Get_def)

end
