(* ===== verification/Raft_Lib.thy ===== *)
theory Raft_Lib
  imports Op
begin

text \<open>
  \<open>libraft\<close> and \<open>mockraft\<close>: the interface to the replicated log, and its single-server mock.

  \<^item> \<open>Raft\<close> is the interface, a record of methods over the state of an implementation. The
    implementation used in production is a git submodule that is not part of the
    repository: it is a parameter of the server model.
  \<^item> \<open>Mockraft\<close> is the implementation of \<open>mockraft.go\<close>. The goroutine that \<open>Start\<close> spawns for every command
    sends the message of that command at some later time: \<open>mr_sending\<close> holds the messages
    not yet received, and \<open>mr_receive\<close> takes any one of them.
  \<^item> \<open>Persister\<close> stores the Raft state and the snapshot.
\<close>

type_synonym configuration = "(string \<times> bool) list"

record 'c ApplyMsg =
  am_CommandValid :: bool
  am_Command :: "'c Op option"
  am_CommandTerm :: int
  am_CommandIndex :: int
  am_SnapshotValid :: bool
  am_Snapshot :: bytes
  am_SnapshotTerm :: int
  am_SnapshotIndex :: int
  am_RaftUpdateValid :: bool
  am_IsLeader :: bool
  am_ConfigValid :: bool
  am_Configuration :: configuration

definition zero_ApplyMsg :: "'c ApplyMsg" where
  "zero_ApplyMsg = \<lparr>am_CommandValid = False, am_Command = None, am_CommandTerm = 0, am_CommandIndex = 0,
     am_SnapshotValid = False, am_Snapshot = [], am_SnapshotTerm = 0, am_SnapshotIndex = 0,
     am_RaftUpdateValid = False, am_IsLeader = False, am_ConfigValid = False, am_Configuration = []\<rparr>"

datatype AddRemoveServerError =
    AR_NOT_LEADER
  | AR_NOT_PROVISIONAL
  | AR_NOT_CAUGHT_UP
  | AR_CONCURRENT_CHANGE
  | AR_ALREADY_COMPLETE
  | AR_NEW_LEADER
  | AR_OK

datatype AddProvisionalError =
    AP_NOT_LEADER
  | AP_ALREADY_PROVISIONAL
  | AP_ALREADY_IN_CONFIGURATION
  | AP_SUCCESS

record ('r, 'c) Raft =
  rf_Start :: "'r \<Rightarrow> 'c Op \<Rightarrow> (int \<times> int \<times> bool) \<times> 'r"
  rf_Kill :: "'r \<Rightarrow> 'r"
  rf_Snapshot :: "'r \<Rightarrow> int \<Rightarrow> bytes \<Rightarrow> 'r"
  rf_CondInstallSnapshot :: "'r \<Rightarrow> int \<Rightarrow> int \<Rightarrow> bytes \<Rightarrow> bool"
  rf_GetState :: "'r \<Rightarrow> int \<times> bool"
  rf_GetProvisionalConfiguration :: "'r \<Rightarrow> bool \<times> configuration"
  rf_GetCurrentConfiguration :: "'r \<Rightarrow> bool \<times> configuration"
  rf_AddProvisional :: "'r \<Rightarrow> string \<Rightarrow> (int \<times> AddProvisionalError) \<times> 'r"
  rf_RemoveServer :: "'r \<Rightarrow> string \<Rightarrow> AddRemoveServerError \<times> 'r"
  rf_AddServer :: "'r \<Rightarrow> string \<Rightarrow> AddRemoveServerError \<times> 'r"

subsection \<open>The mock\<close>

record 'c Mockraft =
  mr_log :: "'c Op list"
  mr_sending :: "'c ApplyMsg list"

definition mr_New :: "'c Mockraft" where
  "mr_New = \<lparr>mr_log = [], mr_sending = []\<rparr>"

definition mr_Start :: "'c Mockraft \<Rightarrow> 'c Op \<Rightarrow> (int \<times> int \<times> bool) \<times> 'c Mockraft" where
  "mr_Start m command =
     (let m = m\<lparr>mr_log := mr_log m @ [command]\<rparr>;
          index = int (length (mr_log m));
          msg = zero_ApplyMsg\<lparr>am_Command := Some command, am_CommandTerm := 1, am_CommandIndex := index,
            am_CommandValid := True\<rparr>
      in ((index, 1, True), m\<lparr>mr_sending := mr_sending m @ [msg]\<rparr>))"

definition mr_receive :: "nat \<Rightarrow> 'c Mockraft \<Rightarrow> ('c ApplyMsg \<times> 'c Mockraft) option" where
  "mr_receive k m =
     (if k < length (mr_sending m)
      then Some (mr_sending m ! k, m\<lparr>mr_sending := take k (mr_sending m) @ drop (Suc k) (mr_sending m)\<rparr>)
      else None)"

definition mockraft_methods :: "('c Mockraft, 'c) Raft" where
  "mockraft_methods =
     \<lparr>rf_Start = mr_Start,
      rf_Kill = (\<lambda>m. m),
      rf_Snapshot = (\<lambda>m index snapshot. m),
      rf_CondInstallSnapshot = (\<lambda>m lastIncludedTerm lastIncludedIndex snapshot. True),
      rf_GetState = (\<lambda>m. (1, True)),
      rf_GetProvisionalConfiguration = (\<lambda>m. (True, [])),
      rf_GetCurrentConfiguration = (\<lambda>m. (True, [(''0'', True)])),
      rf_AddProvisional = (\<lambda>m peer. ((0, AP_SUCCESS), m)),
      rf_RemoveServer = (\<lambda>m peer. (AR_OK, m)),
      rf_AddServer = (\<lambda>m peer. (AR_OK, m))\<rparr>"

text \<open>
  Every message on its way carries the command that the log holds at its index, in term 1:
  \<open>Start\<close> and the receiver keep this, in whatever order the goroutines get to send.
\<close>

definition msg_of_log :: "'c Op list \<Rightarrow> 'c ApplyMsg \<Rightarrow> bool" where
  "msg_of_log log msg \<longleftrightarrow> am_CommandValid msg \<and> am_CommandTerm msg = 1 \<and>
     1 \<le> am_CommandIndex msg \<and> am_CommandIndex msg \<le> int (length log) \<and>
     am_Command msg = Some (log ! nat (am_CommandIndex msg - 1))"

definition mr_inv :: "'c Mockraft \<Rightarrow> bool" where
  "mr_inv m \<longleftrightarrow> (\<forall>msg \<in> set (mr_sending m). msg_of_log (mr_log m) msg)"

lemma msg_of_log_append: "msg_of_log log msg \<Longrightarrow> msg_of_log (log @ log') msg"
  by (auto simp: msg_of_log_def nth_append)

lemma mr_New_inv: "mr_inv mr_New"
  by (simp add: mr_inv_def mr_New_def)

lemma mr_Start_inv:
  assumes "mr_inv m" and "mr_Start m command = ((index, term, ok), m')"
  shows "mr_inv m' \<and> ok \<and> index = int (length (mr_log m)) + 1 \<and> mr_log m' = mr_log m @ [command]"
proof -
  have "msg_of_log (mr_log m @ [command]) (zero_ApplyMsg\<lparr>am_Command := Some command, am_CommandTerm := 1,
      am_CommandIndex := 1 + int (length (mr_log m)), am_CommandValid := True\<rparr>)"
    by (simp add: msg_of_log_def)
  moreover have "\<forall>msg \<in> set (mr_sending m). msg_of_log (mr_log m @ [command]) msg"
    using assms(1) by (simp add: mr_inv_def msg_of_log_append)
  ultimately show ?thesis using assms(2) by (auto simp: mr_Start_def Let_def mr_inv_def)
qed

lemma mr_receive_inv:
  assumes "mr_inv m" and "mr_receive k m = Some (msg, m')"
  shows "mr_inv m' \<and> mr_log m' = mr_log m \<and> msg_of_log (mr_log m) msg"
  using assms
  by (auto simp: mr_receive_def mr_inv_def split: if_splits dest!: in_set_takeD in_set_dropD)

subsection \<open>The persister\<close>

record Persister =
  ps_raftstate :: bytes
  ps_snapshot :: bytes

definition MakePersister :: Persister where
  "MakePersister = \<lparr>ps_raftstate = [], ps_snapshot = []\<rparr>"

definition clone :: "bytes \<Rightarrow> bytes" where
  "clone orig = go_copy (replicate (length orig) 0) orig"

definition ps_Copy :: "Persister \<Rightarrow> Persister" where
  "ps_Copy ps = MakePersister\<lparr>ps_raftstate := ps_raftstate ps, ps_snapshot := ps_snapshot ps\<rparr>"

definition SaveRaftState :: "Persister \<Rightarrow> bytes \<Rightarrow> Persister" where
  "SaveRaftState ps state = ps\<lparr>ps_raftstate := clone state\<rparr>"

definition ReadRaftState :: "Persister \<Rightarrow> bytes" where
  "ReadRaftState ps = clone (ps_raftstate ps)"

definition RaftStateSize :: "Persister \<Rightarrow> nat" where
  "RaftStateSize ps = length (ps_raftstate ps)"

definition SaveStateAndSnapshot :: "Persister \<Rightarrow> bytes \<Rightarrow> bytes \<Rightarrow> Persister" where
  "SaveStateAndSnapshot ps state snapshot = ps\<lparr>ps_raftstate := clone state, ps_snapshot := clone snapshot\<rparr>"

definition ReadSnapshot :: "Persister \<Rightarrow> bytes" where
  "ReadSnapshot ps = clone (ps_snapshot ps)"

definition SnapshotSize :: "Persister \<Rightarrow> nat" where
  "SnapshotSize ps = length (ps_snapshot ps)"

lemma clone_id [simp]: "clone b = b"
  by (simp add: clone_def)

lemma persister_reads:
  "ReadRaftState (SaveRaftState ps state) = state"
  "ReadSnapshot (SaveRaftState ps state) = ReadSnapshot ps"
  "ReadRaftState (SaveStateAndSnapshot ps state snapshot) = state"
  "ReadSnapshot (SaveStateAndSnapshot ps state snapshot) = snapshot"
  "ps_Copy ps = ps"
  by (simp_all add: ReadRaftState_def SaveRaftState_def ReadSnapshot_def SaveStateAndSnapshot_def
      ps_Copy_def MakePersister_def)

end
