(* ===== verification/Server.thy ===== *)
theory Server
  imports Machine_Progress Resp_Channels Raft_Lib
begin

text \<open>
  \<open>anonbcast/server.go\<close> and \<open>serverconfigurationchange.go\<close>: the server that runs the state machine over Raft.

  \<^item> The Raft instance is a parameter: its methods are the record \<open>rf\<close>, its state a field of the server.
  \<^item> Every critical section under \<open>s.mu\<close> is one operation. \<open>SubmitOp\<close> has two: \<open>SubmitOp\<close> up to the point
    where it waits on its response channel, and \<open>SubmitOp_reply\<close>, what it replies when
    the wait is over (\<open>None\<close> while it waits). \<open>applier\<close> is one turn of the loop of that name.
  \<^item> A channel of updates is the list of the messages sent on it. \<open>sv_delivered\<close> holds the response
    channels on which the applier has sent \<open>true\<close>; a receive from a channel that was closed
    before gives \<open>false\<close>.
  \<^item> \<open>sv_step\<close> drives a server by any interleaving of these sections, and records the applied
    commands and the started requests; \<open>server\<close> interprets \<open>safe_steps\<close> on it.
\<close>

record 'c UpdateMsg =
  um_ConfigurationValid :: bool
  um_Configuration :: configuration
  um_StateMachineValid :: bool
  um_StateMachine :: "'c StateMachine"

record ('c, 'r) Server =
  sv_Me :: string
  sv_rf :: 'r
  sv_dead :: bool
  sv_sm :: "'c StateMachine"
  sv_updChs :: "(int \<times> 'c UpdateMsg list) list"
  sv_updChIndex :: int
  sv_resps :: respChannels
  sv_delivered :: "chan list"

datatype Err = OK | ErrWrongLeader

definition NewServer :: "bool \<Rightarrow> string \<Rightarrow> 'r \<Rightarrow> ('c, 'r) Server go" where
  "NewServer debug me r =
     go_bind (NewStateMachine debug None) (\<lambda>sm.
       Inr \<lparr>sv_Me = me, sv_rf = r, sv_dead = False, sv_sm = sm, sv_updChs = [], sv_updChIndex = 0,
            sv_resps = NewRespChannels, sv_delivered = []\<rparr>)"

definition IsLeader :: "('r, 'c) Raft \<Rightarrow> ('c, 'r) Server \<Rightarrow> Err" where
  "IsLeader rf s = (if snd (rf_GetState rf (sv_rf s)) then OK else ErrWrongLeader)"

definition killed :: "('c, 'r) Server \<Rightarrow> bool" where
  "killed s = sv_dead s"

definition SubmitOp :: "bool \<Rightarrow> ('r, 'c) Raft \<Rightarrow> ('c, 'r) Server \<Rightarrow> 'c Op \<Rightarrow> ((Err + chan) \<times> ('c, 'r) Server) go" where
  "SubmitOp debug rf s op =
     go_bind (GuaranteedNoEffect debug (sv_sm s) op) (\<lambda>noeffect.
       if noeffect then Inr (Inl OK, s)
       else let ((index, term, ok), r) = rf_Start rf (sv_rf s) op;
                s = s\<lparr>sv_rf := r\<rparr>
         in if \<not> ok then Inr (Inl ErrWrongLeader, s)
            else go_bind (rc_Create debug (sv_resps s) term index) (\<lambda>(ch, resps).
                   Inr (Inr ch, s\<lparr>sv_resps := resps\<rparr>)))"

definition SubmitOp_reply :: "('c, 'r) Server \<Rightarrow> chan \<Rightarrow> Err option" where
  "SubmitOp_reply s ch =
     (if ch \<in> set (sv_delivered s) then Some OK
      else if ch \<in> set (rc_closed (sv_resps s)) \<or> killed s then Some ErrWrongLeader
      else None)"

definition sm_update :: "'c StateMachine \<Rightarrow> 'c UpdateMsg" where
  "sm_update sm = \<lparr>um_ConfigurationValid = False, um_Configuration = [], um_StateMachineValid = True, um_StateMachine = sm\<rparr>"

definition config_update :: "configuration \<Rightarrow> 'c UpdateMsg" where
  "config_update conf = \<lparr>um_ConfigurationValid = True, um_Configuration = conf, um_StateMachineValid = False,
     um_StateMachine = \<lparr>sm_Round = 0, sm_Rounds = replicate 3 zero_RoundInfo\<rparr>\<rparr>"

definition sendStateMachineUpdate :: "bool \<Rightarrow> 'c crypto_methods \<Rightarrow> ('c, 'r) Server \<Rightarrow> ('c, 'r) Server go" where
  "sendStateMachineUpdate debug cm s =
     go_bind (go_map (\<lambda>(i, msgs). go_bind (StateMachine_DeepCopy debug (cc_DeepCopy cm) (sv_sm s)) (\<lambda>sm.
         Inr (i, msgs @ [sm_update sm]))) (sv_updChs s)) (\<lambda>chs.
       Inr (s\<lparr>sv_updChs := chs\<rparr>))"

definition sendConfigurationUpdate :: "('c, 'r) Server \<Rightarrow> configuration \<Rightarrow> ('c, 'r) Server" where
  "sendConfigurationUpdate s conf = s\<lparr>sv_updChs := map (\<lambda>(i, msgs). (i, msgs @ [config_update conf])) (sv_updChs s)\<rparr>"

text \<open>The send of \<open>true\<close> on a response channel: a send on a closed channel panics.\<close>

definition send_resp :: "('c, 'r) Server \<Rightarrow> chan \<Rightarrow> ('c, 'r) Server go" where
  "send_resp s ch =
     (if ch \<in> set (rc_closed (sv_resps s)) then Inl ClosedChannel
      else Inr (s\<lparr>sv_delivered := ch # sv_delivered s\<rparr>))"

definition applier :: "bool \<Rightarrow> 'c crypto_methods \<Rightarrow> ('c, 'r) Server \<Rightarrow> 'c ApplyMsg \<Rightarrow> ('c, 'r) Server go" where
  "applier debug cm s msg =
     (if am_CommandValid msg then
        case am_Command msg of
          None \<Rightarrow> Inl (Panic ''interface conversion'')
        | Some op \<Rightarrow>
            go_bind (Apply debug (sv_sm s) op) (\<lambda>(updated, sm).
            let s = s\<lparr>sv_sm := sm\<rparr>
            in go_bind (if updated then sendStateMachineUpdate debug cm s else Inr s) (\<lambda>s.
               case rc_Get (sv_resps s) (am_CommandTerm msg) (am_CommandIndex msg) of
                 None \<Rightarrow> Inr s
               | Some ch \<Rightarrow> send_resp s ch))
      else if am_RaftUpdateValid msg then
        if \<not> am_IsLeader msg
        then go_bind (rc_Clear (sv_resps s)) (\<lambda>resps. Inr (s\<lparr>sv_resps := resps\<rparr>))
        else Inr s
      else if am_SnapshotValid msg then go_bind (go_assert debug False) (\<lambda>_. Inr s)
      else if am_ConfigValid msg then Inr (sendConfigurationUpdate s (am_Configuration msg))
      else go_bind (go_assert debug False) (\<lambda>_. Inr s))"

definition sv_Kill :: "('r, 'c) Raft \<Rightarrow> ('c, 'r) Server \<Rightarrow> ('c, 'r) Server" where
  "sv_Kill rf s = s\<lparr>sv_dead := True, sv_rf := rf_Kill rf (sv_rf s)\<rparr>"

definition GetUpdCh :: "bool \<Rightarrow> 'c crypto_methods \<Rightarrow> ('c, 'r) Server \<Rightarrow> (int \<times> ('c, 'r) Server) go" where
  "GetUpdCh debug cm s =
     (let index = sv_updChIndex s
      in go_bind (StateMachine_DeepCopy debug (cc_DeepCopy cm) (sv_sm s)) (\<lambda>sm.
           Inr (index, s\<lparr>sv_updChs := AList.update index [sm_update sm] (sv_updChs s), sv_updChIndex := index + 1\<rparr>)))"

definition CloseUpdCh :: "('c, 'r) Server \<Rightarrow> int \<Rightarrow> ('c, 'r) Server go" where
  "CloseUpdCh s index =
     (case map_of (sv_updChs s) index of
        None \<Rightarrow> Inl (Panic ''close of nil channel'')
      | Some msgs \<Rightarrow> Inr (s\<lparr>sv_updChs := AList.delete index (sv_updChs s)\<rparr>))"

subsection \<open>Configuration changes\<close>

record InConfigurationReply =
  icr_InConfiguration :: bool
  icr_IsLeader :: bool

record AddRemoveReply =
  arr_Submitted :: bool
  arr_Error :: AddRemoveServerError

definition InConfiguration :: "('r, 'c) Raft \<Rightarrow> ('c, 'r) Server \<Rightarrow> string \<Rightarrow> bool \<Rightarrow> InConfigurationReply" where
  "InConfiguration rf s server isProvisionalReq =
     (let (isLeader, conf) = (if isProvisionalReq then rf_GetProvisionalConfiguration rf (sv_rf s)
                              else rf_GetCurrentConfiguration rf (sv_rf s))
      in \<lparr>icr_InConfiguration = (map_of conf server \<noteq> None), icr_IsLeader = isLeader\<rparr>)"

definition sv_AddProvisional :: "('r, 'c) Raft \<Rightarrow> ('c, 'r) Server \<Rightarrow> string \<Rightarrow> AddProvisionalError \<times> ('c, 'r) Server" where
  "sv_AddProvisional rf s server =
     (let ((_, err), r) = rf_AddProvisional rf (sv_rf s) server in (err, s\<lparr>sv_rf := r\<rparr>))"

definition sv_AddRemove :: "('r, 'c) Raft \<Rightarrow> ('c, 'r) Server \<Rightarrow> string \<Rightarrow> bool \<Rightarrow> AddRemoveReply \<times> ('c, 'r) Server" where
  "sv_AddRemove rf s server isAdd =
     (let (err, r) = (if isAdd then rf_AddServer rf (sv_rf s) server else rf_RemoveServer rf (sv_rf s) server)
      in ((if err = AR_OK \<or> err = AR_ALREADY_COMPLETE then \<lparr>arr_Submitted = True, arr_Error = AR_OK\<rparr>
           else \<lparr>arr_Submitted = False, arr_Error = err\<rparr>), s\<lparr>sv_rf := r\<rparr>))"

end
