(* ===== verification/Server_Props.thy ===== *)
theory Server_Props
  imports Server
begin

text \<open>
  The correctness of the server, for any interleaving of its critical sections.

  \<open>server\<close> interprets \<open>safe_steps\<close> on \<open>sv_step\<close> with the invariant \<open>sv_inv\<close>: the state machine is
  the run of the applied commands, every update channel carries a chain of copies that ends
  with a copy of the current state, and a response channel that was answered with \<open>true\<close> belongs to a
  request whose log entry has been applied.
\<close>

datatype 'c sv_event =
    SvSubmit "'c Op"
  | SvApply "'c ApplyMsg"
  | SvGetUpdCh
  | SvCloseUpdCh int
  | SvKill

record ('c, 'r) sv_run =
  sr_server :: "('c, 'r) Server"
  sr_applied :: "'c ApplyMsg list"
  sr_started :: "(chan \<times> int \<times> int \<times> 'c Op) list"

fun sv_step :: "('r, 'c) Raft \<Rightarrow> 'c crypto_methods \<Rightarrow> ('c, 'r) sv_run \<Rightarrow> 'c sv_event \<Rightarrow> ('c, 'r) sv_run go" where
  "sv_step rf cm g (SvSubmit op) =
     go_bind (SubmitOp False rf (sr_server g) op) (\<lambda>(res, s).
       Inr (case res of
              Inl err \<Rightarrow> g\<lparr>sr_server := s\<rparr>
            | Inr ch \<Rightarrow> (case fst (rf_Start rf (sv_rf (sr_server g)) op) of (index, term, ok) \<Rightarrow>
                g\<lparr>sr_server := s, sr_started := (ch, term, index, op) # sr_started g\<rparr>)))"
| "sv_step rf cm g (SvApply msg) =
     go_bind (applier False cm (sr_server g) msg) (\<lambda>s.
       Inr (g\<lparr>sr_server := s, sr_applied := (if am_CommandValid msg then sr_applied g @ [msg] else sr_applied g)\<rparr>))"
| "sv_step rf cm g SvGetUpdCh =
     go_bind (GetUpdCh False cm (sr_server g)) (\<lambda>(i, s). Inr (g\<lparr>sr_server := s\<rparr>))"
| "sv_step rf cm g (SvCloseUpdCh i) =
     go_bind (CloseUpdCh (sr_server g) i) (\<lambda>s. Inr (g\<lparr>sr_server := s\<rparr>))"
| "sv_step rf cm g SvKill = Inr (g\<lparr>sr_server := sv_Kill rf (sr_server g)\<rparr>)"

definition sv_start :: "string \<Rightarrow> 'r \<Rightarrow> ('c, 'r) sv_run" where
  "sv_start me r = \<lparr>sr_server = \<lparr>sv_Me = me, sv_rf = r, sv_dead = False, sv_sm = sm_init, sv_updChs = [],
     sv_updChIndex = 0, sv_resps = NewRespChannels, sv_delivered = []\<rparr>, sr_applied = [], sr_started = []\<rparr>"

lemma NewServer_start: "NewServer debug me r = Inr (sr_server (sv_start me r))"
  by (simp add: NewServer_def NewStateMachine_init sv_start_def)

definition commands :: "'c ApplyMsg list \<Rightarrow> 'c Op list" where
  "commands msgs = List.map_filter am_Command msgs"

definition sm_updates :: "'c UpdateMsg list \<Rightarrow> 'c StateMachine list" where
  "sm_updates msgs = map um_StateMachine (filter um_StateMachineValid msgs)"

text \<open>What the order of states looks at: the round and the phase of the current round.\<close>

definition stamp :: "'c StateMachine \<Rightarrow> int \<times> nat" where
  "stamp sm = (sm_Round sm, case GetRoundInfo sm (sm_Round sm) of Inl _ \<Rightarrow> 0 | Inr ri \<Rightarrow> phaseOrder (ri_Phase ri))"

definition stamp_le :: "int \<times> nat \<Rightarrow> int \<times> nat \<Rightarrow> bool" where
  "stamp_le a b \<longleftrightarrow> fst a < fst b \<or> fst a = fst b \<and> snd a \<le> snd b"

lemma MayPrecede_stamp: "MayPrecede False a b = Inr True \<longleftrightarrow> stamp_le (stamp a) (stamp b)"
  by (auto simp: MayPrecede_def CurrentRoundInfo_def stamp_def stamp_le_def zero_RoundInfo_def split: sum.split)

lemma sm_le_stamp: "sm_inv a \<Longrightarrow> sm_inv b \<Longrightarrow> sm_le a b \<Longrightarrow> stamp_le (stamp a) (stamp b)"
  by (auto simp: stamp_le_def stamp_def sm_le_def ri_le_def GetRoundInfo_def NumRoundsPersisted_def
      cur_def [symmetric] sm_inv_def sm_basic_def)

lemma RoundInfo_DeepCopy_Phase: "RoundInfo_DeepCopy copy ri = Inr ri' \<Longrightarrow> ri_Phase ri' = ri_Phase ri"
  by (auto simp: RoundInfo_DeepCopy_def Let_def elim!: go_bindE)

lemma go_map_nth: "go_map f xs = Inr ys \<Longrightarrow> length ys = length xs \<and> (\<forall>i < length xs. f (xs ! i) = Inr (ys ! i))"
proof (induction xs arbitrary: ys)
  case (Cons x xs)
  then obtain z zs where "f x = Inr z" "go_map f xs = Inr zs" "ys = z # zs" by (auto elim!: go_bindE)
  with Cons.IH [of zs] show ?case by (auto simp: nth_Cons split: nat.split)
qed auto

lemma DeepCopy_stamp:
  assumes "sm_inv sm" and "StateMachine_DeepCopy False copy sm = Inr sm'"
  shows "stamp sm' = stamp sm"
proof -
  obtain rounds where rounds: "go_map (RoundInfo_DeepCopy copy) (sm_Rounds sm) = Inr rounds"
    and sm': "sm' = \<lparr>sm_Round = sm_Round sm, sm_Rounds = rounds\<rparr>"
    using assms(2) by (auto simp: StateMachine_DeepCopy_def elim!: go_bindE)
  have len: "length (sm_Rounds sm) = 3" and "0 \<le> sm_Round sm" using assms(1) by (auto simp: sm_inv_def sm_basic_def)
  then have "nat (sm_Round sm mod 3) < length (sm_Rounds sm)" by simp
  with go_map_nth [OF rounds]
  have "ri_Phase (rounds ! nat (sm_Round sm mod 3)) = ri_Phase (sm_Rounds sm ! nat (sm_Round sm mod 3))"
    using RoundInfo_DeepCopy_Phase by blast
  then show ?thesis by (simp add: stamp_def sm' GetRoundInfo_def NumRoundsPersisted_def)
qed

subsection \<open>The invariant\<close>

definition updates_ok :: "'c crypto_methods \<Rightarrow> 'c StateMachine \<Rightarrow> 'c UpdateMsg list \<Rightarrow> bool" where
  "updates_ok cm sm msgs \<longleftrightarrow> sm_updates msgs \<noteq> [] \<and>
     StateMachine_DeepCopy False (cc_DeepCopy cm) sm = Inr (last (sm_updates msgs)) \<and>
     sorted_wrt (\<lambda>a b. stamp_le (stamp a) (stamp b)) (sm_updates msgs)"

definition sv_inv :: "'c crypto_methods \<Rightarrow> ('c, 'r) sv_run \<Rightarrow> bool" where
  "sv_inv cm g \<longleftrightarrow>
     go_run sm_step sm_init (commands (sr_applied g)) = Inr (sv_sm (sr_server g)) \<and>
     (\<forall>(i, msgs) \<in> set (sv_updChs (sr_server g)). updates_ok cm (sv_sm (sr_server g)) msgs)"

lemma sv_inv_sm: "sv_inv cm g \<Longrightarrow> sm_inv (sv_sm (sr_server g))"
  using machine.run_inv [OF sm_init_inv] by (auto simp: sv_inv_def)

lemma commands_snoc: "am_Command msg = Some op \<Longrightarrow> commands (msgs @ [msg]) = commands msgs @ [op]"
  by (simp add: commands_def map_filter_def)

lemma updates_ok_extend:
  assumes "updates_ok cm sm msgs" and "sm_inv sm" and "sm_inv sm'" and "sm_le sm sm'"
    and "StateMachine_DeepCopy False (cc_DeepCopy cm) sm' = Inr copy"
  shows "updates_ok cm sm' (msgs @ [sm_update copy])"
proof -
  have upd: "sm_updates (msgs @ [sm_update copy]) = sm_updates msgs @ [copy]"
    by (simp add: sm_updates_def sm_update_def)
  have copy: "stamp copy = stamp sm'" by (rule DeepCopy_stamp [OF assms(3,5)])
  have last: "stamp (last (sm_updates msgs)) = stamp sm"
    using assms(1) by (intro DeepCopy_stamp [OF assms(2), where copy = "cc_DeepCopy cm"]) (simp add: updates_ok_def)
  have trans: "stamp_le a b \<Longrightarrow> stamp_le b c \<Longrightarrow> stamp_le a c" for a b c :: "int \<times> nat"
    by (auto simp: stamp_le_def)
  have "stamp_le (stamp x) (stamp copy)" if "x \<in> set (sm_updates msgs)" for x
  proof -
    obtain xs y where xs: "sm_updates msgs = xs @ [y]"
      using assms(1) by (metis append_butlast_last_id updates_ok_def)
    have "stamp_le (stamp x) (stamp y)"
      using that assms(1) by (auto simp: updates_ok_def xs sorted_wrt_append stamp_le_def [of "stamp y" "stamp y"])
    moreover have "stamp_le (stamp y) (stamp copy)"
      using last sm_le_stamp [OF assms(2-4)] by (simp add: xs copy)
    ultimately show ?thesis by (rule trans)
  qed
  with assms(1,5) show ?thesis by (simp add: updates_ok_def upd sorted_wrt_append)
qed

lemma sendStateMachineUpdate_ok:
  assumes "sendStateMachineUpdate False cm s = Inr s'"
    and "\<forall>(i, msgs) \<in> set (sv_updChs s). updates_ok cm sm msgs" and "sm_inv sm" and "sm_inv (sv_sm s)" and "sm_le sm (sv_sm s)"
  shows "(\<forall>(i, msgs) \<in> set (sv_updChs s'). updates_ok cm (sv_sm s) msgs) \<and> sv_sm s' = sv_sm s \<and>
     sv_resps s' = sv_resps s \<and> sv_delivered s' = sv_delivered s"
proof -
  let ?f = "\<lambda>(i, msgs). go_bind (StateMachine_DeepCopy False (cc_DeepCopy cm) (sv_sm s)) (\<lambda>sm. Inr (i, msgs @ [sm_update sm]))"
  obtain chs where chs: "go_map ?f (sv_updChs s) = Inr chs" and s': "s' = s\<lparr>sv_updChs := chs\<rparr>"
    using assms(1) by (auto simp: sendStateMachineUpdate_def elim!: go_bindE)
  have "updates_ok cm (sv_sm s) msgs" if ch: "(i, msgs) \<in> set chs" for i msgs
  proof -
    obtain k where k: "k < length chs" "chs ! k = (i, msgs)" using ch by (auto simp: in_set_conv_nth)
    obtain j old where old: "sv_updChs s ! k = (j, old)" by (cases "sv_updChs s ! k")
    have "?f (j, old) = Inr (i, msgs)" using go_map_nth [OF chs] k old by metis
    then obtain copy where "StateMachine_DeepCopy False (cc_DeepCopy cm) (sv_sm s) = Inr copy"
      and "msgs = old @ [sm_update copy]" by (auto elim!: go_bindE)
    moreover have "(j, old) \<in> set (sv_updChs s)" using go_map_nth [OF chs] k old by (metis nth_mem)
    ultimately show ?thesis using updates_ok_extend [OF _ assms(3-5)] assms(2) by auto
  qed
  with s' show ?thesis by auto
qed

lemma updates_ok_config: "updates_ok cm sm msgs \<Longrightarrow> updates_ok cm sm (msgs @ [config_update conf])"
  by (simp add: updates_ok_def sm_updates_def config_update_def)

lemma updates_ok_new:
  "StateMachine_DeepCopy False (cc_DeepCopy cm) sm = Inr copy \<Longrightarrow> updates_ok cm sm [sm_update copy]"
  by (simp add: updates_ok_def sm_updates_def sm_update_def)

text \<open>One turn of the applier, for a command: what it does to the parts of the server.\<close>

lemma applier_command:
  assumes "applier False cm s msg = Inr s'" and "am_CommandValid msg"
  obtains op updated sm s1 where "am_Command msg = Some op" and "Apply False (sv_sm s) op = Inr (updated, sm)"
    and "(if updated then sendStateMachineUpdate False cm (s\<lparr>sv_sm := sm\<rparr>) else Inr (s\<lparr>sv_sm := sm\<rparr>)) = Inr s1"
    and "s' = s1 \<or> (\<exists>ch. rc_Get (sv_resps s1) (am_CommandTerm msg) (am_CommandIndex msg) = Some ch \<and>
        s' = s1\<lparr>sv_delivered := ch # sv_delivered s1\<rparr>)"
  using assms
  by (auto simp: applier_def Let_def send_resp_def elim!: go_bindE split: option.splits prod.splits if_splits) 

lemma sv_apply_inv:
  assumes "sv_inv cm g" and "sv_step rf cm g (SvApply msg) = Inr g'"
  shows "sv_inv cm g'"
proof (cases "am_CommandValid msg")
  case True
  let ?s = "sr_server g"
  obtain s' where s': "applier False cm ?s msg = Inr s'" and g': "g' = g\<lparr>sr_server := s', sr_applied := sr_applied g @ [msg]\<rparr>"
    using assms(2) True by (auto elim!: go_bindE)
  obtain op updated sm s1 where op: "am_Command msg = Some op" and ap: "Apply False (sv_sm ?s) op = Inr (updated, sm)"
    and s1: "(if updated then sendStateMachineUpdate False cm (?s\<lparr>sv_sm := sm\<rparr>) else Inr (?s\<lparr>sv_sm := sm\<rparr>)) = Inr s1"
    and res: "s' = s1 \<or> (\<exists>ch. rc_Get (sv_resps s1) (am_CommandTerm msg) (am_CommandIndex msg) = Some ch \<and>
        s' = s1\<lparr>sv_delivered := ch # sv_delivered s1\<rparr>)"
    by (rule applier_command [OF s' True])
  from res have same: "sv_sm s' = sv_sm s1 \<and> sv_updChs s' = sv_updChs s1" by auto
  have inv: "sm_inv (sv_sm ?s)" by (rule sv_inv_sm [OF assms(1)])
  have chs: "\<forall>(i, msgs) \<in> set (sv_updChs s1). updates_ok cm sm msgs" and sm1: "sv_sm s1 = sm"
  proof -
    have "(\<forall>(i, msgs) \<in> set (sv_updChs s1). updates_ok cm sm msgs) \<and> sv_sm s1 = sm"
    proof (cases updated)
      case True
      with s1 sendStateMachineUpdate_ok [of cm "?s\<lparr>sv_sm := sm\<rparr>" s1 "sv_sm ?s"] assms(1) inv Apply_inv [OF inv ap] Apply_le [OF inv ap]
      show ?thesis by (simp add: sv_inv_def)
    next
      case False
      with ap sm_inv_basic [OF inv] have "sm = sv_sm ?s" by (auto elim: Apply_cases)
      with False s1 assms(1) show ?thesis by (auto simp: sv_inv_def)
    qed
    then show "\<forall>(i, msgs) \<in> set (sv_updChs s1). updates_ok cm sm msgs" and "sv_sm s1 = sm" by blast+
  qed
  have "go_run sm_step sm_init (commands (sr_applied g @ [msg])) = Inr sm"
    using assms(1) ap by (simp add: commands_snoc [OF op] go_run_append sv_inv_def sm_step_def)
  with chs sm1 same show ?thesis by (simp add: sv_inv_def g')
next
  case False
  with assms show ?thesis
    by (auto simp: applier_def sv_inv_def sendConfigurationUpdate_def intro!: updates_ok_config
        elim!: go_bindE split: if_splits)
qed

lemma sv_step_inv: "sv_inv cm g \<Longrightarrow> sv_step rf cm g e = Inr g' \<Longrightarrow> sv_inv cm g'"
proof (cases e)
  case (SvSubmit op)
  assume "sv_inv cm g" and "sv_step rf cm g e = Inr g'"
  with SvSubmit show ?thesis
    by (auto simp: SubmitOp_def sv_inv_def Let_def elim!: go_bindE split: if_splits prod.splits)
next
  case (SvApply msg)
  assume "sv_inv cm g" and "sv_step rf cm g e = Inr g'"
  with SvApply show ?thesis using sv_apply_inv by blast
next
  case SvGetUpdCh
  assume "sv_inv cm g" and "sv_step rf cm g e = Inr g'"
  with SvGetUpdCh show ?thesis
    by (auto simp: GetUpdCh_def Let_def sv_inv_def updates_ok_new elim!: go_bindE dest!: in_update)
next
  case (SvCloseUpdCh i)
  assume "sv_inv cm g" and "sv_step rf cm g e = Inr g'"
  with SvCloseUpdCh show ?thesis
    by (auto simp: CloseUpdCh_def sv_inv_def elim!: go_bindE split: option.splits dest!: in_delete)
next
  case SvKill
  assume "sv_inv cm g" and "sv_step rf cm g e = Inr g'"
  with SvKill show ?thesis by (auto simp: sv_inv_def sv_Kill_def)
qed

interpretation server: safe_steps "sv_step rf cm" "sv_inv cm" for rf cm
  by unfold_locales (rule sv_step_inv)

lemma sv_start_inv: "sv_inv cm (sv_start me r)"
  by (simp add: sv_inv_def sv_start_def commands_def map_filter_simps)

text \<open>C34: replication. Whatever requests, messages from Raft, subscriptions and kills interleave, the
  state machine of the server is the run of exactly the committed commands it was sent, in
  their order; so two servers that have applied the same log are in the same state.\<close>

theorem server_replicates_log:
  assumes "go_run (sv_step rf cm) (sv_start me r) events = Inr g"
    and "go_run (sv_step rf' cm') (sv_start me' r') events' = Inr g'"
    and "commands (sr_applied g) = commands (sr_applied g')"
  shows "go_run sm_step sm_init (commands (sr_applied g)) = Inr (sv_sm (sr_server g)) \<and>
     sv_sm (sr_server g) = sv_sm (sr_server g')"
  using server.run_safe [OF sv_start_inv assms(1)] server.run_safe [OF sv_start_inv assms(2)] assms(3)
  by (auto simp: sv_inv_def)

text \<open>C33: updates in order. On every channel that \<open>GetUpdCh\<close> handed out and that is still open, the state
  machines sent so far form a chain in which each may precede the next ones, starting with the state
  at the time of the call, and the last one is a copy of the current state: no update is missing.\<close>

theorem updates_in_order:
  assumes "go_run (sv_step rf cm) (sv_start me r) events = Inr g"
    and "(i, msgs) \<in> set (sv_updChs (sr_server g))"
  shows "sm_updates msgs \<noteq> [] \<and>
     StateMachine_DeepCopy False (cc_DeepCopy cm) (sv_sm (sr_server g)) = Inr (last (sm_updates msgs)) \<and>
     sorted_wrt (\<lambda>a b. MayPrecede False a b = Inr True) (sm_updates msgs)"
  using server.run_safe [OF sv_start_inv assms(1)] assms(2)
  by (auto simp: sv_inv_def updates_ok_def MayPrecede_stamp)

subsection \<open>Replies\<close>

definition resp_inv :: "('c, 'r) sv_run \<Rightarrow> bool" where
  "resp_inv g \<longleftrightarrow>
     (\<forall>t i ch. rc_Get (sv_resps (sr_server g)) t i = Some ch \<longrightarrow> (\<exists>op. (ch, t, i, op) \<in> set (sr_started g))) \<and>
     (\<forall>ch \<in> set (sv_delivered (sr_server g)). \<exists>t i op. (ch, t, i, op) \<in> set (sr_started g) \<and>
        (\<exists>msg \<in> set (sr_applied g). am_CommandTerm msg = t \<and> am_CommandIndex msg = i)) \<and>
     (\<forall>e \<in> set (sr_started g). fst e < rc_fresh (sv_resps (sr_server g))) \<and>
     distinct (map fst (sr_started g)) \<and>
     (\<forall>msg \<in> set (sr_applied g). am_Command msg \<noteq> None)"

lemma resp_inv_same:
  "resp_inv g \<Longrightarrow> sr_started g' = sr_started g \<Longrightarrow> sr_applied g' = sr_applied g \<Longrightarrow>
   sv_resps (sr_server g') = sv_resps (sr_server g) \<Longrightarrow> sv_delivered (sr_server g') = sv_delivered (sr_server g) \<Longrightarrow> resp_inv g'"
  by (simp add: resp_inv_def)

lemma rc_Create_get:
  "rc_Create False r t i = Inr (ch, r') \<Longrightarrow>
     ch = rc_fresh r \<and> rc_fresh r' = Suc (rc_fresh r) \<and>
     (\<forall>t' i'. rc_Get r' t' i' = (if t' = t \<and> i' = i then Some ch else rc_Get r t' i'))"
proof (cases "map_of (rc_m r) t")
  case None
  assume "rc_Create False r t i = Inr (ch, r')"
  with None show ?thesis by (auto simp: rc_Create_def Let_def rc_Get_def update_conv' split: option.split if_splits)
next
  case (Some mm)
  assume "rc_Create False r t i = Inr (ch, r')"
  with Some show ?thesis by (auto simp: rc_Create_def Let_def rc_Get_def update_conv' split: option.split if_splits)
qed

lemma rc_Clear_get: "rc_Clear r = Inr r' \<Longrightarrow> rc_fresh r' = rc_fresh r \<and> (\<forall>t i. rc_Get r' t i = None)"
proof -
  have "close_all r chs = Inr r' \<Longrightarrow> rc_fresh r' = rc_fresh r" for r r' chs
    by (induction chs arbitrary: r) (auto simp: close_chan_def elim!: go_bindE split: if_splits)
  then show "rc_Clear r = Inr r' \<Longrightarrow> rc_fresh r' = rc_fresh r \<and> (\<forall>t i. rc_Get r' t i = None)"
    by (auto simp: rc_Clear_def rc_Get_def elim!: go_bindE)
qed

lemma send_keeps:
  "sendStateMachineUpdate False cm s = Inr s' \<Longrightarrow>
     sv_resps s' = sv_resps s \<and> sv_delivered s' = sv_delivered s \<and> sv_sm s' = sv_sm s"
  by (auto simp: sendStateMachineUpdate_def elim!: go_bindE)

lemma resp_submit:
  assumes "resp_inv g" and "sv_step rf cm g (SvSubmit op) = Inr g'"
  shows "resp_inv g'"
proof -
  obtain res s where res: "SubmitOp False rf (sr_server g) op = Inr (res, s)" and
    g': "g' = (case res of Inl err \<Rightarrow> g\<lparr>sr_server := s\<rparr>
       | Inr ch \<Rightarrow> (case fst (rf_Start rf (sv_rf (sr_server g)) op) of (index, term, ok) \<Rightarrow>
           g\<lparr>sr_server := s, sr_started := (ch, term, index, op) # sr_started g\<rparr>))"
    using assms(2) by (auto elim!: go_bindE)
  obtain index "term" ok r where start: "rf_Start rf (sv_rf (sr_server g)) op = ((index, term, ok), r)"
    by (metis prod.collapse)
  show ?thesis
  proof (cases res)
    case (Inl err)
    with res have "sv_resps s = sv_resps (sr_server g) \<and> sv_delivered s = sv_delivered (sr_server g)"
      by (auto simp: SubmitOp_def Let_def start elim!: go_bindE split: if_splits)
    with Inl assms(1) show ?thesis by (simp add: g' resp_inv_def)
  next
    case (Inr ch)
    with res obtain resps where "rc_Create False (sv_resps (sr_server g)) term index = Inr (ch, resps)"
      and "s = (sr_server g)\<lparr>sv_rf := r, sv_resps := resps\<rparr>"
      by (auto simp: SubmitOp_def Let_def start elim!: go_bindE split: if_splits)
    with Inr assms(1) rc_Create_get [of "sv_resps (sr_server g)" "term" index ch resps] show ?thesis
      by (fastforce simp: g' start resp_inv_def)
  qed
qed

lemma resp_apply:
  assumes "resp_inv g" and "sv_step rf cm g (SvApply msg) = Inr g'"
  shows "resp_inv g'"
proof (cases "am_CommandValid msg")
  case True
  let ?s = "sr_server g"
  obtain s' where s': "applier False cm ?s msg = Inr s'" and g': "g' = g\<lparr>sr_server := s', sr_applied := sr_applied g @ [msg]\<rparr>"
    using assms(2) True by (auto elim!: go_bindE)
  obtain op updated sm s1 where op: "am_Command msg = Some op" and ap: "Apply False (sv_sm ?s) op = Inr (updated, sm)"
    and s1: "(if updated then sendStateMachineUpdate False cm (?s\<lparr>sv_sm := sm\<rparr>) else Inr (?s\<lparr>sv_sm := sm\<rparr>)) = Inr s1"
    and res: "s' = s1 \<or> (\<exists>ch. rc_Get (sv_resps s1) (am_CommandTerm msg) (am_CommandIndex msg) = Some ch \<and>
        s' = s1\<lparr>sv_delivered := ch # sv_delivered s1\<rparr>)"
    by (rule applier_command [OF s' True])
  have "sv_resps s1 = sv_resps ?s \<and> sv_delivered s1 = sv_delivered ?s"
    using s1 send_keeps [of cm "?s\<lparr>sv_sm := sm\<rparr>" s1] by (auto split: if_splits)
  with res op assms(1) show ?thesis by (fastforce simp: g' resp_inv_def)
next
  case False
  obtain s' where s': "applier False cm (sr_server g) msg = Inr s'" and g': "g' = g\<lparr>sr_server := s'\<rparr>"
    using assms(2) False by (auto elim!: go_bindE)
  have "sv_delivered s' = sv_delivered (sr_server g) \<and> rc_fresh (sv_resps s') = rc_fresh (sv_resps (sr_server g)) \<and>
    (\<forall>t i ch. rc_Get (sv_resps s') t i = Some ch \<longrightarrow> rc_Get (sv_resps (sr_server g)) t i = Some ch)"
    using s' False
    by (auto simp: applier_def sendConfigurationUpdate_def elim!: go_bindE split: if_splits dest!: rc_Clear_get)
  with assms(1) show ?thesis unfolding resp_inv_def by (simp add: g')
qed

lemma resp_step: "resp_inv g \<Longrightarrow> sv_step rf cm g e = Inr g' \<Longrightarrow> resp_inv g'"
proof (cases e)
  case (SvSubmit op)
  then show "resp_inv g \<Longrightarrow> sv_step rf cm g e = Inr g' \<Longrightarrow> resp_inv g'" using resp_submit by blast
next
  case (SvApply msg)
  then show "resp_inv g \<Longrightarrow> sv_step rf cm g e = Inr g' \<Longrightarrow> resp_inv g'" using resp_apply by blast
qed (auto intro!: resp_inv_same [of g] simp: GetUpdCh_def CloseUpdCh_def sv_Kill_def Let_def elim!: go_bindE
    split: option.splits)

interpretation replies: safe_steps "sv_step rf cm" resp_inv for rf cm
  by unfold_locales (rule resp_step)

lemma resp_start: "resp_inv (sv_start me r)"
  by (simp add: resp_inv_def sv_start_def NewRespChannels_def rc_Get_def)

text \<open>C35: what the reply OK means. In any run, a request that was answered OK after waiting has had the
  log entry at its term and index applied by this server, so if Raft delivers at a started
  position the command that was started there, its operation has been applied; and a request
  that is answered OK at once is for an operation that no future state accepts.\<close>

theorem submit_ok_sound:
  assumes "go_run (sv_step rf cm) (sv_start me r) events = Inr g"
    and "\<forall>(ch, t, i, op) \<in> set (sr_started g). \<forall>msg \<in> set (sr_applied g).
       am_CommandTerm msg = t \<and> am_CommandIndex msg = i \<longrightarrow> am_Command msg = Some op"
  shows "((ch, t, i, op) \<in> set (sr_started g) \<and> SubmitOp_reply (sr_server g) ch = Some OK \<longrightarrow>
        op \<in> set (commands (sr_applied g))) \<and>
     (SubmitOp False rf (sr_server g) op' = Inr (Inl OK, s') \<and> go_run sm_step (sv_sm (sr_server g)) ops = Inr sm' \<longrightarrow>
        Apply False sm' op' = Inr (False, sm'))"
proof (intro conjI impI)
  have resp: "resp_inv g" by (rule replies.run_safe [OF resp_start assms(1)])
  assume a: "(ch, t, i, op) \<in> set (sr_started g) \<and> SubmitOp_reply (sr_server g) ch = Some OK"
  then have "ch \<in> set (sv_delivered (sr_server g))" by (auto simp: SubmitOp_reply_def split: if_splits)
  then obtain t' i' op'' msg where s: "(ch, t', i', op'') \<in> set (sr_started g)" and msg: "msg \<in> set (sr_applied g)"
    "am_CommandTerm msg = t'" "am_CommandIndex msg = i'" using resp by (auto simp: resp_inv_def)
  have "distinct (map fst (sr_started g))" using resp by (simp add: resp_inv_def)
  from eq_key_imp_eq_value [OF this s] a have "(t', i', op'') = (t, i, op)" by blast
  with assms(2) s msg have "am_Command msg = Some op" by fastforce
  with msg show "op \<in> set (commands (sr_applied g))"
    by (force simp: commands_def map_filter_def)
next
  assume a: "SubmitOp False rf (sr_server g) op' = Inr (Inl OK, s') \<and> go_run sm_step (sv_sm (sr_server g)) ops = Inr sm'"
  have "sm_reachable (sv_sm (sr_server g))"
    using server.run_safe [OF sv_start_inv assms(1)] by (auto simp: sv_inv_def intro: run_reachable [OF init_reachable])
  moreover have "GuaranteedNoEffect False (sv_sm (sr_server g)) op' = Inr True"
    using a by (auto simp: SubmitOp_def Let_def elim!: go_bindE split: if_splits prod.splits)
  ultimately show "Apply False sm' op' = Inr (False, sm')"
    using a noEffect_forever by blast
qed

subsection \<open>A server over the mock\<close>

definition demo_events :: "masseyOmuraCrypto sv_event list" where
  "demo_events = [SvGetUpdCh, SvSubmit (JoinOp 7 0),
     SvApply (zero_ApplyMsg\<lparr>am_Command := Some (JoinOp 7 0), am_CommandTerm := 1, am_CommandIndex := 1, am_CommandValid := True\<rparr>)]"

definition demo_joined :: "masseyOmuraCrypto RoundInfo" where
  "demo_joined = \<lparr>ri_Phase = PreparePhase, ri_Crypto = None, ri_Participants = [7], ri_Messages = [NilMsg],
     ri_Encrypted = [False], ri_Scrambled = [False], ri_Decrypted = [False], ri_RevealedKeys = [NilPrivateKey],
     ri_RevealKeyHashes = [[]]\<rparr>"

definition demo_joined_sm :: "masseyOmuraCrypto StateMachine" where
  "demo_joined_sm = \<lparr>sm_Round = 0, sm_Rounds = [demo_joined, zero_RoundInfo, zero_RoundInfo]\<rparr>"

definition demo_cm :: "masseyOmuraCrypto crypto_methods" where
  "demo_cm = masseyOmura_methods is_prime"

definition demo_server :: "(masseyOmuraCrypto, masseyOmuraCrypto Mockraft) sv_run" where
  "demo_server = \<lparr>sr_server = \<lparr>sv_Me = ''0'',
       sv_rf = \<lparr>mr_log = [JoinOp 7 0], mr_sending = [zero_ApplyMsg\<lparr>am_Command := Some (JoinOp 7 0),
         am_CommandTerm := 1, am_CommandIndex := 1, am_CommandValid := True\<rparr>]\<rparr>,
       sv_dead = False, sv_sm = demo_joined_sm, sv_updChs = [(0, [sm_update sm_init, sm_update demo_joined_sm])],
       sv_updChIndex = 1, sv_resps = \<lparr>rc_m = [(1, [(1, 0)])], rc_fresh = 1, rc_closed = []\<rparr>, sv_delivered = [0]\<rparr>,
     sr_applied = [zero_ApplyMsg\<lparr>am_Command := Some (JoinOp 7 0), am_CommandTerm := 1, am_CommandIndex := 1,
       am_CommandValid := True\<rparr>],
     sr_started = [(0, 1, 1, JoinOp 7 0)]\<rparr>"

lemma demo_join: "Apply False sm_init (JoinOp 7 0) = Inr (True, demo_joined_sm)"
  by (simp add: sm_eval sm_init_def demo_joined_sm_def demo_joined_def)

lemma demo_copies:
  "StateMachine_DeepCopy False crypto_DeepCopy sm_init = Inr sm_init"
  "StateMachine_DeepCopy False crypto_DeepCopy demo_joined_sm = Inr demo_joined_sm"
proof -
  have "sm_inv demo_joined_sm" by (rule Apply_inv [OF sm_init_inv demo_join])
  then show "StateMachine_DeepCopy False crypto_DeepCopy demo_joined_sm = Inr demo_joined_sm"
    by (simp add: StateMachine_DeepCopy_eq) (simp add: demo_joined_sm_def demo_joined_def padded_def zero_RoundInfo_def)
  show "StateMachine_DeepCopy False crypto_DeepCopy sm_init = Inr sm_init"
    by (simp add: StateMachine_DeepCopy_eq [OF sm_init_inv]) (simp add: sm_init_def padded_def zero_RoundInfo_def)
qed

lemma demo_noeffect: "GuaranteedNoEffect False sm_init (JoinOp 7 0) = Inr False"
  by (simp add: GuaranteedNoEffect_def sm_eval sm_init_def)

lemma demo_server_run: "go_run (sv_step mockraft_methods demo_cm) (sv_start ''0'' mr_New) demo_events = Inr demo_server"
  by (simp add: demo_events_def sv_start_def GetUpdCh_def SubmitOp_def demo_noeffect applier_def demo_join
      demo_cm_def masseyOmura_methods_def demo_copies sendStateMachineUpdate_def send_resp_def
      mockraft_methods_def mr_Start_def mr_New_def rc_Create_def rc_Get_def NewRespChannels_def
      zero_ApplyMsg_def demo_server_def)

theorem server_replicates_log_witness:
  "go_run sm_step sm_init (commands (sr_applied demo_server)) = Inr demo_joined_sm"
  using server_replicates_log [OF demo_server_run demo_server_run] by (simp add: demo_server_def)

theorem updates_in_order_witness:
  "sm_updates [sm_update sm_init, sm_update demo_joined_sm] \<noteq> [] \<and>
   MayPrecede False sm_init demo_joined_sm = Inr True"
  using updates_in_order [OF demo_server_run, of 0 "[sm_update sm_init, sm_update demo_joined_sm]"]
  by (simp add: demo_server_def sm_updates_def sm_update_def)

theorem submit_ok_sound_witness:
  "SubmitOp_reply (sr_server demo_server) 0 = Some OK \<and> JoinOp 7 0 \<in> set (commands (sr_applied demo_server))"
proof -
  have ok: "SubmitOp_reply (sr_server demo_server) 0 = Some OK"
    by (simp add: SubmitOp_reply_def demo_server_def)
  moreover have "JoinOp 7 0 \<in> set (commands (sr_applied demo_server))"
    using submit_ok_sound [OF demo_server_run, of 0 1 1 "JoinOp 7 0"] ok
    by (simp add: demo_server_def zero_ApplyMsg_def)
  ultimately show ?thesis by blast
qed

text \<open>C38: an operation of a participant that carries more messages than there are participants crashes every
  server that has a subscriber. The state machine accepts it, and the copy made for the
  update then panics with an index out of range.\<close>

theorem oversized_op_crashes_server:
  assumes "sm_reachable (sv_sm s)" and "sv_updChs s \<noteq> []" and "cc_DeepCopy cm = crypto_DeepCopy"
    and "am_CommandValid msg" and "am_Command msg = Some op" and "Apply False (sv_sm s) op = Inr (True, sm)"
    and "length (ri_Messages (cur sm)) > length (ri_Participants (cur sm))"
  shows "applier False cm s msg = Inl IndexOutOfRange"
proof -
  have inv: "sm_inv sm" by (rule Apply_inv [OF reachable_inv [OF assms(1)] assms(6)])
  then have "cur sm \<in> set (sm_Rounds sm)" by (intro cur_in) (simp add: sm_inv_def sm_basic_def)
  then have "StateMachine_DeepCopy False crypto_DeepCopy sm = Inl IndexOutOfRange"
    using assms(7) unfolding StateMachine_DeepCopy_eq [OF inv] by (auto simp: not_le)
  moreover obtain c chs where "sv_updChs s = c # chs" using assms(2) by (cases "sv_updChs s") auto
  ultimately show ?thesis
    using assms by (cases c) (simp add: applier_def sendStateMachineUpdate_def)
qed

theorem oversized_op_crashes_server_witness:
  "applier False demo_cm
     \<lparr>sv_Me = ''0'', sv_rf = mr_New, sv_dead = False, sv_sm = demo_sm, sv_updChs = [(0, [])], sv_updChIndex = 1,
      sv_resps = NewRespChannels, sv_delivered = []\<rparr>
     (zero_ApplyMsg\<lparr>am_Command := Some (EncryptedOp 1 0 [\<lparr>msg_M = [7]\<rparr>, \<lparr>msg_M = [8]\<rparr>, \<lparr>msg_M = [9]\<rparr>] 0),
       am_CommandValid := True\<rparr>) = Inl IndexOutOfRange"
proof (rule oversized_op_crashes_server)
  show "Apply False (sv_sm \<lparr>sv_Me = ''0'', sv_rf = mr_New, sv_dead = False, sv_sm = demo_sm, sv_updChs = [(0, [])],
      sv_updChIndex = 1, sv_resps = NewRespChannels, sv_delivered = []\<rparr>)
      (EncryptedOp 1 0 [\<lparr>msg_M = [7]\<rparr>, \<lparr>msg_M = [8]\<rparr>, \<lparr>msg_M = [9]\<rparr>] 0) = Inr (True, demo_oversized)"
    by (simp add: demo_oversized_def sm_eval demo_sm_def demo_round_def)
  show "sm_reachable (sv_sm \<lparr>sv_Me = ''0'', sv_rf = mr_New, sv_dead = False, sv_sm = demo_sm, sv_updChs = [(0, [])],
      sv_updChIndex = 1, sv_resps = NewRespChannels, sv_delivered = []\<rparr>)"
    by (simp add: demo_reachable)
qed (simp_all add: demo_cm_def masseyOmura_methods_def demo_oversized_def put_round_def cur_def
    demo_sm_def demo_round_def NumRoundsPersisted_def)

end
