(* ===== verification/Elimination_Queue.thy ===== *)
theory Elimination_Queue
  imports Op "HOL-Library.Product_Lexorder"
begin

text \<open>
  \<open>anonbcast/eliminationqueue.go\<close>: the queue of operations that the client still wants to commit.

  \<^item> \<open>eliminationQueue\<close> is the struct without its mutex and condition variable; \<open>eq_add\<close>, \<open>eq_get\<close> and
    \<open>eq_finish\<close> are the methods, each a critical section. \<open>eq_get\<close> is \<open>None\<close> where the Go
    method waits; \<open>eq_add\<close> also returns whether it wakes the waiters up.
  \<^item> \<open>compare\<close> orders operations; \<open>op_key\<close> is the key that it compares, and \<open>compare_key\<close> the refinement.
  \<^item> \<open>q_step\<close> drives the queue as the client does: any goroutine adds, one goroutine
    gets an operation, submits it and finishes it. \<open>pending_queue\<close> interprets \<open>total_steps\<close> on it.
\<close>

datatype opComparison = opNewer | opOlder | opEqual | opIncomparable

fun opIndex_of :: "OpType \<Rightarrow> int" where
  "opIndex_of JoinOpType = 0"
| "opIndex_of StartOpType = 1"
| "opIndex_of MessageOpType = 2"
| "opIndex_of EncryptedOpType = 3"
| "opIndex_of ScrambledOpType = 4"
| "opIndex_of DecryptedOpType = 5"
| "opIndex_of RevealOpType = 6"
| "opIndex_of AbortOpType = 7"

definition opIndex :: "'c Op \<Rightarrow> int" where
  "opIndex op = opIndex_of (Op_Type op)"

text \<open>
  The \<open>switch\<close> on the dynamic type of \<open>a\<close>: \<open>None\<close> where it falls out of the switch. The type
  assertion on \<open>b\<close> would panic for another type.
\<close>

fun compare_prev :: "'c Op \<Rightarrow> 'c Op \<Rightarrow> opComparison option go" where
  "compare_prev (EncryptedOp i r ms aprev) b =
     (case b of
        EncryptedOp i' r' ms' bprev \<Rightarrow>
          Inr (if aprev < bprev then Some opOlder else if aprev > bprev then Some opNewer else None)
      | _ \<Rightarrow> Inl (Panic ''interface conversion''))"
| "compare_prev (DecryptedOp i r ms aprev) b =
     (case b of
        DecryptedOp i' r' ms' bprev \<Rightarrow>
          Inr (if aprev < bprev then Some opOlder else if aprev > bprev then Some opNewer else None)
      | _ \<Rightarrow> Inl (Panic ''interface conversion''))"
| "compare_prev _ b = Inr None"

definition compare :: "bool \<Rightarrow> 'c Op \<Rightarrow> 'c Op \<Rightarrow> opComparison go" where
  "compare debug a b =
     (if Op_Round a < Op_Round b then Inr opOlder
      else if Op_Round a > Op_Round b then Inr opNewer
      else let aIndex = opIndex a; bIndex = opIndex b
        in if aIndex < bIndex then Inr opOlder
           else if aIndex > bIndex then Inr opNewer
           else go_bind (compare_prev a b) (\<lambda>c. case c of
               Some r \<Rightarrow> Inr r
             | None \<Rightarrow> if Op_Type a = Op_Type b then Inr opEqual
                 else go_bind (go_assert debug False) (\<lambda>_. Inr opIncomparable)))"

record 'c eliminationQueue =
  eq_ops :: "'c Op list"
  eq_lastFinished :: "'c Op"

definition eq_checkRep :: "bool \<Rightarrow> 'c eliminationQueue \<Rightarrow> unit go" where
  "eq_checkRep debug p = go_assert debug (length (eq_ops p) \<le> 1)"

definition newEliminationQueue :: "'c eliminationQueue" where
  "newEliminationQueue = \<lparr>eq_ops = [], eq_lastFinished = AbortOp (- 1)\<rparr>"

definition eq_add :: "bool \<Rightarrow> 'c eliminationQueue \<Rightarrow> 'c Op \<Rightarrow> (bool \<times> 'c eliminationQueue) go" where
  "eq_add debug p op =
     go_bind (eq_checkRep debug p) (\<lambda>_.
     go_bind (go_bind (compare debug op (eq_lastFinished p)) (\<lambda>c.
       if c \<noteq> opNewer then Inr (False, p)
       else if length (eq_ops p) \<noteq> 0 then
         go_bind (go_index (eq_ops p) 0) (\<lambda>first.
         go_bind (compare debug first op) (\<lambda>c'.
           if c' = opNewer \<or> c' = opEqual then Inr (False, p)
           else go_bind (go_store (eq_ops p) 0 op) (\<lambda>ops. Inr (True, p\<lparr>eq_ops := ops\<rparr>))))
       else Inr (True, p\<lparr>eq_ops := eq_ops p @ [op]\<rparr>))) (\<lambda>(woken, p').
     go_bind (eq_checkRep debug p') (\<lambda>_. Inr (woken, p'))))"

definition eq_get :: "bool \<Rightarrow> 'c eliminationQueue \<Rightarrow> 'c Op option go" where
  "eq_get debug p =
     go_bind (eq_checkRep debug p) (\<lambda>_.
       if length (eq_ops p) = 0 then Inr None
       else go_bind (go_index (eq_ops p) 0) (\<lambda>op.
            go_bind (eq_checkRep debug p) (\<lambda>_. Inr (Some op))))"

definition eq_finish :: "bool \<Rightarrow> 'c eliminationQueue \<Rightarrow> 'c Op \<Rightarrow> 'c eliminationQueue go" where
  "eq_finish debug p op =
     go_bind (eq_checkRep debug p) (\<lambda>_.
     go_bind (if length (eq_ops p) > 0
              then go_bind (go_index (eq_ops p) 0) (\<lambda>first.
                   go_bind (compare debug first op) (\<lambda>c.
                     Inr (if c = opEqual then p\<lparr>eq_ops := []\<rparr> else p)))
              else Inr p) (\<lambda>p.
     go_bind (compare debug (eq_lastFinished p) op) (\<lambda>c.
     let p = (if c = opOlder then p\<lparr>eq_lastFinished := op\<rparr> else p)
     in go_bind (eq_checkRep debug p) (\<lambda>_. Inr p))))"

subsection \<open>The order of operations\<close>

text \<open>Within a round: the type, and the count for the operations that carry one.\<close>

fun op_key :: "'c Op \<Rightarrow> int \<times> int \<times> int" where
  "op_key (EncryptedOp i r ms prev) = (r, 3, prev)"
| "op_key (DecryptedOp i r ms prev) = (r, 5, prev)"
| "op_key op = (Op_Round op, opIndex op, 0)"

lemma compare_key:
  "compare debug a b = Inr (if op_key a < op_key b then opOlder else if op_key b < op_key a then opNewer else opEqual)"
  by (cases a; cases b) (auto simp: compare_def opIndex_def)

lemma compare_newer: "compare debug a b = Inr opNewer \<longleftrightarrow> op_key b < op_key a"
  by (auto simp: compare_key dest: less_not_sym)

subsection \<open>The queue as the client drives it\<close>

datatype 'c q_event = QAdd "'c Op" | QGet | QFinish

record 'c q_state =
  q_queue :: "'c eliminationQueue"
  q_flight :: "'c Op option"
  q_added :: "'c Op list"

definition q_start :: "'c q_state" where
  "q_start = \<lparr>q_queue = newEliminationQueue, q_flight = None, q_added = []\<rparr>"

text \<open>
  \<open>QAdd\<close>: some goroutine adds an operation. \<open>QGet\<close> and \<open>QFinish\<close>: the goroutine \<open>submitOps\<close> takes
  an operation to submit it (again, if the last one failed), and finishes the one it submitted.
\<close>

fun q_step :: "bool \<Rightarrow> 'c q_state \<Rightarrow> 'c q_event \<Rightarrow> 'c q_state go" where
  "q_step debug s (QAdd op) =
     go_bind (eq_add debug (q_queue s) op) (\<lambda>(woken, q). Inr (s\<lparr>q_queue := q, q_added := q_added s @ [op]\<rparr>))"
| "q_step debug s QGet = go_bind (eq_get debug (q_queue s)) (\<lambda>op. Inr (s\<lparr>q_flight := op\<rparr>))"
| "q_step debug s QFinish =
     (case q_flight s of
        None \<Rightarrow> Inr s
      | Some op \<Rightarrow> go_bind (eq_finish debug (q_queue s) op) (\<lambda>q. Inr (s\<lparr>q_queue := q, q_flight := None\<rparr>)))"

definition covers :: "'c eliminationQueue \<Rightarrow> 'c Op \<Rightarrow> bool" where
  "covers q op \<longleftrightarrow> op_key op \<le> op_key (eq_lastFinished q) \<or> (\<exists>p \<in> set (eq_ops q). op_key op \<le> op_key p)"

definition q_inv :: "'c q_state \<Rightarrow> bool" where
  "q_inv s \<longleftrightarrow>
     length (eq_ops (q_queue s)) \<le> 1 \<and>
     (\<forall>p \<in> set (eq_ops (q_queue s)). p \<in> set (q_added s) \<and> op_key (eq_lastFinished (q_queue s)) < op_key p) \<and>
     (\<forall>op. q_flight s = Some op \<longrightarrow> op_key (eq_lastFinished (q_queue s)) < op_key op \<and>
        (\<exists>p \<in> set (eq_ops (q_queue s)). op_key op \<le> op_key p)) \<and>
     (\<forall>op \<in> set (q_added s). covers (q_queue s) op)"

lemma one_or_none: "length xs \<le> 1 \<longleftrightarrow> xs = [] \<or> (\<exists>x. xs = [x])"
  by (cases xs) auto

lemma q_add_inv:
  assumes "q_inv s"
  shows "\<exists>s'. q_step debug s (QAdd op) = Inr s' \<and> q_inv s'"
proof (cases "eq_ops (q_queue s)")
  case Nil
  with assms show ?thesis
    by (auto simp: eq_add_def compare_key eq_checkRep_def q_inv_def covers_def)
next
  case (Cons p ps)
  with assms have one: "eq_ops (q_queue s) = [p]" by (simp add: q_inv_def)
  with assms show ?thesis
    by (fastforce simp: eq_add_def compare_key eq_checkRep_def go_store_def q_inv_def covers_def)
qed

lemma q_get_inv:
  assumes "q_inv s"
  shows "\<exists>s'. q_step debug s QGet = Inr s' \<and> q_inv s'"
  using assms by (cases "eq_ops (q_queue s)") (auto simp: eq_get_def eq_checkRep_def q_inv_def)

lemma q_finish_inv:
  assumes "q_inv s"
  shows "\<exists>s'. q_step debug s QFinish = Inr s' \<and> q_inv s'"
proof (cases "q_flight s")
  case None
  with assms show ?thesis by simp
next
  case (Some op)
  with assms obtain p where "p \<in> set (eq_ops (q_queue s))" and "op_key op \<le> op_key p"
    by (auto simp: q_inv_def)
  moreover have "eq_ops (q_queue s) = [] \<or> (\<exists>x. eq_ops (q_queue s) = [x])"
    using assms by (simp add: q_inv_def one_or_none [symmetric])
  ultimately have one: "eq_ops (q_queue s) = [p]" and "op_key op \<le> op_key p" by auto
  with assms Some show ?thesis
    by (fastforce simp: eq_finish_def compare_key eq_checkRep_def Let_def q_inv_def covers_def)
qed

interpretation pending_queue: total_steps "q_step debug" q_inv for debug
proof
  fix s :: "'c q_state" and e
  assume "q_inv s"
  then show "\<exists>s'. q_step debug s e = Inr s' \<and> q_inv s'"
    by (cases e) (blast intro: q_add_inv q_get_inv q_finish_inv)+
qed

lemma q_start_inv: "q_inv q_start"
  by (simp add: q_inv_def q_start_def newEliminationQueue_def)

text \<open>C36: newest wins and nothing is lost. However additions, gets and finishes interleave, with the
  assertions on or off, the queue never panics and holds at most one operation. What it
  holds was added and is newer than everything finished, so a finished operation is never
  submitted again, and every operation ever added is at most as new as the pending one or the
  last finished one.\<close>

theorem queue_newest_wins:
  "\<exists>s. go_run (q_step debug) q_start events = Inr s \<and>
     length (eq_ops (q_queue s)) \<le> 1 \<and>
     (\<forall>p \<in> set (eq_ops (q_queue s)). p \<in> set (q_added s) \<and> compare debug p (eq_lastFinished (q_queue s)) = Inr opNewer) \<and>
     (\<forall>op \<in> set (q_added s).
        compare debug op (eq_lastFinished (q_queue s)) \<noteq> Inr opNewer \<or>
        (\<exists>p \<in> set (eq_ops (q_queue s)). compare debug op p \<noteq> Inr opNewer))"
proof -
  obtain s where "go_run (q_step debug) q_start events = Inr s" and inv: "q_inv s"
    using pending_queue.run_total [OF q_start_inv] by blast
  then show ?thesis
    unfolding compare_newer not_less q_inv_def covers_def by blast
qed

theorem queue_newest_wins_witness:
  "\<exists>s. go_run (q_step True) q_start [QAdd (JoinOp 7 0 :: nat Op), QGet, QAdd (AbortOp 0), QAdd (JoinOp 7 0), QFinish] = Inr s \<and>
     eq_ops (q_queue s) = [AbortOp 0] \<and> compare True (AbortOp 0) (eq_lastFinished (q_queue s)) = Inr opNewer"
proof -
  let ?events = "[QAdd (JoinOp 7 0 :: nat Op), QGet, QAdd (AbortOp 0), QAdd (JoinOp 7 0), QFinish]"
  obtain s where run: "go_run (q_step True) q_start ?events = Inr s"
    and newer: "\<forall>p \<in> set (eq_ops (q_queue s)). compare True p (eq_lastFinished (q_queue s)) = Inr opNewer"
    using queue_newest_wins [of True ?events] by blast
  have "eq_ops (q_queue s) = [AbortOp 0]"
    using run by (auto simp: q_start_def newEliminationQueue_def eq_add_def eq_get_def eq_finish_def eq_checkRep_def
        compare_key opIndex_def go_store_def Let_def)
  with run newer show ?thesis by simp
qed

end
