(* ===== verification/Last_State_Machine.thy ===== *)
theory Last_State_Machine
  imports Machine_Progress
begin

text \<open>
  \<open>anonbcast/laststatemachine.go\<close>: the last version of the state machine that a client has seen.

  The methods are critical sections on the struct; \<open>time.Now()\<close> is an argument. The client
  calls \<open>set\<close> from one goroutine per update, so calls may run in any order:
  \<open>lsm_newest_version\<close> shows that the newest version wins in every order.
\<close>

record 'c lastStateMachine =
  lsm_sm :: "'c StateMachine"
  lsm_version :: int
  lsm_timestamp :: int
  lsm_phaseTimestamp :: int

text \<open>The zero value of the state machine struct, before \<open>initRound(0)\<close>.\<close>

definition zero_StateMachine :: "'c StateMachine" where
  "zero_StateMachine = \<lparr>sm_Round = 0, sm_Rounds = replicate 3 zero_RoundInfo\<rparr>"

definition newLastStateMachine :: "bool \<Rightarrow> int \<Rightarrow> int \<Rightarrow> 'c lastStateMachine go" where
  "newLastStateMachine debug now now' =
     go_bind (initRound debug zero_StateMachine 0) (\<lambda>sm.
       Inr \<lparr>lsm_sm = sm, lsm_version = - 1, lsm_timestamp = now, lsm_phaseTimestamp = now'\<rparr>)"

definition lsm_set :: "bool \<Rightarrow> int \<Rightarrow> 'c lastStateMachine \<Rightarrow> 'c StateMachine \<Rightarrow> int \<Rightarrow> 'c lastStateMachine go" where
  "lsm_set debug now l sm version =
     (if version > lsm_version l then
        let l = l\<lparr>lsm_version := version, lsm_timestamp := now\<rparr>
        in go_bind (if sm_Round sm \<noteq> sm_Round (lsm_sm l) then Inr True
                    else go_bind (CurrentRoundInfo debug sm) (\<lambda>ri.
                         go_bind (CurrentRoundInfo debug (lsm_sm l)) (\<lambda>ri'.
                           Inr (ri_Phase ri \<noteq> ri_Phase ri')))) (\<lambda>changed.
           Inr ((if changed then l\<lparr>lsm_phaseTimestamp := lsm_timestamp l\<rparr> else l)\<lparr>lsm_sm := sm\<rparr>))
      else Inr l)"

definition lsm_get :: "'c lastStateMachine \<Rightarrow> 'c StateMachine" where
  "lsm_get l = lsm_sm l"

definition lsm_deepCopy :: "bool \<Rightarrow> ('c \<Rightarrow> 'c) \<Rightarrow> 'c lastStateMachine \<Rightarrow> 'c lastStateMachine go" where
  "lsm_deepCopy debug crypto_copy l =
     go_bind (StateMachine_DeepCopy debug crypto_copy (lsm_sm l)) (\<lambda>sm.
       Inr \<lparr>lsm_sm = sm, lsm_version = lsm_version l, lsm_timestamp = lsm_timestamp l,
            lsm_phaseTimestamp = lsm_phaseTimestamp l\<rparr>)"

text \<open>A call of \<open>set\<close>: the time at which it gets the lock, the state and its version.\<close>

definition lsm_step :: "'c lastStateMachine \<Rightarrow> int \<times> 'c StateMachine \<times> int \<Rightarrow> 'c lastStateMachine go" where
  "lsm_step l = (\<lambda>(now, sm, version). lsm_set False now l sm version)"

definition lsm_le :: "'c lastStateMachine \<Rightarrow> 'c lastStateMachine \<Rightarrow> bool" where
  "lsm_le l l' \<longleftrightarrow> lsm_version l < lsm_version l' \<or> l' = l"

lemma lsm_set_spec:
  "\<exists>l'. lsm_set False now l sm version = Inr l' \<and>
     (if version > lsm_version l
      then lsm_version l' = version \<and> lsm_sm l' = sm \<and> lsm_timestamp l' = now \<and>
           lsm_phaseTimestamp l' \<in> {now, lsm_phaseTimestamp l}
      else l' = l)"
  by (auto simp: lsm_set_def Let_def CurrentRoundInfo_def split: sum.split)

interpretation last_update: ordered_steps lsm_step "\<lambda>l. True" lsm_le
proof
  fix l :: "'c lastStateMachine" and e
  show "\<exists>l'. lsm_step l e = Inr l' \<and> True"
    using lsm_set_spec by (cases e) (simp add: lsm_step_def, blast)
next
  fix l l' :: "'c lastStateMachine" and e
  assume step: "lsm_step l e = Inr l'"
  obtain now sm version where e: "e = (now, sm, version)" by (cases e)
  from lsm_set_spec [of now l sm version] step show "lsm_le l l'"
    by (auto simp: lsm_step_def lsm_le_def e split: if_splits)
qed (auto simp: lsm_le_def)

lemma lsm_run:
  "go_run lsm_step l calls = Inr l' \<Longrightarrow>
     (lsm_sm l', lsm_version l') \<in> insert (lsm_sm l, lsm_version l) (snd ` set calls) \<and>
     (\<forall>(now, sm, version) \<in> set calls. version \<le> lsm_version l') \<and> lsm_version l \<le> lsm_version l'"
proof (induction calls arbitrary: l)
  case (Cons c calls)
  obtain now sm version where c: "c = (now, sm, version)" by (cases c)
  obtain l1 where l1: "lsm_step l c = Inr l1" and
    spec: "if version > lsm_version l then lsm_version l1 = version \<and> lsm_sm l1 = sm else l1 = l"
    using lsm_set_spec [of now l sm version] by (auto simp: c lsm_step_def split: if_splits)
  with Cons.prems have "go_run lsm_step l1 calls = Inr l'" by simp
  from Cons.IH [OF this] spec show ?case by (auto simp: c split: if_splits)
qed auto

text \<open>C37: the newest version wins, whatever the order in which the goroutines call \<open>set\<close>. After any
  calls on a new store, in any order and with distinct versions from 0 on, \<open>get\<close> returns the state that
  came with the largest version.\<close>

theorem lsm_newest_version:
  assumes "newLastStateMachine False t t' = Inr l0" and "calls \<noteq> []"
    and "\<forall>(now, sm, version) \<in> set calls. 0 \<le> version"
    and "\<forall>(now, sm, version) \<in> set calls. \<forall>(now', sm', version') \<in> set calls. version = version' \<longrightarrow> sm = sm'"
    and "(now, sm, version) \<in> set calls" and "\<forall>(now', sm', version') \<in> set calls. version' \<le> version"
  shows "\<exists>l. go_run lsm_step l0 calls = Inr l \<and> lsm_get l = sm \<and> lsm_version l = version"
proof -
  obtain l where l: "go_run lsm_step l0 calls = Inr l" using last_update.run_total [of l0 calls] by auto
  have v0: "lsm_version l0 = - 1"
    using assms(1) by (auto simp: newLastStateMachine_def elim!: go_bindE)
  have "version \<le> lsm_version l" using lsm_run [OF l] assms(5) by auto
  moreover have "(lsm_sm l, lsm_version l) \<in> snd ` set calls"
    using lsm_run [OF l] v0 calculation assms(3,5) by auto
  ultimately show ?thesis using l assms(4-6) by (fastforce simp: lsm_get_def)
qed

theorem lsm_newest_version_witness:
  "\<exists>l. go_run lsm_step \<lparr>lsm_sm = sm_init, lsm_version = - 1, lsm_timestamp = 10, lsm_phaseTimestamp = 10\<rparr>
      [(20, demo_aborted, 1), (30, demo_sm, 0)] = Inr l \<and> lsm_get l = demo_aborted \<and> lsm_version l = 1"
  by (rule lsm_newest_version [of 10 10 _ _ 20])
    (simp_all add: newLastStateMachine_def zero_StateMachine_def initRound_def sm_init_def
      NumRoundsPersisted_def numeral_3_eq_3 go_store_def)

end
