(* ===== verification/Client.thy ===== *)
theory Client
  imports Server Elimination_Queue Last_State_Machine
begin

text \<open>
  \<open>anonbcast/client.go\<close>: the client that follows the protocol for one user.

  \<^item> \<open>Client\<close> is the struct; \<open>cl_resCh\<close> is \<open>None\<close> for the nil channel and otherwise the results sent on it,
    \<open>cl_updClosed\<close> records the call of \<open>closeUpdCh\<close>. The local variables of the goroutine \<open>readUpdates\<close>
    are the record \<open>ReadState\<close>.
  \<^item> \<open>readUpdates\<close> is one turn of that loop. Everything it starts with \<open>go\<close> is a \<open>task\<close> it returns, and
    \<open>run_task\<close> is the body of a task: tasks may run in any order and at any later time.
    \<open>submitOps\<close> and \<open>aborter\<close> are one turn each of the other two goroutines; \<open>submitOps_reply\<close> is the part of a turn
    that follows the remote call, for turns that others interrupt.
  \<^item> The methods of the crypto value are the record \<open>cm\<close>; SHA-256, the current time, the bytes read from
    the random source, the choices of \<open>rand.Shuffle\<close>, the message of the user and the replies to
    remote calls are arguments.
\<close>

record ClientConfig =
  cfg_MessageTimeout :: int
  cfg_ProtocolTimeout :: int
  cfg_MessageSize :: int

text \<open>The reasons that \<open>sendRoundResult\<close> reports in \<open>MaliciousError\<close>.\<close>

datatype malicious =
    RevealKeySubmitted
  | NumberOfMessagesChanged int int
  | MessagesChanged
  | RevealKeyHashMismatch
  | HeaderInvalid
  | HeaderDuplicated

record RoundResult =
  rr_Round :: int
  rr_Succeeded :: bool
  rr_Messages :: "bytes list"
  rr_MaliciousError :: "malicious option"

record 'c Client =
  cl_Id :: uuid
  cl_Config :: ClientConfig
  cl_serverId :: string
  cl_dead :: bool
  cl_lastUpdate :: "'c lastStateMachine"
  cl_updClosed :: bool
  cl_active :: bool
  cl_leaving :: bool
  cl_currConf :: "string list"
  cl_lastKnownLeaderInd :: nat
  cl_resCh :: "RoundResult list option"
  cl_pending :: "'c eliminationQueue"

text \<open>\<open>me\<close>: the index of the client among the participants, -1 if it is not there.\<close>

fun me_from :: "nat \<Rightarrow> uuid \<Rightarrow> uuid list \<Rightarrow> int \<Rightarrow> int" where
  "me_from i pid [] me = me"
| "me_from i pid (p # ps) me = me_from (Suc i) pid ps (if p = pid then int i else me)"

definition me_index :: "uuid \<Rightarrow> 'c RoundInfo \<Rightarrow> int" where
  "me_index pid ri = me_from 0 pid (ri_Participants ri) (- 1)"

text \<open>A slice indexed by \<open>me\<close>, which may be negative.\<close>

definition index_me :: "'a list \<Rightarrow> int \<Rightarrow> 'a go" where
  "index_me xs me = (if me < 0 then Inl IndexOutOfRange else go_index xs (nat me))"

text \<open>A method call on the crypto value of a round: a nil interface panics.\<close>

definition the_crypto :: "'c RoundInfo \<Rightarrow> 'c go" where
  "the_crypto ri = (case ri_Crypto ri of None \<Rightarrow> Inl NilDereference | Some crypto \<Rightarrow> Inr crypto)"

definition pending_add :: "bool \<Rightarrow> 'c Client \<Rightarrow> 'c Op \<Rightarrow> 'c Client go" where
  "pending_add debug c op =
     go_bind (eq_add debug (cl_pending c) op) (\<lambda>(woken, p). Inr (c\<lparr>cl_pending := p\<rparr>))"

subsection \<open>Message headers\<close>

definition messageHeaderLength :: nat where
  "messageHeaderLength = 16"

definition messageHeader :: "bool \<Rightarrow> reader \<Rightarrow> bytes go" where
  "messageHeader debug random =
     (let h = replicate 8 13;
          r = go_copy (replicate 8 0) (take 8 random)
      in go_bind (go_assert debug (8 \<le> length random)) (\<lambda>_.
         go_bind (go_assert debug (length (h @ r) = messageHeaderLength)) (\<lambda>_. Inr (h @ r))))"

text \<open>The loop over the first 8 bytes, from index \<open>i\<close> with \<open>n\<close> to go; \<open>True\<close> is the nil error.\<close>

fun verifyHeader_from :: "nat \<Rightarrow> nat \<Rightarrow> bytes \<Rightarrow> bool go" where
  "verifyHeader_from i 0 h = Inr True"
| "verifyHeader_from i (Suc n) h =
     go_bind (go_index h i) (\<lambda>b. if b \<noteq> 13 then Inr False else verifyHeader_from (Suc i) n h)"

definition verifyHeader :: "bool \<Rightarrow> bytes \<Rightarrow> bool go" where
  "verifyHeader debug h =
     go_bind (go_assert debug (length h = 16)) (\<lambda>_. verifyHeader_from 0 8 h)"

definition messageWithHeader :: "bool \<Rightarrow> reader \<Rightarrow> bytes \<Rightarrow> bytes go" where
  "messageWithHeader debug random m = go_bind (messageHeader debug random) (\<lambda>h. Inr (h @ m))"

subsection \<open>The steps of the protocol\<close>

text \<open>
  The helper methods \<open>prepare\<close> to \<open>reveal\<close> end by adding an operation to the queue, or return without one.
  Each is the operation it adds, if any; \<open>run_task\<close> below adds it.
\<close>

definition cl_prepare :: "'c Client \<Rightarrow> int \<Rightarrow> 'c RoundInfo \<Rightarrow> int \<Rightarrow> 'c Op option go" where
  "cl_prepare c round ri me = Inr (if me = - 1 then Some (JoinOp (cl_Id c) round) else None)"

definition cl_abort :: "int \<Rightarrow> 'c Op" where
  "cl_abort round = AbortOp round"

text \<open>
  \<open>submit\<close>: the message of the user is \<open>None\<close> when the timer wins; \<open>random\<close> and \<open>random'\<close> are the
  bytes of the two headers that may be drawn.
\<close>

definition cl_submit :: "bool \<Rightarrow> 'c crypto_methods \<Rightarrow> (bytes \<Rightarrow> bytes) \<Rightarrow> bytes option \<Rightarrow> reader \<Rightarrow> reader \<Rightarrow>
    'c Client \<Rightarrow> int \<Rightarrow> 'c RoundInfo \<Rightarrow> int \<Rightarrow> PrivateKey \<Rightarrow> PrivateKey \<Rightarrow> 'c Op option go" where
  "cl_submit debug cm sha256 user random random' c round ri me encryptKey revealKey =
     go_bind (index_me (ri_Messages ri) me) (\<lambda>mine.
       if \<not> Msg_Nil mine then Inr None
       else let msg = (case user of None \<Rightarrow> [] | Some m \<Rightarrow> m)
       in go_bind (the_crypto ri) (\<lambda>crypto.
          go_bind (messageWithHeader debug random msg) (\<lambda>hm.
          go_bind (cc_PrepareMsg cm crypto hm) (\<lambda>r.
          go_bind (case r of
              Inl err \<Rightarrow>
                go_bind (go_assert debug (int (length msg) > cfg_MessageSize (cl_Config c))) (\<lambda>_.
                go_bind (messageWithHeader debug random' []) (\<lambda>hm'.
                go_bind (cc_PrepareMsg cm crypto hm') (\<lambda>r'.
                  case r' of
                    Inl err' \<Rightarrow> go_bind (go_assert debug False) (\<lambda>_. Inr NilMsg)
                  | Inr m \<Rightarrow> Inr m)))
            | Inr m \<Rightarrow>
                go_bind (go_assert debug (int (length msg) \<le> cfg_MessageSize (cl_Config c))) (\<lambda>_. Inr m)) (\<lambda>m.
            let encryptedM = cc_Encrypt cm crypto encryptKey m
            in Inr (Some (MessageOp (cl_Id c) round encryptedM (PrivateKey_Hash sha256 revealKey))))))))"

text \<open>The loop of \<open>encrypt\<close>: the own message, at index \<open>me\<close>, is copied, every other one encrypted.\<close>

fun encrypt_others :: "'c crypto_methods \<Rightarrow> 'c option \<Rightarrow> PrivateKey \<Rightarrow> int \<Rightarrow> nat \<Rightarrow> Msg list \<Rightarrow> Msg list go" where
  "encrypt_others cm crypto key me i [] = Inr []"
| "encrypt_others cm crypto key me i (m # ms) =
     go_bind (if int i = me then Inr (Msg_DeepCopy m)
              else case crypto of None \<Rightarrow> Inl NilDereference | Some cr \<Rightarrow> Inr (cc_Encrypt cm cr key m)) (\<lambda>m'.
     go_bind (encrypt_others cm crypto key me (Suc i) ms) (\<lambda>ms'. Inr (m' # ms')))"

definition cl_encrypt :: "'c crypto_methods \<Rightarrow> 'c Client \<Rightarrow> int \<Rightarrow> 'c RoundInfo \<Rightarrow> int \<Rightarrow> PrivateKey \<Rightarrow> 'c Op option go" where
  "cl_encrypt cm c round ri me encryptKey =
     go_bind (index_me (ri_Encrypted ri) me) (\<lambda>done.
       if done then Inr None
       else let prev = count_true (ri_Encrypted ri)
       in go_bind (encrypt_others cm (ri_Crypto ri) encryptKey me 0 (ri_Messages ri)) (\<lambda>ms.
            Inr (Some (EncryptedOp (cl_Id c) round ms (int prev)))))"

text \<open>\<open>swap\<close> is the function that \<open>scramble\<close> gives to \<open>rand.Shuffle\<close>. \<open>Shuffle\<close> is that function of the Go library: Fisher and Yates, from
  the last index down; \<open>draw i\<close> chooses among the first \<open>i + 1\<close>.\<close>

definition swap :: "nat \<Rightarrow> nat \<Rightarrow> 'a list \<Rightarrow> 'a list" where
  "swap i j xs = xs[i := xs ! j, j := xs ! i]"

fun shuffle_from :: "(nat \<Rightarrow> nat) \<Rightarrow> nat \<Rightarrow> 'a list \<Rightarrow> 'a list" where
  "shuffle_from draw 0 xs = xs"
| "shuffle_from draw (Suc i) xs = shuffle_from draw i (swap (Suc i) (draw (Suc i) mod Suc (Suc i)) xs)"

definition Shuffle :: "(nat \<Rightarrow> nat) \<Rightarrow> 'a list \<Rightarrow> 'a list" where
  "Shuffle draw xs = shuffle_from draw (length xs - 1) xs"

definition cl_scramble :: "'c crypto_methods \<Rightarrow> (nat \<Rightarrow> nat) \<Rightarrow> 'c Client \<Rightarrow> int \<Rightarrow> 'c RoundInfo \<Rightarrow> int \<Rightarrow>
    PrivateKey \<Rightarrow> PrivateKey \<Rightarrow> 'c Op option go" where
  "cl_scramble cm draw c round ri me scrambleKey revealKey =
     go_bind (index_me (ri_Scrambled ri) me) (\<lambda>done.
       if done then Inr None
       else go_bind (go_map (\<lambda>m. go_bind (the_crypto ri) (\<lambda>crypto.
              Inr (cc_Encrypt cm crypto revealKey (cc_Encrypt cm crypto scrambleKey m)))) (ri_Messages ri)) (\<lambda>ms.
            Inr (Some (ScrambledOp (cl_Id c) round (Shuffle draw ms)))))"

definition cl_decrypt :: "'c crypto_methods \<Rightarrow> 'c Client \<Rightarrow> int \<Rightarrow> 'c RoundInfo \<Rightarrow> int \<Rightarrow>
    PrivateKey \<Rightarrow> PrivateKey \<Rightarrow> 'c Op option go" where
  "cl_decrypt cm c round ri me scrambleKey encryptKey =
     go_bind (index_me (ri_Decrypted ri) me) (\<lambda>done.
       if done then Inr None
       else let prev = count_true (ri_Decrypted ri)
       in go_bind (go_map (\<lambda>m. go_bind (the_crypto ri) (\<lambda>crypto.
              Inr (cc_Decrypt cm crypto encryptKey (cc_Decrypt cm crypto scrambleKey m)))) (ri_Messages ri)) (\<lambda>ms.
            Inr (Some (DecryptedOp (cl_Id c) round ms (int prev)))))"

definition cl_reveal :: "'c Client \<Rightarrow> int \<Rightarrow> 'c RoundInfo \<Rightarrow> int \<Rightarrow> PrivateKey \<Rightarrow> 'c Op option go" where
  "cl_reveal c round ri me revealKey =
     go_bind (index_me (ri_RevealedKeys ri) me) (\<lambda>k.
       Inr (if PrivateKey_Nil k then Some (RevealOp (cl_Id c) round revealKey) else None))"

subsection \<open>Round results\<close>

definition participated :: "uuid \<Rightarrow> 'c RoundInfo \<Rightarrow> bool" where
  "participated pid ri = list_ex (\<lambda>p. p = pid) (ri_Participants ri)"

definition send_result :: "'c Client \<Rightarrow> RoundResult \<Rightarrow> 'c Client" where
  "send_result c result =
     (case cl_resCh c of None \<Rightarrow> c | Some rs \<Rightarrow> c\<lparr>cl_resCh := Some (rs @ [result])\<rparr>)"

definition failed_result :: "int \<Rightarrow> malicious option \<Rightarrow> RoundResult" where
  "failed_result round err = \<lparr>rr_Round = round, rr_Succeeded = False, rr_Messages = [], rr_MaliciousError = err\<rparr>"

text \<open>The loop that compares the messages with those seen before the reveal: did one change?\<close>

fun messages_changed :: "nat \<Rightarrow> Msg list \<Rightarrow> Msg list \<Rightarrow> bool go" where
  "messages_changed i before [] = Inr False"
| "messages_changed i before (m # ms) =
     go_bind (go_index before i) (\<lambda>b. if \<not> Msg_Equal m b then Inr True else messages_changed (Suc i) before ms)"

text \<open>The inner loop: check the hash of every revealed key, and decrypt with it; \<open>None\<close> at a wrong hash.\<close>

fun decrypt_revealed :: "'c crypto_methods \<Rightarrow> (bytes \<Rightarrow> bytes) \<Rightarrow> 'c option \<Rightarrow> bytes list \<Rightarrow> nat \<Rightarrow> PrivateKey list \<Rightarrow>
    Msg \<Rightarrow> Msg option go" where
  "decrypt_revealed cm sha256 crypto hashes i [] om = Inr (Some om)"
| "decrypt_revealed cm sha256 crypto hashes i (key # keys) om =
     go_bind (go_index hashes i) (\<lambda>hash.
       if \<not> HashEquals sha256 key hash then Inr None
       else case crypto of
         None \<Rightarrow> Inl NilDereference
       | Some cr \<Rightarrow> decrypt_revealed cm sha256 crypto hashes (Suc i) keys (cc_Decrypt cm cr key om))"

fun extract_messages :: "'c crypto_methods \<Rightarrow> (bytes \<Rightarrow> bytes) \<Rightarrow> 'c RoundInfo \<Rightarrow> bytes list \<Rightarrow> Msg list \<Rightarrow>
    bytes list option go" where
  "extract_messages cm sha256 ri hashes [] = Inr (Some [])"
| "extract_messages cm sha256 ri hashes (m # ms) =
     go_bind (decrypt_revealed cm sha256 (ri_Crypto ri) hashes 0 (ri_RevealedKeys ri) m) (\<lambda>r.
       case r of
         None \<Rightarrow> Inr None
       | Some om \<Rightarrow>
           go_bind (the_crypto ri) (\<lambda>crypto.
           go_bind (cc_ExtractMsg cm crypto om) (\<lambda>plain.
           go_bind (extract_messages cm sha256 ri hashes ms) (\<lambda>rest.
             Inr (case rest of None \<Rightarrow> None | Some plains \<Rightarrow> Some (plain # plains))))))"

text \<open>
  The loop that checks the headers and splits the messages; \<open>None\<close> at an invalid header. The slice
  expression \<open>m[:16]\<close> panics for a shorter message: the slices come from \<open>big.Int.Bytes\<close>, whose
  capacity is their length.
\<close>

fun verify_messages :: "bool \<Rightarrow> bytes list \<Rightarrow> (bytes list \<times> bytes list) option go" where
  "verify_messages debug [] = Inr (Some ([], []))"
| "verify_messages debug (m # ms) =
     (if length m < messageHeaderLength then Inl SliceBoundsOutOfRange
      else go_bind (verifyHeader debug (take messageHeaderLength m)) (\<lambda>ok.
        if \<not> ok then Inr None
        else go_bind (verify_messages debug ms) (\<lambda>rest.
          Inr (case rest of
                 None \<Rightarrow> None
               | Some (verified, headers) \<Rightarrow>
                   if length m > messageHeaderLength
                   then Some (drop messageHeaderLength m # verified, take messageHeaderLength m # headers)
                   else Some (verified, headers)))))"

fun header_equal :: "bytes \<Rightarrow> bytes \<Rightarrow> bool go" where
  "header_equal [] h2 = Inr True"
| "header_equal (b # h1) [] = Inl IndexOutOfRange"
| "header_equal (b # h1) (b2 # h2) = go_bind (header_equal h1 h2) (\<lambda>e. Inr (b = b2 \<and> e))"

fun duplicate_of :: "bool \<Rightarrow> bytes \<Rightarrow> bytes list \<Rightarrow> bool go" where
  "duplicate_of debug h1 [] = Inr False"
| "duplicate_of debug h1 (h2 # hs) =
     go_bind (go_assert debug (length h1 = length h2)) (\<lambda>_.
     go_bind (header_equal h1 h2) (\<lambda>e. if e then Inr True else duplicate_of debug h1 hs))"

fun duplicate_header :: "bool \<Rightarrow> bytes list \<Rightarrow> bool go" where
  "duplicate_header debug [] = Inr False"
| "duplicate_header debug (h # hs) =
     go_bind (duplicate_of debug h hs) (\<lambda>d. if d then Inr True else duplicate_header debug hs)"

text \<open>The part of \<open>sendRoundResult\<close> after the checks on the phase: the result of a round that is done.\<close>

definition done_result :: "bool \<Rightarrow> 'c crypto_methods \<Rightarrow> (bytes \<Rightarrow> bytes) \<Rightarrow> 'c RoundInfo \<Rightarrow> int \<Rightarrow> bytes list \<Rightarrow>
    Msg list \<Rightarrow> nat \<Rightarrow> RoundResult go" where
  "done_result debug cm sha256 ri round hashes messagesBeforeReveal numberWhenScrambled =
     (if length (ri_Messages ri) \<noteq> numberWhenScrambled
      then Inr (failed_result round (Some (NumberOfMessagesChanged (int numberWhenScrambled) (int (length (ri_Messages ri))))))
      else go_bind (messages_changed 0 messagesBeforeReveal (ri_Messages ri)) (\<lambda>changed.
        if changed then Inr (failed_result round (Some MessagesChanged))
        else go_bind (extract_messages cm sha256 ri hashes (ri_Messages ri)) (\<lambda>r.
          case r of
            None \<Rightarrow> Inr (failed_result round (Some RevealKeyHashMismatch))
          | Some messages \<Rightarrow>
              go_bind (verify_messages debug messages) (\<lambda>v.
                case v of
                  None \<Rightarrow> Inr (failed_result round (Some HeaderInvalid))
                | Some (verified, headers) \<Rightarrow>
                    go_bind (duplicate_header debug headers) (\<lambda>dup.
                      Inr (if dup then failed_result round (Some HeaderDuplicated)
                           else \<lparr>rr_Round = round, rr_Succeeded = (ri_Phase ri = DonePhase),
                                 rr_Messages = verified, rr_MaliciousError = None\<rparr>))))))"

definition sendRoundResult :: "bool \<Rightarrow> 'c crypto_methods \<Rightarrow> (bytes \<Rightarrow> bytes) \<Rightarrow> 'c Client \<Rightarrow> 'c StateMachine \<Rightarrow> int \<Rightarrow>
    bytes list \<Rightarrow> int \<Rightarrow> Msg list \<Rightarrow> nat \<Rightarrow> 'c Client go" where
  "sendRoundResult debug cm sha256 c sm round revealKeyHashes revealKeyHashesRound messagesBeforeReveal numberWhenScrambled =
     go_bind (case GetRoundInfo sm (round - 1) of
         Inl err \<Rightarrow> go_bind (go_assert debug False) (\<lambda>_. Inr zero_RoundInfo)
       | Inr ri \<Rightarrow> Inr ri) (\<lambda>ri.
     go_bind (go_assert debug (ri_Phase ri = DonePhase \<or> ri_Phase ri = FailedPhase)) (\<lambda>_.
       if \<not> participated (cl_Id c) ri then Inr c
       else if ri_Phase ri = FailedPhase
       then Inr (send_result c (failed_result (round - 1)
              (if revealKeyHashesRound = round - 1 then Some RevealKeySubmitted else None)))
       else go_bind (go_assert debug (revealKeyHashesRound = round - 1)) (\<lambda>_.
            go_bind (done_result debug cm sha256 ri (round - 1) revealKeyHashes messagesBeforeReveal numberWhenScrambled)
              (\<lambda>result. Inr (send_result c result)))))"

subsection \<open>Reading updates\<close>

record 'c ReadState =
  rs_lastResChSend :: int
  rs_lastMessageRound :: int
  rs_version :: int
  rs_encryptKey :: PrivateKey
  rs_scrambleKey :: PrivateKey
  rs_revealKey :: PrivateKey
  rs_lastKeyGen :: int
  rs_lastRevealKeyHashes :: "bytes list"
  rs_lastMessagesBeforeReveal :: "Msg list"
  rs_lastRevealKeyHashesRound :: int
  rs_lastNumberOfMessageWhenScrambled :: nat
  rs_lastScrambledRound :: int
  rs_lastSm :: "'c StateMachine"

definition initReadState :: "bool \<Rightarrow> 'c ReadState go" where
  "initReadState debug =
     go_bind (initRound debug zero_StateMachine 0) (\<lambda>lastSm.
       Inr \<lparr>rs_lastResChSend = - 1, rs_lastMessageRound = - 1, rs_version = 0,
            rs_encryptKey = NilPrivateKey, rs_scrambleKey = NilPrivateKey, rs_revealKey = NilPrivateKey,
            rs_lastKeyGen = - 1, rs_lastRevealKeyHashes = [], rs_lastMessagesBeforeReveal = [],
            rs_lastRevealKeyHashesRound = - 1, rs_lastNumberOfMessageWhenScrambled = 0,
            rs_lastScrambledRound = - 1, rs_lastSm = lastSm\<rparr>)"

datatype 'c task =
    TSet "'c StateMachine" int
  | TSendRoundResult "'c StateMachine" int "bytes list" int "Msg list" nat
  | TPrepare int "'c RoundInfo" int
  | TSubmit int "'c RoundInfo" int PrivateKey PrivateKey
  | TEncrypt int "'c RoundInfo" int PrivateKey
  | TScramble int "'c RoundInfo" int PrivateKey PrivateKey
  | TDecrypt int "'c RoundInfo" int PrivateKey PrivateKey
  | TReveal int "'c RoundInfo" int PrivateKey
  | TAbort int

text \<open>The loops that copy the hashes and the messages.\<close>

definition copy_hashes :: "bytes list \<Rightarrow> bytes list" where
  "copy_hashes hashes = map (\<lambda>hash. go_copy (replicate (length hash) 0) hash) hashes"

definition copy_messages :: "Msg list \<Rightarrow> Msg list" where
  "copy_messages ms = map Msg_DeepCopy ms"

text \<open>The cases of the \<open>switch\<close> on the phase. Each returns the new local variables and the goroutines started.\<close>

definition read_prepare :: "bool \<Rightarrow> 'c Client \<Rightarrow> 'c ReadState \<Rightarrow> 'c StateMachine \<Rightarrow> 'c RoundInfo \<Rightarrow> int \<Rightarrow>
    ('c ReadState \<times> 'c task list) go" where
  "read_prepare debug c rs sm ri me =
     (let round = sm_Round sm
      in go_bind (if round - 1 > rs_lastResChSend rs then
             go_bind (go_assert debug (rs_lastResChSend rs = round - 2)) (\<lambda>_.
               Inr (rs\<lparr>rs_lastResChSend := round - 1\<rparr>,
                 [TSendRoundResult sm round (copy_hashes (rs_lastRevealKeyHashes rs)) (rs_lastRevealKeyHashesRound rs)
                    (copy_messages (rs_lastMessagesBeforeReveal rs)) (rs_lastNumberOfMessageWhenScrambled rs)]))
           else Inr (rs, [])) (\<lambda>(rs, tasks).
         Inr (rs, tasks @ (if cl_active c \<and> \<not> cl_leaving c then [TPrepare round ri me] else []))))"

definition read_submit :: "bool \<Rightarrow> 'c crypto_methods \<Rightarrow> 'c Client \<Rightarrow> 'c ReadState \<Rightarrow> reader \<Rightarrow> int \<Rightarrow> 'c RoundInfo \<Rightarrow> int \<Rightarrow>
    ('c ReadState \<times> 'c task list \<times> reader) go" where
  "read_submit debug cm c rs random round ri me =
     (if \<not> cl_active c \<or> me = - 1 then Inr (rs, [], random)
      else go_bind (if round > rs_lastKeyGen rs then
             go_bind (the_crypto ri) (\<lambda>crypto.
               case cc_Verify cm crypto (cfg_MessageSize (cl_Config c) + int messageHeaderLength) of
                 Some err \<Rightarrow> Inr (None, random)
               | None \<Rightarrow>
                   go_bind (cc_GenKey cm crypto debug random) (\<lambda>(encryptKey, random).
                   go_bind (cc_GenKey cm crypto debug random) (\<lambda>(scrambleKey, random).
                   go_bind (cc_GenKey cm crypto debug random) (\<lambda>(revealKey, random).
                     Inr (Some (rs\<lparr>rs_encryptKey := encryptKey, rs_scrambleKey := scrambleKey,
                       rs_revealKey := revealKey, rs_lastKeyGen := round\<rparr>), random)))))
           else Inr (Some rs, random)) (\<lambda>(r, random).
         case r of
           None \<Rightarrow> Inr (rs, [TAbort round], random)
         | Some rs \<Rightarrow>
             if round > rs_lastMessageRound rs
             then Inr (rs\<lparr>rs_lastMessageRound := round\<rparr>,
               [TSubmit round ri me (PrivateKey_DeepCopy (rs_encryptKey rs)) (PrivateKey_DeepCopy (rs_revealKey rs))], random)
             else Inr (rs, [], random)))"

definition read_scramble :: "'c Client \<Rightarrow> 'c ReadState \<Rightarrow> int \<Rightarrow> 'c RoundInfo \<Rightarrow> int \<Rightarrow> 'c ReadState \<times> 'c task list" where
  "read_scramble c rs round ri me =
     (if \<not> cl_active c \<or> me = - 1 then (rs, [])
      else if round > rs_lastScrambledRound rs then
        if me \<noteq> int (numScrambled ri) then (rs, [])
        else (rs\<lparr>rs_lastNumberOfMessageWhenScrambled := length (ri_Messages ri), rs_lastScrambledRound := round\<rparr>,
              [TScramble round ri me (PrivateKey_DeepCopy (rs_scrambleKey rs)) (PrivateKey_DeepCopy (rs_revealKey rs))])
      else (rs, []))"

definition read_reveal :: "'c Client \<Rightarrow> 'c ReadState \<Rightarrow> int \<Rightarrow> 'c RoundInfo \<Rightarrow> int \<Rightarrow> 'c ReadState \<times> 'c task list" where
  "read_reveal c rs round ri me =
     (if \<not> cl_active c \<or> me = - 1 then (rs, [])
      else let rs = (if round > rs_lastRevealKeyHashesRound rs
              then rs\<lparr>rs_lastRevealKeyHashes := copy_hashes (ri_RevealKeyHashes ri),
                      rs_lastMessagesBeforeReveal := copy_messages (ri_Messages ri),
                      rs_lastRevealKeyHashesRound := round\<rparr>
              else rs)
           in (rs, [TReveal round ri me (PrivateKey_DeepCopy (rs_revealKey rs))]))"

definition read_sm :: "bool \<Rightarrow> 'c crypto_methods \<Rightarrow> 'c Client \<Rightarrow> 'c ReadState \<Rightarrow> reader \<Rightarrow> 'c StateMachine \<Rightarrow>
    ('c ReadState \<times> 'c task list \<times> reader) go" where
  "read_sm debug cm c rs random sm =
     go_bind (MayPrecede debug (rs_lastSm rs) sm) (\<lambda>may.
     go_bind (go_assert debug may) (\<lambda>_.
     let set_task = TSet sm (rs_version rs);
         rs = rs\<lparr>rs_lastSm := sm, rs_version := rs_version rs + 1\<rparr>;
         round = sm_Round sm
     in go_bind (CurrentRoundInfo debug sm) (\<lambda>ri.
        let me = me_index (cl_Id c) ri;
            mine = (cl_active c \<and> me \<noteq> - 1)
        in go_bind (case ri_Phase ri of
             PreparePhase \<Rightarrow> go_bind (read_prepare debug c rs sm ri me) (\<lambda>(rs, ts). Inr (rs, ts, random))
           | SubmitPhase \<Rightarrow> read_submit debug cm c rs random round ri me
           | EncryptPhase \<Rightarrow>
               Inr (rs, if mine then [TEncrypt round ri me (PrivateKey_DeepCopy (rs_encryptKey rs))] else [], random)
           | ScramblePhase \<Rightarrow> Inr (case read_scramble c rs round ri me of (rs, ts) \<Rightarrow> (rs, ts, random))
           | DecryptPhase \<Rightarrow>
               Inr (rs, if mine then [TDecrypt round ri me (PrivateKey_DeepCopy (rs_scrambleKey rs))
                 (PrivateKey_DeepCopy (rs_encryptKey rs))] else [], random)
           | RevealPhase \<Rightarrow> Inr (case read_reveal c rs round ri me of (rs, ts) \<Rightarrow> (rs, ts, random))
           | _ \<Rightarrow> go_bind (go_assert debug False) (\<lambda>_. Inr (rs, [], random))) (\<lambda>(rs, ts, random).
           Inr (rs, set_task # ts, random)))))"

definition mapToSlice :: "configuration \<Rightarrow> string list" where
  "mapToSlice mp = map fst mp"

definition read_config :: "bool \<Rightarrow> 'c Client \<Rightarrow> configuration \<Rightarrow> ('c Client \<times> 'c task list) go" where
  "read_config debug c conf =
     (let c = (if map_of conf (cl_serverId c) \<noteq> None then c\<lparr>cl_active := True\<rparr>
               else c\<lparr>cl_active := False, cl_leaving := False\<rparr>);
          c = c\<lparr>cl_currConf := mapToSlice conf\<rparr>
      in go_bind (go_assert debug (length (cl_currConf c) > 0)) (\<lambda>_.
         let c = c\<lparr>cl_lastKnownLeaderInd := 0\<rparr>;
             sm = lsm_get (cl_lastUpdate c)
         in go_bind (CurrentRoundInfo debug sm) (\<lambda>ri.
            Inr (c, if cl_active c \<and> \<not> cl_leaving c
                    then [TPrepare (sm_Round sm) ri (me_index (cl_Id c) ri)] else []))))"

definition readUpdates :: "bool \<Rightarrow> 'c crypto_methods \<Rightarrow> 'c Client \<Rightarrow> 'c ReadState \<Rightarrow> reader \<Rightarrow> 'c UpdateMsg \<Rightarrow>
    ('c Client \<times> 'c ReadState \<times> 'c task list \<times> reader) go" where
  "readUpdates debug cm c rs random updMsg =
     (if um_StateMachineValid updMsg then
        go_bind (read_sm debug cm c rs random (um_StateMachine updMsg)) (\<lambda>(rs, tasks, random). Inr (c, rs, tasks, random))
      else if um_ConfigurationValid updMsg then
        go_bind (read_config debug c (um_Configuration updMsg)) (\<lambda>(c, tasks). Inr (c, rs, tasks, random))
      else Inr (c, rs, [], random))"

text \<open>What the environment supplies to a goroutine.\<close>

record task_env =
  te_now :: int
  te_user :: "bytes option"
  te_random :: reader
  te_random' :: reader
  te_draw :: "nat \<Rightarrow> nat"

text \<open>The operation that a task adds to the queue, and the effect of the task on the client.\<close>

fun task_op :: "bool \<Rightarrow> 'c crypto_methods \<Rightarrow> (bytes \<Rightarrow> bytes) \<Rightarrow> task_env \<Rightarrow> 'c Client \<Rightarrow> 'c task \<Rightarrow> 'c Op option go" where
  "task_op debug cm sha256 env c (TPrepare round ri me) = cl_prepare c round ri me"
| "task_op debug cm sha256 env c (TSubmit round ri me encryptKey revealKey) =
     cl_submit debug cm sha256 (te_user env) (te_random env) (te_random' env) c round ri me encryptKey revealKey"
| "task_op debug cm sha256 env c (TEncrypt round ri me encryptKey) = cl_encrypt cm c round ri me encryptKey"
| "task_op debug cm sha256 env c (TScramble round ri me scrambleKey revealKey) =
     cl_scramble cm (te_draw env) c round ri me scrambleKey revealKey"
| "task_op debug cm sha256 env c (TDecrypt round ri me scrambleKey encryptKey) =
     cl_decrypt cm c round ri me scrambleKey encryptKey"
| "task_op debug cm sha256 env c (TReveal round ri me revealKey) = cl_reveal c round ri me revealKey"
| "task_op debug cm sha256 env c (TAbort round) = Inr (Some (cl_abort round))"
| "task_op debug cm sha256 env c _ = Inr None"

fun run_task :: "bool \<Rightarrow> 'c crypto_methods \<Rightarrow> (bytes \<Rightarrow> bytes) \<Rightarrow> task_env \<Rightarrow> 'c Client \<Rightarrow> 'c task \<Rightarrow> 'c Client go" where
  "run_task debug cm sha256 env c (TSet sm version) =
     go_bind (lsm_set debug (te_now env) (cl_lastUpdate c) sm version) (\<lambda>l. Inr (c\<lparr>cl_lastUpdate := l\<rparr>))"
| "run_task debug cm sha256 env c (TSendRoundResult sm round hashes hashesRound before n) =
     sendRoundResult debug cm sha256 c sm round hashes hashesRound before n"
| "run_task debug cm sha256 env c t =
     go_bind (task_op debug cm sha256 env c t) (\<lambda>r.
       case r of None \<Rightarrow> Inr c | Some op \<Rightarrow> pending_add debug c op)"

subsection \<open>Submitting operations\<close>

datatype submit_error = NoResponse | ErrReply Err

text \<open>A remote call of \<open>SubmitOp\<close> at a server: whether a reply came, and the error field of the reply.\<close>

type_synonym 'c submit_call = "string \<Rightarrow> 'c Op \<Rightarrow> bool \<times> Err"

definition submitOp :: "'c submit_call \<Rightarrow> 'c Client \<Rightarrow> 'c Op \<Rightarrow> submit_error option go" where
  "submitOp call c op =
     go_bind (go_index (cl_currConf c) (cl_lastKnownLeaderInd c)) (\<lambda>potentialLeader.
       let (ok, err) = call potentialLeader op
       in Inr (if \<not> ok then Some NoResponse else if err \<noteq> OK then Some (ErrReply err) else None))"

definition updateLeader :: "'c Client \<Rightarrow> 'c Client go" where
  "updateLeader c =
     (if length (cl_currConf c) = 0 then Inl IntegerDivideByZero
      else Inr (c\<lparr>cl_lastKnownLeaderInd := (cl_lastKnownLeaderInd c + 1) mod length (cl_currConf c)\<rparr>))"

text \<open>
  One turn of \<open>submitOps\<close> is two critical sections around the remote call: \<open>submitOps_reply\<close> is the second one, after the call
  for \<open>op\<close> has ended with \<open>err\<close>. \<open>submitOps\<close> is a turn in which no other goroutine runs in between.
\<close>

definition submitOps_reply :: "bool \<Rightarrow> 'c Client \<Rightarrow> 'c Op \<Rightarrow> submit_error option \<Rightarrow> 'c Client go" where
  "submitOps_reply debug c op err =
     (case err of
        Some _ \<Rightarrow> updateLeader c
      | None \<Rightarrow> go_bind (eq_finish debug (cl_pending c) op) (\<lambda>p. Inr (c\<lparr>cl_pending := p\<rparr>)))"

definition submitOps :: "bool \<Rightarrow> 'c submit_call \<Rightarrow> 'c Client \<Rightarrow> 'c Client go" where
  "submitOps debug call c =
     go_bind (eq_get debug (cl_pending c)) (\<lambda>r.
       case r of
         None \<Rightarrow> Inr c
       | Some op \<Rightarrow>
           go_bind (submitOp call c op) (submitOps_reply debug c op))"

subsection \<open>Timeouts\<close>

definition min_duration :: "int \<Rightarrow> int \<Rightarrow> int" where
  "min_duration a b = (if a < b then a else b)"

text \<open>One turn of \<open>aborter\<close> at the time \<open>now\<close>: the client after it, and how long it sleeps.\<close>

definition aborter :: "bool \<Rightarrow> 'c crypto_methods \<Rightarrow> int \<Rightarrow> 'c Client \<Rightarrow> ('c Client \<times> int) go" where
  "aborter debug cm now c =
     go_bind (lsm_deepCopy debug (cc_DeepCopy cm) (cl_lastUpdate c)) (\<lambda>lastUpdate.
     go_bind (CurrentRoundInfo debug (lsm_sm lastUpdate)) (\<lambda>ri.
     let protocolTimeout = cfg_ProtocolTimeout (cl_Config c);
         round = sm_Round (lsm_sm lastUpdate)
     in go_bind (case ri_Phase ri of
          PreparePhase \<Rightarrow> Inr (c, protocolTimeout)
        | SubmitPhase \<Rightarrow>
            (let submitTimeout = cfg_MessageTimeout (cl_Config c) + protocolTimeout;
                 timeSince = now - lsm_phaseTimestamp lastUpdate
             in if timeSince > submitTimeout
                then go_bind (pending_add debug c (cl_abort round)) (\<lambda>c. Inr (c, protocolTimeout))
                else Inr (c, min_duration protocolTimeout (submitTimeout - timeSince)))
        | RevealPhase \<Rightarrow>
            (let timeSince = now - lsm_phaseTimestamp lastUpdate
             in if timeSince > protocolTimeout
                then go_bind (pending_add debug c (cl_abort round)) (\<lambda>c. Inr (c, protocolTimeout))
                else Inr (c, protocolTimeout - timeSince))
        | DonePhase \<Rightarrow> go_bind (go_assert debug False) (\<lambda>_. Inr (c, - 1))
        | FailedPhase \<Rightarrow> go_bind (go_assert debug False) (\<lambda>_. Inr (c, - 1))
        | NoPhase \<Rightarrow> go_bind (go_assert debug False) (\<lambda>_. Inr (c, - 1))
        | _ \<Rightarrow>
            (let timeSince = now - lsm_timestamp lastUpdate
             in if timeSince > protocolTimeout
                then go_bind (pending_add debug c (cl_abort round)) (\<lambda>c. Inr (c, protocolTimeout))
                else Inr (c, protocolTimeout - timeSince))) (\<lambda>(c, sleepAmount).
        go_bind (go_assert debug (sleepAmount \<ge> 0)) (\<lambda>_. Inr (c, sleepAmount)))))"

subsection \<open>Lifecycle\<close>

text \<open>
  \<open>Kill\<close> first submits an abort if the client takes part in the current round (\<open>kill_op\<close>; the outcome of
  the submission is ignored), then leaves the configuration, and then runs \<open>Kill_end\<close> under a lock.
\<close>

definition kill_op :: "bool \<Rightarrow> 'c Client \<Rightarrow> 'c Op option go" where
  "kill_op debug c =
     (let sm = lsm_get (cl_lastUpdate c)
      in go_bind (CurrentRoundInfo debug sm) (\<lambda>ri.
           Inr (if ri_Phase ri \<noteq> DonePhase \<and> ri_Phase ri \<noteq> FailedPhase \<and> participated (cl_Id c) ri
                then Some (AbortOp (sm_Round sm)) else None)))"

definition Kill_end :: "'c Client \<Rightarrow> 'c Client" where
  "Kill_end c = (if cl_dead c then c else c\<lparr>cl_updClosed := True, cl_dead := True\<rparr>)"

definition CreateResCh :: "bool \<Rightarrow> 'c Client \<Rightarrow> 'c Client go" where
  "CreateResCh debug c = go_bind (go_assert debug (cl_resCh c = None)) (\<lambda>_. Inr (c\<lparr>cl_resCh := Some []\<rparr>))"

definition DestroyResCh :: "bool \<Rightarrow> 'c Client \<Rightarrow> 'c Client go" where
  "DestroyResCh debug c =
     go_bind (go_assert debug (cl_resCh c \<noteq> None)) (\<lambda>_.
       case cl_resCh c of
         None \<Rightarrow> Inl (Panic ''close of nil channel'')
       | Some _ \<Rightarrow> Inr (c\<lparr>cl_resCh := None\<rparr>))"

definition GetLastStateMachine :: "'c Client \<Rightarrow> 'c StateMachine" where
  "GetLastStateMachine c = lsm_get (cl_lastUpdate c)"

datatype start_error = NotCurrentRound | NotParticipant

text \<open>
  \<open>Start\<close>: \<open>None\<close> where the search for a prime does not return. The operation it returns is added
  to the queue in a goroutine of its own.
\<close>

definition cl_Start :: "(reader \<Rightarrow> int \<Rightarrow> (rand_error + nat) \<times> reader) \<Rightarrow> (nat \<Rightarrow> bool) \<Rightarrow> bool \<Rightarrow> reader \<Rightarrow>
    masseyOmuraCrypto Client \<Rightarrow> int \<Rightarrow> (start_error + masseyOmuraCrypto Op) go option" where
  "cl_Start rand_Prime probablyPrime debug random c round =
     (let sm = GetLastStateMachine c
      in if sm_Round sm \<noteq> round then Some (Inr (Inl NotCurrentRound))
         else case CurrentRoundInfo debug sm of
           Inl panic \<Rightarrow> Some (Inl panic)
         | Inr ri \<Rightarrow>
             if \<not> participated (cl_Id c) ri then Some (Inr (Inl NotParticipant))
             else case newMasseyOmuraCrypto rand_Prime probablyPrime debug random
                         (cfg_MessageSize (cl_Config c) + int messageHeaderLength) of
               None \<Rightarrow> None
             | Some r \<Rightarrow> Some (go_bind r (\<lambda>(crypto, random'). Inr (Inr (StartOp (cl_Id c) round (Some crypto))))))"

definition NewClient :: "bool \<Rightarrow> 'c crypto_methods \<Rightarrow> uuid \<Rightarrow> int \<Rightarrow> int \<Rightarrow> ('c, 'r) Server \<Rightarrow> configuration \<Rightarrow> ClientConfig \<Rightarrow>
    ('c Client \<times> int \<times> ('c, 'r) Server) go" where
  "NewClient debug cm pid now now' s seedConf conf =
     go_bind (newLastStateMachine debug now now') (\<lambda>lastUpdate.
     go_bind (GetUpdCh debug cm s) (\<lambda>(i, s).
     go_bind (go_assert debug (length seedConf > 0)) (\<lambda>_.
       Inr (\<lparr>cl_Id = pid, cl_Config = conf, cl_serverId = sv_Me s, cl_dead = False, cl_lastUpdate = lastUpdate,
             cl_updClosed = False, cl_active = False, cl_leaving = False, cl_currConf = mapToSlice seedConf,
             cl_lastKnownLeaderInd = 0, cl_resCh = None, cl_pending = newEliminationQueue\<rparr>, i, s))))"

end
