(* ===== verification/Client_Props.thy ===== *)
theory Client_Props
  imports Client
begin

text \<open>
  The correctness of the steps of the client: the shuffle, the headers, the operations it builds,
  the checks on the result of a round, and what it never does twice in a round.
\<close>

subsection \<open>The shuffle\<close>

lemma length_swap [simp]: "length (swap i j xs) = length xs"
  by (simp add: swap_def)

lemma mset_swap_at: "i < length xs \<Longrightarrow> j < length xs \<Longrightarrow> mset (swap i j xs) = mset xs"
  by (simp add: swap_def mset_swap)

lemma length_shuffle_from [simp]: "length (shuffle_from draw i xs) = length xs"
  by (induction i arbitrary: xs) simp_all

lemma draw_le: "d mod Suc (Suc i) \<le> Suc i"
  using mod_less_divisor [of "Suc (Suc i)" d] by simp

lemma mset_shuffle_from: "i < length xs \<Longrightarrow> mset (shuffle_from draw i xs) = mset xs"
proof (induction i arbitrary: xs)
  case (Suc i)
  have "draw (Suc i) mod Suc (Suc i) < length xs" using Suc.prems draw_le [of "draw (Suc i)" i] by linarith
  with Suc show ?case by (simp add: mset_swap_at)
qed simp

lemma mset_Shuffle: "mset (Shuffle draw xs) = mset xs"
  by (cases "xs = []") (simp_all add: Shuffle_def mset_shuffle_from)

lemma length_Shuffle [simp]: "length (Shuffle draw xs) = length xs"
  by (simp add: Shuffle_def)

lemma set_Shuffle [simp]: "set (Shuffle draw xs) = set xs"
  using mset_Shuffle [of draw xs] by (metis set_mset_mset)

lemma shuffle_from_cong: "(\<And>k. k \<le> i \<Longrightarrow> draw k = draw' k) \<Longrightarrow> shuffle_from draw i xs = shuffle_from draw' i xs"
  by (induction i arbitrary: xs) simp_all

lemma shuffle_from_reaches:
  assumes "i < length xs" and "mset (take (Suc i) ys) = mset (take (Suc i) xs)" and "drop (Suc i) ys = drop (Suc i) xs"
    and "length ys = length xs"
  shows "\<exists>draw. shuffle_from draw i xs = ys"
  using assms
proof (induction i arbitrary: xs)
  case 0
  then obtain x xs' y ys' where "xs = x # xs'" "ys = y # ys'" by (cases xs; cases ys) auto
  with 0 show ?case by simp
next
  case (Suc i)
  have ys: "take (Suc (Suc i)) ys = take (Suc i) ys @ [ys ! Suc i]"
    using Suc.prems by (simp add: take_Suc_conv_app_nth)
  then have "ys ! Suc i \<in> set (take (Suc (Suc i)) xs)"
    using Suc.prems(2) by (metis in_set_conv_decomp set_mset_mset)
  then obtain j where j: "j \<le> Suc i" "xs ! j = ys ! Suc i"
    using Suc.prems(1) by (auto simp: in_set_conv_nth less_Suc_eq_le)
  let ?xs = "swap (Suc i) j xs"
  have last: "?xs ! Suc i = ys ! Suc i" using Suc.prems(1) j by (cases "j = Suc i") (auto simp: swap_def)
  have take: "take (Suc (Suc i)) ?xs = swap (Suc i) j (take (Suc (Suc i)) xs)"
    using j Suc.prems(1) by (simp add: swap_def take_update_swap less_Suc_eq_le)
  then have "mset (take (Suc (Suc i)) ?xs) = mset (take (Suc (Suc i)) xs)"
    using j Suc.prems(1) by (simp add: mset_swap_at)
  moreover have "take (Suc (Suc i)) ?xs = take (Suc i) ?xs @ [?xs ! Suc i]"
    using Suc.prems(1) by (simp add: take_Suc_conv_app_nth)
  ultimately have "mset (take (Suc i) ys) = mset (take (Suc i) ?xs)"
    using Suc.prems(2) last ys by (metis add_mset_add_single add_right_cancel mset_append mset_single_iff)
  moreover have "drop (Suc i) ys = drop (Suc i) ?xs"
  proof -
    have "drop (Suc (Suc i)) ?xs = drop (Suc (Suc i)) xs" using j by (simp add: swap_def)
    then show ?thesis
      using Suc.prems last by (metis Cons_nth_drop_Suc length_swap)
  qed
  ultimately obtain draw where draw: "shuffle_from draw i ?xs = ys"
    using Suc.IH [of ?xs] Suc.prems by auto
  have "shuffle_from (draw(Suc i := j)) (Suc i) xs = shuffle_from (draw(Suc i := j)) i ?xs"
    using j by simp
  also have "\<dots> = shuffle_from draw i ?xs" by (rule shuffle_from_cong) simp
  finally show ?case using draw by metis
qed

lemma Shuffle_exactly_permutations:
  "range (\<lambda>draw. Shuffle draw ms) = {ms'. mset ms' = mset ms}"
proof (intro set_eqI iffI)
  fix ms' assume "ms' \<in> range (\<lambda>draw. Shuffle draw ms)"
  then show "ms' \<in> {ms'. mset ms' = mset ms}" by (auto simp: mset_Shuffle)
next
  fix ms' assume perm: "ms' \<in> {ms'. mset ms' = mset ms}"
  then have len: "length ms' = length ms" by (auto dest: mset_eq_length)
  show "ms' \<in> range (\<lambda>draw. Shuffle draw ms)"
  proof (cases "ms = []")
    case True
    with len show ?thesis by (simp add: Shuffle_def)
  next
    case False
    with len perm have "\<exists>draw. shuffle_from draw (length ms - 1) ms = ms'"
      by (intro shuffle_from_reaches) auto
    then show ?thesis by (auto simp: Shuffle_def)
  qed
qed

lemma cl_scramble_eq:
  assumes "0 \<le> me" and "nat me < length (ri_Scrambled ri)" and "ri_Crypto ri = Some crypto"
  shows "cl_scramble cm draw c round ri me sk rk =
    (if ri_Scrambled ri ! nat me then Inr None
     else Inr (Some (ScrambledOp (cl_Id c) round
       (Shuffle draw (map (\<lambda>m. cc_Encrypt cm crypto rk (cc_Encrypt cm crypto sk m)) (ri_Messages ri))))))"
proof -
  have "go_map (\<lambda>m. go_bind (the_crypto ri) (\<lambda>crypto. Inr (cc_Encrypt cm crypto rk (cc_Encrypt cm crypto sk m))))
      (ri_Messages ri) = Inr (map (\<lambda>m. cc_Encrypt cm crypto rk (cc_Encrypt cm crypto sk m)) (ri_Messages ri))"
    by (rule go_map_Inr) (simp add: the_crypto_def assms(3))
  then show ?thesis using assms(1,2) by (simp add: cl_scramble_def index_me_def go_index_def)
qed

text \<open>C39: the scramble of a client hides the order of the messages and nothing else. Over the random choices, the operations that \<open>scramble\<close>
  submits for a participant that has not scrambled yet are exactly those that carry, in some order, every message of the round
  encrypted with the scramble key and then with the reveal key: no message is lost, duplicated or changed, and every order is possible. A
  participant that has scrambled submits nothing.\<close>

theorem scramble_exactly_permutations:
  assumes "0 \<le> me" and "nat me < length (ri_Scrambled ri)" and "ri_Crypto ri = Some crypto"
  shows "range (\<lambda>draw. cl_scramble cm draw c round ri me sk rk) =
    (if ri_Scrambled ri ! nat me then {Inr None}
     else {Inr (Some (ScrambledOp (cl_Id c) round ms)) | ms.
       mset ms = image_mset (\<lambda>m. cc_Encrypt cm crypto rk (cc_Encrypt cm crypto sk m)) (mset (ri_Messages ri))})"
proof (cases "ri_Scrambled ri ! nat me")
  case True
  then show ?thesis by (simp add: cl_scramble_eq [OF assms])
next
  case False
  let ?f = "\<lambda>ms. Inr (Some (ScrambledOp (cl_Id c) round ms))"
  let ?ms = "map (\<lambda>m. cc_Encrypt cm crypto rk (cc_Encrypt cm crypto sk m)) (ri_Messages ri)"
  have "range (\<lambda>draw. cl_scramble cm draw c round ri me sk rk) = ?f ` range (\<lambda>draw. Shuffle draw ?ms)"
    using False by (simp add: cl_scramble_eq [OF assms] image_image)
  also have "\<dots> = ?f ` {ms. mset ms = mset ?ms}" by (simp only: Shuffle_exactly_permutations)
  finally show ?thesis using False by (simp add: setcompr_eq_image)
qed

subsection \<open>Headers\<close>

definition header_ok :: "bytes \<Rightarrow> bool" where
  "header_ok h \<longleftrightarrow> take 8 h = replicate 8 13"

lemma verifyHeader_from_spec:
  "i + n \<le> length h \<Longrightarrow> verifyHeader_from i n h = Inr (\<forall>k < n. h ! (i + k) = 13)"
proof (induction n arbitrary: i)
  case (Suc n)
  have "(\<forall>k < Suc n. h ! (i + k) = 13) \<longleftrightarrow> h ! i = 13 \<and> (\<forall>k < n. h ! (Suc i + k) = 13)"
    by (auto simp: less_Suc_eq_0_disj)
  with Suc show ?case by simp
qed simp

lemma verifyHeader_spec: "length h = 16 \<Longrightarrow> verifyHeader debug h = Inr (header_ok h)"
  by (simp add: verifyHeader_def verifyHeader_from_spec header_ok_def list_eq_iff_nth_eq)

lemma header_ok_take: "header_ok (take messageHeaderLength m) \<longleftrightarrow> header_ok m"
  by (simp add: header_ok_def messageHeaderLength_def)

lemma messageWithHeader_spec:
  assumes "8 \<le> length random"
  shows "messageWithHeader debug random m = Inr (replicate 8 13 @ take 8 random @ m)"
  using assms by (simp add: messageWithHeader_def messageHeader_def messageHeaderLength_def Let_def)

text \<open>C40: headers round trip. A message with a header that the client made passes the check of the header, and
  what follows the header is the message.\<close>

theorem header_round_trip:
  assumes "8 \<le> length random"
  shows "\<exists>hm. messageWithHeader debug random m = Inr hm \<and>
     verifyHeader debug (take messageHeaderLength hm) = Inr True \<and> drop messageHeaderLength hm = m"
proof -
  let ?hm = "replicate 8 13 @ take 8 random @ m"
  have "length (take messageHeaderLength ?hm) = 16" using assms by (simp add: messageHeaderLength_def)
  from verifyHeader_spec [OF this] have "verifyHeader debug (take messageHeaderLength ?hm) = Inr True"
    by (simp only: header_ok_take) (simp add: header_ok_def)
  then show ?thesis using assms by (simp add: messageWithHeader_spec messageHeaderLength_def)
qed

theorem header_round_trip_witness:
  "\<exists>hm. messageWithHeader True [1, 2, 3, 4, 5, 6, 7, 8] [65] = Inr hm \<and>
     verifyHeader True (take messageHeaderLength hm) = Inr True \<and> drop messageHeaderLength hm = [65]"
  by (rule header_round_trip) simp

subsection \<open>The checks on the result of a round\<close>

lemma messages_changed_False:
  "messages_changed i before ms = Inr False \<longleftrightarrow> (\<forall>k < length ms. i + k < length before \<and> before ! (i + k) = ms ! k)"
proof (induction ms arbitrary: i)
  case (Cons m ms)
  have split: "(\<forall>k < length (m # ms). i + k < length before \<and> before ! (i + k) = (m # ms) ! k) \<longleftrightarrow>
      i < length before \<and> before ! i = m \<and> (\<forall>k < length ms. Suc i + k < length before \<and> before ! (Suc i + k) = ms ! k)"
    by (auto simp: less_Suc_eq_0_disj)
  show ?case unfolding split using Cons.IH [of "Suc i"] by (auto simp: go_index_def Msg_Equal_iff)
qed simp

lemma decrypt_revealed_Some:
  "decrypt_revealed cm sha256 (Some cr) hashes i keys om = Inr (Some om') \<longleftrightarrow>
     (\<forall>k < length keys. i + k < length hashes \<and> hashes ! (i + k) = PrivateKey_Hash sha256 (keys ! k)) \<and>
     om' = fold (cc_Decrypt cm cr) keys om"
proof (induction keys arbitrary: i om)
  case (Cons key keys)
  have split: "(\<forall>k < length (key # keys). i + k < length hashes \<and> hashes ! (i + k) = PrivateKey_Hash sha256 ((key # keys) ! k)) \<longleftrightarrow>
      i < length hashes \<and> hashes ! i = PrivateKey_Hash sha256 key \<and>
      (\<forall>k < length keys. Suc i + k < length hashes \<and> hashes ! (Suc i + k) = PrivateKey_Hash sha256 (keys ! k))"
    by (auto simp: less_Suc_eq_0_disj)
  show ?case
    unfolding split using Cons.IH [of "Suc i"]
    by (auto simp: go_index_def HashEquals_iff PrivateKey_Hash_eq)
qed auto

definition hashes_match :: "(bytes \<Rightarrow> bytes) \<Rightarrow> bytes list \<Rightarrow> PrivateKey list \<Rightarrow> bool" where
  "hashes_match sha256 hashes keys \<longleftrightarrow>
     (\<forall>k < length keys. k < length hashes \<and> hashes ! k = PrivateKey_Hash sha256 (keys ! k))"

lemma extract_messages_Some:
  assumes "ri_Crypto ri = Some cr"
  shows "extract_messages cm sha256 ri hashes ms = Inr (Some plains) \<longleftrightarrow>
     (ms \<noteq> [] \<longrightarrow> hashes_match sha256 hashes (ri_RevealedKeys ri)) \<and>
     list_all2 (\<lambda>m p. cc_ExtractMsg cm cr (fold (cc_Decrypt cm cr) (ri_RevealedKeys ri) m) = Inr p) ms plains"
proof (induction ms arbitrary: plains)
  case (Cons m ms)
  show ?case
  proof (cases "decrypt_revealed cm sha256 (Some cr) hashes 0 (ri_RevealedKeys ri) m")
    case (Inl e)
    with decrypt_revealed_Some [of cm sha256 cr hashes 0 "ri_RevealedKeys ri" m] show ?thesis
      by (auto simp: assms hashes_match_def)
  next
    case (Inr r)
    show ?thesis
    proof (cases r)
      case None
      with Inr decrypt_revealed_Some [of cm sha256 cr hashes 0 "ri_RevealedKeys ri" m] show ?thesis
        by (auto simp: assms hashes_match_def)
    next
      case (Some om)
      with Inr decrypt_revealed_Some [of cm sha256 cr hashes 0 "ri_RevealedKeys ri" m om]
      have om: "om = fold (cc_Decrypt cm cr) (ri_RevealedKeys ri) m"
        and hs: "hashes_match sha256 hashes (ri_RevealedKeys ri)" by (simp_all add: hashes_match_def)
      have IH: "list_all2 (\<lambda>m p. cc_ExtractMsg cm cr (fold (cc_Decrypt cm cr) (ri_RevealedKeys ri) m) = Inr p) ms ps \<longleftrightarrow>
          extract_messages cm sha256 ri hashes ms = Inr (Some ps)" for ps
        using Cons.IH [of ps] hs by simp
      show ?thesis
        using Inr Some hs
        by (cases "cc_ExtractMsg cm cr om"; cases "extract_messages cm sha256 ri hashes ms"; cases plains)
          (auto simp: assms the_crypto_def om IH split: option.splits)
    qed
  qed
qed auto

definition body :: "bytes \<Rightarrow> bytes" where
  "body m = drop messageHeaderLength m"

definition has_body :: "bytes \<Rightarrow> bool" where
  "has_body m \<longleftrightarrow> length m > messageHeaderLength"

lemma verify_messages_Some:
  "verify_messages debug ms = Inr (Some (verified, headers)) \<longleftrightarrow>
     (\<forall>m \<in> set ms. messageHeaderLength \<le> length m \<and> header_ok m) \<and>
     verified = map body (filter has_body ms) \<and> headers = map (take messageHeaderLength) (filter has_body ms)"
proof (induction ms arbitrary: verified headers)
  case (Cons m ms)
  have v: "length m \<ge> messageHeaderLength \<Longrightarrow> verifyHeader debug (take messageHeaderLength m) = Inr (header_ok m)"
    using verifyHeader_spec [of "take messageHeaderLength m" debug]
    by (simp only: header_ok_take) (simp add: messageHeaderLength_def)
  show ?case
  proof (cases "length m < messageHeaderLength")
    case False
    with v Cons.IH show ?thesis
      by (cases "verify_messages debug ms") (auto simp: body_def has_body_def split: option.splits prod.splits)
  qed auto
qed auto

lemma header_equal_spec: "length h1 = length h2 \<Longrightarrow> header_equal h1 h2 = Inr (h1 = h2)"
  by (induction h1 h2 rule: header_equal.induct) auto

lemma duplicate_of_spec: "\<forall>h' \<in> set hs. length h' = length h \<Longrightarrow> duplicate_of debug h hs = Inr (h \<in> set hs)"
  by (induction hs) (auto simp: header_equal_spec)

lemma duplicate_header_spec:
  "\<forall>h \<in> set hs. length h = n \<Longrightarrow> duplicate_header debug hs = Inr (\<not> distinct hs)"
  by (induction hs) (auto simp: duplicate_of_spec)

text \<open>All the checks that a round has to pass, with the plaintexts they give.\<close>

definition round_checks :: "'c crypto_methods \<Rightarrow> (bytes \<Rightarrow> bytes) \<Rightarrow> 'c \<Rightarrow> 'c RoundInfo \<Rightarrow> bytes list \<Rightarrow> Msg list \<Rightarrow> nat \<Rightarrow>
    bytes list \<Rightarrow> bool" where
  "round_checks cm sha256 crypto ri hashes before n plains \<longleftrightarrow>
     length (ri_Messages ri) = n \<and> take n before = ri_Messages ri \<and>
     (ri_Messages ri \<noteq> [] \<longrightarrow> hashes_match sha256 hashes (ri_RevealedKeys ri)) \<and>
     list_all2 (\<lambda>m p. cc_ExtractMsg cm crypto (fold (cc_Decrypt cm crypto) (ri_RevealedKeys ri) m) = Inr p)
       (ri_Messages ri) plains \<and>
     (\<forall>p \<in> set plains. messageHeaderLength \<le> length p \<and> header_ok p) \<and>
     distinct (map (take messageHeaderLength) (filter has_body plains))"

lemma take_eq_nth: "take (length ms) before = ms \<longleftrightarrow> (\<forall>k < length ms. k < length before \<and> before ! k = ms ! k)"
proof
  assume "take (length ms) before = ms"
  then show "\<forall>k < length ms. k < length before \<and> before ! k = ms ! k"
    by (metis length_take min_less_iff_conj nth_take)
next
  assume a: "\<forall>k < length ms. k < length before \<and> before ! k = ms ! k"
  then have "length ms \<le> length before" by (cases "length ms") auto
  with a show "take (length ms) before = ms" by (auto intro: nth_equalityI)
qed

lemma duplicate_bodies:
  "\<forall>p \<in> set plains. messageHeaderLength \<le> length p \<Longrightarrow>
   duplicate_header debug (map (take messageHeaderLength) (filter has_body plains)) =
     Inr (\<not> distinct (map (take messageHeaderLength) (filter has_body plains)))"
  by (rule duplicate_header_spec [where n = messageHeaderLength]) auto

lemma done_result_iff:
  assumes "ri_Crypto ri = Some crypto"
  shows "done_result debug cm sha256 ri round hashes before n = Inr r \<and> rr_MaliciousError r = None \<longleftrightarrow>
    (\<exists>plains. round_checks cm sha256 crypto ri hashes before n plains \<and>
       r = \<lparr>rr_Round = round, rr_Succeeded = (ri_Phase ri = DonePhase),
            rr_Messages = map body (filter has_body plains), rr_MaliciousError = None\<rparr>)"
    (is "?L \<longleftrightarrow> ?R")
proof
  assume ?L
  then have n: "length (ri_Messages ri) = n" and nochange: "messages_changed 0 before (ri_Messages ri) = Inr False"
    and "\<exists>plains. extract_messages cm sha256 ri hashes (ri_Messages ri) = Inr (Some plains)"
    by (auto simp: done_result_def failed_result_def elim!: go_bindE split: if_splits option.splits)
  then obtain plains where plains: "extract_messages cm sha256 ri hashes (ri_Messages ri) = Inr (Some plains)" by blast
  from \<open>?L\<close> n nochange plains obtain verified headers where
    v: "verify_messages debug plains = Inr (Some (verified, headers))" and
    d: "duplicate_header debug headers = Inr False" and
    r: "r = \<lparr>rr_Round = round, rr_Succeeded = (ri_Phase ri = DonePhase), rr_Messages = verified, rr_MaliciousError = None\<rparr>"
    by (auto simp: done_result_def failed_result_def elim!: go_bindE split: if_splits option.splits)
  have hs: "\<forall>p \<in> set plains. messageHeaderLength \<le> length p \<and> header_ok p" "verified = map body (filter has_body plains)"
    "headers = map (take messageHeaderLength) (filter has_body plains)" using v by (auto simp: verify_messages_Some)
  with d duplicate_bodies [of plains debug] have "distinct (map (take messageHeaderLength) (filter has_body plains))" by simp
  moreover have "take n before = ri_Messages ri"
    using nochange n take_eq_nth [of "ri_Messages ri" before] by (simp add: messages_changed_False)
  ultimately show ?R
    using n plains hs r by (auto simp: round_checks_def extract_messages_Some [OF assms])
next
  assume ?R
  then obtain plains where c: "round_checks cm sha256 crypto ri hashes before n plains" and
    r: "r = \<lparr>rr_Round = round, rr_Succeeded = (ri_Phase ri = DonePhase),
      rr_Messages = map body (filter has_body plains), rr_MaliciousError = None\<rparr>" by blast
  have "messages_changed 0 before (ri_Messages ri) = Inr False"
    using c take_eq_nth [of "ri_Messages ri" before] by (simp add: messages_changed_False round_checks_def)
  moreover have "extract_messages cm sha256 ri hashes (ri_Messages ri) = Inr (Some plains)"
    using c by (simp add: extract_messages_Some [OF assms] round_checks_def)
  moreover have "verify_messages debug plains = Inr (Some (map body (filter has_body plains),
      map (take messageHeaderLength) (filter has_body plains)))"
    using c by (simp add: verify_messages_Some round_checks_def)
  ultimately show ?L
    using c duplicate_bodies [of plains debug] by (simp add: done_result_def r round_checks_def)
qed

text \<open>C2: what a success means. When the client reports a round as succeeded, the round is done and the
  client took part in it, no malicious error is reported, the number of messages is the one it saw when
  it scrambled, the messages are the ones it saw before it revealed its key, every revealed key
  has the committed hash, every decrypted message carries a valid header, no two
  non-empty messages have the same header, and the messages reported are the bodies of the
  non-empty ones.\<close>

theorem round_success_sound:
  assumes "sendRoundResult False cm sha256 c sm round hashes hashesRound before n = Inr c'"
    and "cl_resCh c = Some results" and "cl_resCh c' = Some (results @ [r])" and "rr_Succeeded r"
    and "\<forall>ri. GetRoundInfo sm (round - 1) = Inr ri \<longrightarrow> ri_Crypto ri = Some crypto"
  shows "\<exists>ri plains. GetRoundInfo sm (round - 1) = Inr ri \<and> ri_Phase ri = DonePhase \<and> cl_Id c \<in> set (ri_Participants ri) \<and>
     rr_Round r = round - 1 \<and> rr_MaliciousError r = None \<and>
     round_checks cm sha256 crypto ri hashes before n plains \<and> rr_Messages r = map body (filter has_body plains)"
proof (cases "GetRoundInfo sm (round - 1)")
  case (Inl e)
  with assms show ?thesis
    by (auto simp: sendRoundResult_def participated_def zero_RoundInfo_def)
next
  case (Inr ri)
  have cr: "ri_Crypto ri = Some crypto" using assms(5) Inr by simp
  have part: "participated (cl_Id c) ri"
  proof (rule ccontr)
    assume "\<not> ?thesis"
    with assms(1) Inr have "c' = c" by (simp add: sendRoundResult_def)
    with assms(2,3) show False by simp
  qed
  have "ri_Phase ri \<noteq> FailedPhase"
  proof
    assume "ri_Phase ri = FailedPhase"
    with assms(1-3) Inr part have "r = failed_result (round - 1) (if hashesRound = round - 1 then Some RevealKeySubmitted else None)"
      by (auto simp: sendRoundResult_def send_result_def)
    with assms(4) show False by (simp add: failed_result_def)
  qed
  with assms(1-3) Inr part have res: "done_result False cm sha256 ri (round - 1) hashes before n = Inr r"
    by (auto simp: sendRoundResult_def send_result_def elim!: go_bindE)
  moreover have "rr_MaliciousError r = None"
    using res assms(4)
    by (auto simp: done_result_def failed_result_def elim!: go_bindE split: if_splits option.splits)
  ultimately obtain plains where "round_checks cm sha256 crypto ri hashes before n plains" and
    "r = \<lparr>rr_Round = round - 1, rr_Succeeded = (ri_Phase ri = DonePhase), rr_Messages = map body (filter has_body plains),
       rr_MaliciousError = None\<rparr>"
    using done_result_iff [OF cr, of False cm sha256 "round - 1" hashes before n r] by blast
  with Inr part assms(4) show ?thesis by (auto simp: participated_def list_ex_iff)
qed

text \<open>A finished round of one participant, whose key pair is trivial.\<close>

definition demo_key :: PrivateKey where
  "demo_key = \<lparr>pk_E = [1], pk_D = [1]\<rparr>"

definition demo_text :: bytes where
  "demo_text = [13, 13, 13, 13, 13, 13, 13, 13, 1, 2, 3, 4, 5, 6, 7, 8, 72, 105]"

definition demo_large :: masseyOmuraCrypto where
  "demo_large = \<lparr>crypto_P = [255, 255, 255, 255, 255, 255, 255, 255, 255, 255, 255, 255, 255, 255, 255, 255, 255, 255,
     255, 255, 255, 255, 255, 255]\<rparr>"

definition demo_done_round :: "masseyOmuraCrypto RoundInfo" where
  "demo_done_round = \<lparr>ri_Phase = DonePhase, ri_Crypto = Some demo_large, ri_Participants = [7],
     ri_Messages = [\<lparr>msg_M = 1 # 0 # demo_text\<rparr>], ri_Encrypted = [True], ri_Scrambled = [True], ri_Decrypted = [True],
     ri_RevealedKeys = [demo_key], ri_RevealKeyHashes = [[1, 1]]\<rparr>"

definition demo_done_sm :: "masseyOmuraCrypto StateMachine" where
  "demo_done_sm = \<lparr>sm_Round = 1, sm_Rounds = [demo_done_round, zero_RoundInfo\<lparr>ri_Phase := PreparePhase\<rparr>, zero_RoundInfo]\<rparr>"

definition demo_client :: "masseyOmuraCrypto Client" where
  "demo_client = \<lparr>cl_Id = 7, cl_Config = \<lparr>cfg_MessageTimeout = 10, cfg_ProtocolTimeout = 5, cfg_MessageSize = 2\<rparr>,
     cl_serverId = ''0'', cl_dead = False,
     cl_lastUpdate = \<lparr>lsm_sm = sm_init, lsm_version = - 1, lsm_timestamp = 0, lsm_phaseTimestamp = 0\<rparr>,
     cl_updClosed = False, cl_active = True, cl_leaving = False, cl_currConf = [''0''], cl_lastKnownLeaderInd = 0,
     cl_resCh = Some [], cl_pending = newEliminationQueue\<rparr>"

definition demo_scrambling_round :: "masseyOmuraCrypto RoundInfo" where
  "demo_scrambling_round = zero_RoundInfo\<lparr>ri_Phase := ScramblePhase, ri_Crypto := Some demo_large, ri_Participants := [3, 7],
     ri_Messages := [\<lparr>msg_M = [1]\<rparr>, \<lparr>msg_M = [2]\<rparr>], ri_Encrypted := [True, True], ri_Scrambled := [True, False]\<rparr>"

theorem scramble_exactly_permutations_witness:
  "\<exists>draw. cl_scramble (masseyOmura_methods is_prime) draw demo_client 3 demo_scrambling_round 1 demo_key demo_key =
     Inr (Some (ScrambledOp 7 3
       [crypto_Encrypt demo_large demo_key (crypto_Encrypt demo_large demo_key \<lparr>msg_M = [2]\<rparr>),
        crypto_Encrypt demo_large demo_key (crypto_Encrypt demo_large demo_key \<lparr>msg_M = [1]\<rparr>)]))"
  (is "\<exists>draw. ?scramble draw = ?op")
proof -
  have "0 \<le> (1::int)" "nat 1 < length (ri_Scrambled demo_scrambling_round)"
    "ri_Crypto demo_scrambling_round = Some demo_large"
    by (simp_all add: demo_scrambling_round_def)
  note perms = scramble_exactly_permutations [OF this, of "masseyOmura_methods is_prime" demo_client 3 demo_key demo_key]
  let ?enc = "\<lambda>m. cc_Encrypt (masseyOmura_methods is_prime) demo_large demo_key
    (cc_Encrypt (masseyOmura_methods is_prime) demo_large demo_key m)"
  have todo: "\<not> ri_Scrambled demo_scrambling_round ! nat 1" by (simp add: demo_scrambling_round_def)
  have "mset [?enc \<lparr>msg_M = [2]\<rparr>, ?enc \<lparr>msg_M = [1]\<rparr>] = image_mset ?enc (mset (ri_Messages demo_scrambling_round))"
    by (simp add: demo_scrambling_round_def add_mset_commute)
  then have "Inr (Some (ScrambledOp (cl_Id demo_client) 3 [?enc \<lparr>msg_M = [2]\<rparr>, ?enc \<lparr>msg_M = [1]\<rparr>])) \<in> range ?scramble"
    unfolding perms if_not_P [OF todo] by blast
  moreover have "?enc m = crypto_Encrypt demo_large demo_key (crypto_Encrypt demo_large demo_key m)" for m
    by (simp add: masseyOmura_methods_def)
  moreover have "cl_Id demo_client = 7" by (simp add: demo_client_def)
  ultimately have "?op \<in> range ?scramble" by (simp only:)
  then obtain draw where "?op = ?scramble draw" by (rule rangeE)
  then have "?scramble draw = ?op" by (rule sym)
  then show ?thesis by (rule exI [where x = draw])
qed

definition demo_result :: RoundResult where
  "demo_result = \<lparr>rr_Round = 0, rr_Succeeded = True, rr_Messages = [[72, 105]], rr_MaliciousError = None\<rparr>"

lemma demo_decrypt:
  "crypto_ExtractMsg mo (crypto_Decrypt demo_large demo_key \<lparr>msg_M = 1 # 0 # demo_text\<rparr>) = Inr demo_text"
proof -
  have "bigInt (1 # 0 # demo_text) < getP demo_large"
    by (simp add: bigInt_def demo_text_def demo_large_def getP_def)
  moreover have "0 < getP demo_large" using calculation by simp
  ultimately have "crypto_Decrypt demo_large demo_key \<lparr>msg_M = 1 # 0 # demo_text\<rparr> =
      NewMsg (bigInt (1 # 0 # demo_text))"
    by (simp add: crypto_Decrypt_def mo_Decrypt_def createPrivateKey_def createSysKey_def getM_def getD_def
        demo_key_def big_Exp_def bigInt_Cons)
  then show ?thesis
    by (simp add: crypto_ExtractMsg_def ExtractMsg_def big_Bytes_bigInt)
qed

lemma demo_sends:
  "sendRoundResult False (masseyOmura_methods is_prime) (\<lambda>bs. bs) demo_client demo_done_sm 1 [[1, 1]] 0
     [\<lparr>msg_M = 1 # 0 # demo_text\<rparr>] 1 = Inr (demo_client\<lparr>cl_resCh := Some [demo_result]\<rparr>)"
proof -
  have "take 16 demo_text = [13, 13, 13, 13, 13, 13, 13, 13, 1, 2, 3, 4, 5, 6, 7, 8]" "drop 16 demo_text = [72, 105]" "length demo_text = 18"
    by (simp_all add: demo_text_def)
  moreover have "verifyHeader_from 0 8 [13, 13, 13, 13, 13, 13, 13, 13, 1, 2, 3, 4, 5, 6, 7, 8] = Inr True"
    by (simp add: verifyHeader_from_spec nth_Cons' less_Suc_eq)
  ultimately show ?thesis
    by (simp add: sendRoundResult_def GetRoundInfo_def NumRoundsPersisted_def demo_done_sm_def demo_done_round_def
      participated_def demo_client_def done_result_def Msg_Equal_iff HashEquals_iff the_crypto_def masseyOmura_methods_def
      demo_decrypt messageHeaderLength_def verifyHeader_def send_result_def demo_result_def)
     (simp add: demo_key_def)
qed

theorem round_success_sound_witness:
  "\<exists>plains. round_checks (masseyOmura_methods is_prime) (\<lambda>bs. bs) demo_large demo_done_round [[1, 1]]
     [\<lparr>msg_M = 1 # 0 # demo_text\<rparr>] 1 plains \<and> [[72, 105]] = map body (filter has_body plains)"
proof -
  have ri: "GetRoundInfo demo_done_sm (1 - 1) = Inr demo_done_round"
    by (simp add: GetRoundInfo_def NumRoundsPersisted_def demo_done_sm_def)
  show ?thesis
    using round_success_sound [OF demo_sends, where results = "[]" and r = demo_result
        and crypto = "demo_large"] ri
    by (simp add: demo_client_def) (auto simp: demo_result_def demo_done_round_def)
qed

end
