(* ===== verification/Protocol.thy ===== *)
theory Protocol
  imports Client_Props
begin

text \<open>
  The composition: any number of clients, each running \<open>readUpdates\<close> and its goroutines, over one replicated log.

  \<^item> \<open>Sys\<close> is the state of the whole system: the states of the state machine that the log has gone
    through and that the servers send to their clients in this order, for every client the number of updates it
    has read and the local variables of its \<open>readUpdates\<close>, the goroutines it has started, and
    the operations that have been submitted.
  \<^item> A step is one read of a client, one run of a goroutine, or one entry of the log. Goroutines run
    at any time after they were started and more than once, submitted operations are applied
    at any time, in any order, any number of times or never: the client queue,
    the network and Raft are all covered by this. Anyone may submit join, start and abort operations.
  \<^item> \<open>world\<close> holds what the environment decides: for each client and round the random bytes of key
    generation, the message of the user, the random bytes of the header. The choices of \<open>rand.Shuffle\<close>,
    and the flags of a client (active, leaving), come with the steps.

  \<open>Protocol_Props\<close> shows what the clients report at the end of a round.
\<close>

record world =
  w_prime :: "nat \<Rightarrow> bool"
  w_sha256 :: "bytes \<Rightarrow> bytes"
  w_conf :: ClientConfig
  w_random :: "uuid \<Rightarrow> int \<Rightarrow> reader"
  w_user :: "uuid \<Rightarrow> int \<Rightarrow> bytes option"
  w_header :: "uuid \<Rightarrow> int \<Rightarrow> reader"
  w_header' :: "uuid \<Rightarrow> int \<Rightarrow> reader"
  w_start :: "uuid \<Rightarrow> nat"

definition w_cm :: "world \<Rightarrow> masseyOmuraCrypto crypto_methods" where
  "w_cm w = masseyOmura_methods (w_prime w)"

record Sys =
  sy_hist :: "masseyOmuraCrypto StateMachine list"
  sy_pos :: "uuid \<Rightarrow> nat"
  sy_rs :: "uuid \<Rightarrow> masseyOmuraCrypto ReadState"
  sy_tasks :: "(uuid \<times> masseyOmuraCrypto task) list"
  sy_ops :: "masseyOmuraCrypto Op list"

datatype sys_event =
    ERead "masseyOmuraCrypto Client"
  | ETask nat "masseyOmuraCrypto Client" "nat \<Rightarrow> nat"
  | EExtern "masseyOmuraCrypto Op"
  | ELog nat

fun task_round :: "'c task \<Rightarrow> int" where
  "task_round (TSubmit round ri me encryptKey revealKey) = round"
| "task_round _ = 0"

definition env_of :: "world \<Rightarrow> uuid \<Rightarrow> int \<Rightarrow> (nat \<Rightarrow> nat) \<Rightarrow> task_env" where
  "env_of w pid round draw = \<lparr>te_now = 0, te_user = w_user w pid round, te_random = w_header w pid round,
     te_random' = w_header' w pid round, te_draw = draw\<rparr>"

text \<open>A client that panics makes no step: its process has ended.\<close>

fun sys_step :: "world \<Rightarrow> Sys \<Rightarrow> sys_event \<Rightarrow> Sys" where
  "sys_step w s (ERead c) =
     (let pid = cl_Id c; pos = sy_pos s pid
      in if cl_Config c \<noteq> w_conf w \<or> length (sy_hist s) \<le> pos then s
         else case read_sm False (w_cm w) c (sy_rs s pid) (w_random w pid (sm_Round (sy_hist s ! pos))) (sy_hist s ! pos) of
           Inl panic \<Rightarrow> s
         | Inr (rs, ts, random) \<Rightarrow>
             s\<lparr>sy_pos := (sy_pos s)(pid := Suc pos), sy_rs := (sy_rs s)(pid := rs),
               sy_tasks := sy_tasks s @ map (Pair pid) ts\<rparr>)"
| "sys_step w s (ETask k c draw) =
     (if k < length (sy_tasks s) \<and> fst (sy_tasks s ! k) = cl_Id c \<and> cl_Config c = w_conf w
      then case task_op False (w_cm w) (w_sha256 w) (env_of w (cl_Id c) (task_round (snd (sy_tasks s ! k))) draw) c
               (snd (sy_tasks s ! k)) of
        Inr (Some op) \<Rightarrow> s\<lparr>sy_ops := sy_ops s @ [op]\<rparr>
      | _ \<Rightarrow> s
      else s)"
| "sys_step w s (EExtern op) =
     (if Op_Type op \<in> {JoinOpType, StartOpType, AbortOpType} then s\<lparr>sy_ops := sy_ops s @ [op]\<rparr> else s)"
| "sys_step w s (ELog k) =
     (if k < length (sy_ops s)
      then case Apply False (last (sy_hist s)) (sy_ops s ! k) of
        Inr (True, sm) \<Rightarrow> s\<lparr>sy_hist := sy_hist s @ [sm]\<rparr>
      | _ \<Rightarrow> s
      else s)"

definition rs_init :: "'c ReadState" where
  "rs_init = \<lparr>rs_lastResChSend = - 1, rs_lastMessageRound = - 1, rs_version = 0,
     rs_encryptKey = NilPrivateKey, rs_scrambleKey = NilPrivateKey, rs_revealKey = NilPrivateKey,
     rs_lastKeyGen = - 1, rs_lastRevealKeyHashes = [], rs_lastMessagesBeforeReveal = [],
     rs_lastRevealKeyHashesRound = - 1, rs_lastNumberOfMessageWhenScrambled = 0,
     rs_lastScrambledRound = - 1, rs_lastSm = sm_init\<rparr>"

lemma initReadState_eq: "initReadState debug = Inr (rs_init :: 'c ReadState)"
proof -
  have "NewStateMachine debug None = Inr (sm_init :: 'c StateMachine)" by (rule NewStateMachine_init)
  then show ?thesis by (simp add: initReadState_def NewStateMachine_def zero_StateMachine_def rs_init_def)
qed

definition sys_init :: "world \<Rightarrow> Sys" where
  "sys_init w = \<lparr>sy_hist = [sm_init], sy_pos = w_start w, sy_rs = (\<lambda>_. rs_init), sy_tasks = [], sy_ops = []\<rparr>"

definition sys_run :: "world \<Rightarrow> sys_event list \<Rightarrow> Sys" where
  "sys_run w es = foldl (sys_step w) (sys_init w) es"

subsection \<open>What a client has in a round: its keys and its message\<close>

definition gen_keys :: "masseyOmuraCrypto \<Rightarrow> reader \<Rightarrow> (PrivateKey \<times> PrivateKey \<times> PrivateKey) go" where
  "gen_keys mo random =
     go_bind (crypto_GenKey mo False random) (\<lambda>(e, random).
     go_bind (crypto_GenKey mo False random) (\<lambda>(s, random).
     go_bind (crypto_GenKey mo False random) (\<lambda>(k, random). Inr (e, s, k))))"

definition has_keys :: "world \<Rightarrow> masseyOmuraCrypto \<Rightarrow> int \<Rightarrow> uuid \<Rightarrow> bool" where
  "has_keys w mo r pid \<longleftrightarrow> (case gen_keys mo (w_random w pid r) of Inl _ \<Rightarrow> False | Inr _ \<Rightarrow> True)"

definition ekey :: "world \<Rightarrow> masseyOmuraCrypto \<Rightarrow> int \<Rightarrow> uuid \<Rightarrow> PrivateKey" where
  "ekey w mo r pid = (case gen_keys mo (w_random w pid r) of Inl _ \<Rightarrow> NilPrivateKey | Inr (e, s, k) \<Rightarrow> e)"

definition skey :: "world \<Rightarrow> masseyOmuraCrypto \<Rightarrow> int \<Rightarrow> uuid \<Rightarrow> PrivateKey" where
  "skey w mo r pid = (case gen_keys mo (w_random w pid r) of Inl _ \<Rightarrow> NilPrivateKey | Inr (e, s, k) \<Rightarrow> s)"

definition rkey :: "world \<Rightarrow> masseyOmuraCrypto \<Rightarrow> int \<Rightarrow> uuid \<Rightarrow> PrivateKey" where
  "rkey w mo r pid = (case gen_keys mo (w_random w pid r) of Inl _ \<Rightarrow> NilPrivateKey | Inr (e, s, k) \<Rightarrow> k)"

lemma gen_keys_eq:
  "gen_keys mo (w_random w pid r) = Inr (e, s, k) \<Longrightarrow>
   has_keys w mo r pid \<and> ekey w mo r pid = e \<and> skey w mo r pid = s \<and> rkey w mo r pid = k"
  by (simp add: has_keys_def ekey_def skey_def rkey_def)

text \<open>The size that messages may have, what the user says, and what the client sends for it.\<close>

definition w_size :: "world \<Rightarrow> int" where
  "w_size w = cfg_MessageSize (w_conf w)"

definition said :: "world \<Rightarrow> int \<Rightarrow> uuid \<Rightarrow> bytes" where
  "said w r pid = (case w_user w pid r of None \<Rightarrow> [] | Some m \<Rightarrow> m)"

definition sent :: "world \<Rightarrow> int \<Rightarrow> uuid \<Rightarrow> bytes" where
  "sent w r pid = (if int (length (said w r pid)) > w_size w then [] else said w r pid)"

definition header :: "world \<Rightarrow> int \<Rightarrow> uuid \<Rightarrow> bytes" where
  "header w r pid = replicate 8 13 @ go_copy (replicate 8 0)
     (take 8 (if int (length (said w r pid)) > w_size w then w_header' w pid r else w_header w pid r))"

definition plain :: "world \<Rightarrow> masseyOmuraCrypto \<Rightarrow> int \<Rightarrow> uuid \<Rightarrow> Msg" where
  "plain w mo r pid = (case crypto_PrepareMsg mo (header w r pid @ sent w r pid) of Inr (Inr m) \<Rightarrow> m | _ \<Rightarrow> NilMsg)"

text \<open>
  The assumptions on the environment: the primality test accepts only primes, and no user message has exactly
  the maximum size (such a message is not recovered, see \<open>PrepareMsg_full_size_lost\<close>).
\<close>

definition wf_world :: "world \<Rightarrow> bool" where
  "wf_world w \<longleftrightarrow> (\<forall>n. w_prime w n \<longrightarrow> is_prime n) \<and> 0 < w_size w \<and>
     (\<forall>pid r. int (length (said w r pid)) \<noteq> w_size w)"

definition good_crypto :: "world \<Rightarrow> masseyOmuraCrypto \<Rightarrow> bool" where
  "good_crypto w mo \<longleftrightarrow> crypto_Verify (w_prime w) mo (w_size w + int messageHeaderLength) = None"

definition keys_ok :: "world \<Rightarrow> masseyOmuraCrypto \<Rightarrow> int \<Rightarrow> uuid \<Rightarrow> bool" where
  "keys_ok w mo r pid \<longleftrightarrow> crypto_key_ok mo (ekey w mo r pid) \<and> crypto_key_ok mo (skey w mo r pid) \<and>
     crypto_key_ok mo (rkey w mo r pid) \<and> \<not> PrivateKey_Nil (rkey w mo r pid)"

lemma good_crypto_prime: "wf_world w \<Longrightarrow> good_crypto w mo \<Longrightarrow> is_prime (getP mo)"
  by (auto simp: wf_world_def good_crypto_def crypto_Verify_def VerifySysKey_def createSysKey_def split: if_splits)

lemma good_crypto_size:
  assumes "wf_world w" and "good_crypto w mo"
  shows "bytesMaxSize (int (big_BitLen (getP mo))) = w_size w + int messageHeaderLength"
proof -
  have "int (big_BitLen (getP mo)) = BitsMaxSize (w_size w + int messageHeaderLength)"
    using assms(2) by (auto simp: good_crypto_def crypto_Verify_def VerifySysKey_def createSysKey_def split: if_splits)
  then show ?thesis using assms(1) by (simp add: bytesMaxSize_BitsMaxSize wf_world_def)
qed

lemma good_keys:
  assumes "wf_world w" and "good_crypto w mo" and "has_keys w mo r pid"
  shows "keys_ok w mo r pid"
proof -
  obtain e s k where gen: "gen_keys mo (w_random w pid r) = Inr (e, s, k)"
    using assms(3) by (auto simp: has_keys_def split: sum.splits)
  then show ?thesis
    using gen_keys_eq [OF gen] crypto_GenKey_ok [OF good_crypto_prime [OF assms(1,2)]]
    by (auto simp: gen_keys_def keys_ok_def elim!: go_bindE)
qed

lemma length_header: "length (header w r pid) = messageHeaderLength"
  by (simp add: header_def messageHeaderLength_def)

lemma header_is_ok: "header_ok (header w r pid @ m)"
  by (simp add: header_def header_ok_def nth_append)

lemma good_plain:
  assumes "wf_world w" and "good_crypto w mo"
  shows "crypto_PrepareMsg mo (header w r pid @ sent w r pid) = Inr (Inr (plain w mo r pid))"
    and "crypto_msg_ok mo (plain w mo r pid)"
    and "crypto_ExtractMsg mo (plain w mo r pid) = Inr (header w r pid @ sent w r pid)"
proof -
  have "int (length (said w r pid)) \<noteq> w_size w" and "0 < w_size w" using assms(1) by (auto simp: wf_world_def)
  then have "int (length (sent w r pid)) < w_size w" by (simp add: sent_def)
  then have "int (length (header w r pid @ sent w r pid)) < bytesMaxSize (int (big_BitLen (getP mo)))"
    by (simp add: length_header good_crypto_size [OF assms])
  from crypto_PrepareMsg_ok [OF this]
  show "crypto_PrepareMsg mo (header w r pid @ sent w r pid) = Inr (Inr (plain w mo r pid))"
    and "crypto_msg_ok mo (plain w mo r pid)"
    and "crypto_ExtractMsg mo (plain w mo r pid) = Inr (header w r pid @ sent w r pid)"
    by (auto simp: plain_def)
qed

subsection \<open>Messages under a multiset of keys\<close>

definition locked :: "masseyOmuraCrypto \<Rightarrow> PrivateKey multiset \<Rightarrow> Msg \<Rightarrow> Msg \<Rightarrow> bool" where
  "locked mo K m m' \<longleftrightarrow> (\<exists>ks. mset ks = K \<and> m' = fold (crypto_Encrypt mo) ks m)"

lemma locked_add: "locked mo K m m' \<Longrightarrow> locked mo (add_mset k K) m (crypto_Encrypt mo k m')"
  unfolding locked_def
proof (elim exE conjE)
  fix ks
  assume "mset ks = K" and "m' = fold (crypto_Encrypt mo) ks m"
  then show "\<exists>ks'. mset ks' = add_mset k K \<and> crypto_Encrypt mo k m' = fold (crypto_Encrypt mo) ks' m"
    by (intro exI [of _ "ks @ [k]"]) simp
qed

lemma locked_remove:
  assumes "locked mo (add_mset k K) m m'" and "crypto_key_ok mo k" and "\<forall>l \<in># K. crypto_key_ok mo l"
    and "crypto_msg_ok mo m"
  shows "locked mo K m (crypto_Decrypt mo k m')"
proof -
  obtain ks where ks: "mset ks = add_mset k K" "m' = fold (crypto_Encrypt mo) ks m"
    using assms(1) by (auto simp: locked_def)
  have set_ks: "set ks = insert k (set_mset K)" using arg_cong [OF ks(1), of set_mset] by simp
  then have ok: "\<forall>l \<in> set ks. crypto_key_ok mo l" using assms(2,3) by simp
  have "m' = crypto_Encrypt mo k (fold (crypto_Encrypt mo) (remove1 k ks) m)"
    unfolding ks(2) using ok assms(4) set_ks by (intro mo_crypto.enc_all_remove1) auto
  moreover have "crypto_msg_ok mo (fold (crypto_Encrypt mo) (remove1 k ks) m)"
    using ok assms(4) set_remove1_subset [of k ks] by (intro mo_crypto.enc_all_ok) auto
  ultimately have "crypto_Decrypt mo k m' = fold (crypto_Encrypt mo) (remove1 k ks) m"
    using assms(2) by (simp add: mo_crypto.dec_enc)
  moreover have "mset (remove1 k ks) = K" using ks(1) by simp
  ultimately show ?thesis unfolding locked_def by blast
qed

lemma locked_all_removed:
  assumes "locked mo (mset ks) m m'" and "\<forall>k \<in> set ks. crypto_key_ok mo k" and "crypto_msg_ok mo m"
  shows "fold (crypto_Decrypt mo) ks m' = m"
proof -
  obtain ks' where ks': "mset ks' = mset ks" "m' = fold (crypto_Encrypt mo) ks' m"
    using assms(1) by (auto simp: locked_def)
  moreover have "\<forall>k \<in> set ks'. crypto_key_ok mo k" using assms(2) mset_eq_setD [OF ks'(1)] by simp
  ultimately show ?thesis using mo_crypto.dec_all_enc_all assms(3) by blast
qed

lemma locked_ok:
  "locked mo K m m' \<Longrightarrow> \<forall>k \<in># K. crypto_key_ok mo k \<Longrightarrow> crypto_msg_ok mo m \<Longrightarrow> crypto_msg_ok mo m'"
  by (auto simp: locked_def intro!: mo_crypto.enc_all_ok)

end
