(* ===== verification/Protocol_Rounds.thy ===== *)
theory Protocol_Rounds
  imports Protocol
begin

text \<open>
  What the current round of the state machine holds while every participant follows the protocol: \<open>round_ok\<close>
  says for each phase under which keys the messages are encrypted and which hashes and keys are
  stored, \<open>op_good\<close> what an operation of a client contains, and \<open>round_ok_step\<close> and \<open>round_ok_finish\<close> that
  such operations keep \<open>round_ok\<close>.
\<close>

text \<open>The keys of participant \<open>j\<close> under which every message is, from the scramble phase on.\<close>

definition part :: "world \<Rightarrow> masseyOmuraCrypto \<Rightarrow> int \<Rightarrow> masseyOmuraCrypto RoundInfo \<Rightarrow> nat \<Rightarrow> PrivateKey multiset" where
  "part w mo r ri j =
     (let pid = ri_Participants ri ! j
      in (if ri_Decrypted ri ! j then {#} else {#ekey w mo r pid#}) +
         (if ri_Scrambled ri ! j then add_mset (rkey w mo r pid) (if ri_Decrypted ri ! j then {#} else {#skey w mo r pid#})
          else {#}))"

definition parts :: "world \<Rightarrow> masseyOmuraCrypto \<Rightarrow> int \<Rightarrow> masseyOmuraCrypto RoundInfo \<Rightarrow> PrivateKey multiset" where
  "parts w mo r ri = (\<Sum>j < length (ri_Participants ri). part w mo r ri j)"

text \<open>The keys under which the message of participant \<open>i\<close> is in the encrypt phase.\<close>

definition eparts :: "world \<Rightarrow> masseyOmuraCrypto \<Rightarrow> int \<Rightarrow> masseyOmuraCrypto RoundInfo \<Rightarrow> nat \<Rightarrow> PrivateKey multiset" where
  "eparts w mo r ri i = (\<Sum>j < length (ri_Participants ri).
     if j = i \<or> ri_Encrypted ri ! j then {#ekey w mo r (ri_Participants ri ! j)#} else {#})"

definition submitted_ok :: "world \<Rightarrow> int \<Rightarrow> masseyOmuraCrypto RoundInfo \<Rightarrow> nat \<Rightarrow> bool" where
  "submitted_ok w r ri i \<longleftrightarrow> (\<exists>mo. ri_Crypto ri = Some mo \<and> good_crypto w mo \<and>
     keys_ok w mo r (ri_Participants ri ! i) \<and>
     ri_Messages ri ! i = crypto_Encrypt mo (ekey w mo r (ri_Participants ri ! i)) (plain w mo r (ri_Participants ri ! i)) \<and>
     ri_RevealKeyHashes ri ! i = PrivateKey_Hash (w_sha256 w) (rkey w mo r (ri_Participants ri ! i)))"

definition contents_ok :: "world \<Rightarrow> masseyOmuraCrypto \<Rightarrow> int \<Rightarrow> masseyOmuraCrypto RoundInfo \<Rightarrow> bool" where
  "contents_ok w mo r ri \<longleftrightarrow>
     (if ri_Phase ri = EncryptPhase
      then \<forall>i < length (ri_Participants ri).
        locked mo (eparts w mo r ri i) (plain w mo r (ri_Participants ri ! i)) (ri_Messages ri ! i)
      else \<exists>ps. mset ps = mset (ri_Participants ri) \<and>
        list_all2 (\<lambda>p. locked mo (parts w mo r ri) (plain w mo r p)) ps (ri_Messages ri))"

definition locked_phase :: "Phase \<Rightarrow> bool" where
  "locked_phase ph \<longleftrightarrow> ph \<in> {EncryptPhase, ScramblePhase, DecryptPhase, RevealPhase, DonePhase}"

text \<open>
  \<open>R\<close> are the local variables of the clients: who has a message in the round has generated its keys for this
  round, who has scrambled or revealed has recorded that it did.
\<close>

definition member_ok :: "world \<Rightarrow> (uuid \<Rightarrow> masseyOmuraCrypto ReadState) \<Rightarrow> masseyOmuraCrypto \<Rightarrow> int \<Rightarrow>
    masseyOmuraCrypto RoundInfo \<Rightarrow> nat \<Rightarrow> bool" where
  "member_ok w R mo r ri i \<longleftrightarrow>
     (let pid = ri_Participants ri ! i
      in r \<le> rs_lastKeyGen (R pid) \<and> keys_ok w mo r pid \<and>
         ri_RevealKeyHashes ri ! i = PrivateKey_Hash (w_sha256 w) (rkey w mo r pid) \<and>
         (ri_Scrambled ri ! i \<longrightarrow> r \<le> rs_lastScrambledRound (R pid)) \<and>
         (\<not> PrivateKey_Nil (ri_RevealedKeys ri ! i) \<longrightarrow>
            ri_RevealedKeys ri ! i = rkey w mo r pid \<and> r \<le> rs_lastRevealKeyHashesRound (R pid)))"

definition round_ok :: "world \<Rightarrow> (uuid \<Rightarrow> masseyOmuraCrypto ReadState) \<Rightarrow> int \<Rightarrow> masseyOmuraCrypto RoundInfo \<Rightarrow> bool" where
  "round_ok w R r ri \<longleftrightarrow>
     (ri_Phase ri = SubmitPhase \<longrightarrow>
       (\<forall>i < length (ri_Participants ri). \<not> Msg_Nil (ri_Messages ri ! i) \<longrightarrow>
          submitted_ok w r ri i \<and> r \<le> rs_lastKeyGen (R (ri_Participants ri ! i)))) \<and>
     (locked_phase (ri_Phase ri) \<longrightarrow>
       (\<exists>mo. ri_Crypto ri = Some mo \<and> good_crypto w mo \<and> length (ri_Messages ri) = length (ri_Participants ri) \<and>
         contents_ok w mo r ri \<and> (\<forall>i < length (ri_Participants ri). member_ok w R mo r ri i)))"

text \<open>What an operation of a client contains, computed from the round \<open>ri\<close>.\<close>

definition op_good :: "world \<Rightarrow> (uuid \<Rightarrow> masseyOmuraCrypto ReadState) \<Rightarrow> int \<Rightarrow> masseyOmuraCrypto RoundInfo \<Rightarrow>
    masseyOmuraCrypto Op \<Rightarrow> bool" where
  "op_good w R r ri op \<longleftrightarrow>
     (case op of
        MessageOp pid _ m h \<Rightarrow> r \<le> rs_lastKeyGen (R pid) \<and>
          (\<exists>mo. ri_Crypto ri = Some mo \<and> good_crypto w mo \<and> keys_ok w mo r pid \<and>
             m = crypto_Encrypt mo (ekey w mo r pid) (plain w mo r pid) \<and> h = PrivateKey_Hash (w_sha256 w) (rkey w mo r pid))
      | EncryptedOp pid _ ms _ \<Rightarrow>
          (\<exists>mo p. ri_Crypto ri = Some mo \<and> p < length (ri_Participants ri) \<and> ri_Participants ri ! p = pid \<and>
             length ms = length (ri_Messages ri) \<and>
             (\<forall>i < length ms. ms ! i = (if i = p then ri_Messages ri ! i
                else crypto_Encrypt mo (ekey w mo r pid) (ri_Messages ri ! i))))
      | ScrambledOp pid _ ms \<Rightarrow> r \<le> rs_lastScrambledRound (R pid) \<and>
          (\<exists>mo. ri_Crypto ri = Some mo \<and> mset ms = mset (map (\<lambda>m. crypto_Encrypt mo (rkey w mo r pid)
             (crypto_Encrypt mo (skey w mo r pid) m)) (ri_Messages ri)))
      | DecryptedOp pid _ ms _ \<Rightarrow>
          (\<exists>mo. ri_Crypto ri = Some mo \<and> ms = map (\<lambda>m. crypto_Decrypt mo (ekey w mo r pid)
             (crypto_Decrypt mo (skey w mo r pid) m)) (ri_Messages ri))
      | RevealOp pid _ k \<Rightarrow> r \<le> rs_lastRevealKeyHashesRound (R pid) \<and> (\<exists>mo. ri_Crypto ri = Some mo \<and> k = rkey w mo r pid)
      | _ \<Rightarrow> True)"

subsection \<open>Sums of keys\<close>

lemma sum_upd:
  fixes f g :: "nat \<Rightarrow> 'a multiset"
  assumes "p < n" and "\<And>j. j < n \<Longrightarrow> j \<noteq> p \<Longrightarrow> g j = f j" and "g p = f p + A"
  shows "(\<Sum>j < n. g j) = (\<Sum>j < n. f j) + A"
proof -
  have "(\<Sum>j < n. g j) = g p + (\<Sum>j \<in> {..<n} - {p}. g j)" using assms(1) by (intro sum.remove) auto
  also have "(\<Sum>j \<in> {..<n} - {p}. g j) = (\<Sum>j \<in> {..<n} - {p}. f j)" using assms(2) by (intro sum.cong) auto
  also have "g p + (\<Sum>j \<in> {..<n} - {p}. f j) = (f p + (\<Sum>j \<in> {..<n} - {p}. f j)) + A" using assms(3) by simp
  also have "f p + (\<Sum>j \<in> {..<n} - {p}. f j) = (\<Sum>j < n. f j)" using assms(1) by (intro sum.remove [symmetric]) auto
  finally show ?thesis .
qed

lemma sum_mset_of: "(\<Sum>j < n. {#f j#}) = mset (map f [0..<n])"
  by (induction n) simp_all

lemma in_sum: "k \<in># (\<Sum>j < (n :: nat). f j) \<longleftrightarrow> (\<exists>j < n. k \<in># f j)"
  by (induction n) (auto simp: less_Suc_eq)

lemma parts_key_ok:
  "k \<in># parts w mo r ri \<Longrightarrow> \<forall>i < length (ri_Participants ri). keys_ok w mo r (ri_Participants ri ! i) \<Longrightarrow> crypto_key_ok mo k"
  by (auto simp: parts_def in_sum part_def Let_def keys_ok_def split: if_splits)

lemma eparts_own:
  assumes "i < length (ri_Participants ri)" and "\<forall>j < length (ri_Participants ri). \<not> ri_Encrypted ri ! j"
  shows "eparts w mo r ri i = {#ekey w mo r (ri_Participants ri ! i)#}"
proof -
  have "eparts w mo r ri i = (\<Sum>j < length (ri_Participants ri).
      if j = i then {#ekey w mo r (ri_Participants ri ! j)#} else {#})"
    unfolding eparts_def using assms(2) by (intro sum.cong) auto
  also have "\<dots> = {#ekey w mo r (ri_Participants ri ! i)#}" using assms(1) by (simp add: sum.delta)
  finally show ?thesis .
qed

text \<open>When everyone has encrypted, nobody scrambled, the two descriptions agree.\<close>

lemma eparts_all:
  assumes "\<forall>j < length (ri_Participants ri). ri_Encrypted ri ! j \<and> \<not> ri_Scrambled ri ! j \<and> \<not> ri_Decrypted ri ! j"
  shows "eparts w mo r ri i = parts w mo r ri"
  unfolding eparts_def parts_def using assms by (intro sum.cong) (auto simp: part_def Let_def)

subsection \<open>Growing local variables\<close>

definition rs_up :: "'c ReadState \<Rightarrow> 'c ReadState \<Rightarrow> bool" where
  "rs_up rs rs' \<longleftrightarrow> rs_lastKeyGen rs \<le> rs_lastKeyGen rs' \<and> rs_lastScrambledRound rs \<le> rs_lastScrambledRound rs' \<and>
     rs_lastRevealKeyHashesRound rs \<le> rs_lastRevealKeyHashesRound rs'"

lemma rs_upD:
  assumes "\<forall>pid. rs_up (R pid) (R' pid)"
  shows "r \<le> rs_lastKeyGen (R pid) \<Longrightarrow> r \<le> rs_lastKeyGen (R' pid)"
    and "r \<le> rs_lastScrambledRound (R pid) \<Longrightarrow> r \<le> rs_lastScrambledRound (R' pid)"
    and "r \<le> rs_lastRevealKeyHashesRound (R pid) \<Longrightarrow> r \<le> rs_lastRevealKeyHashesRound (R' pid)"
  using assms by (auto simp: rs_up_def intro: order_trans)

lemma round_ok_up: "\<forall>pid. rs_up (R pid) (R' pid) \<Longrightarrow> round_ok w R r ri \<Longrightarrow> round_ok w R' r ri"
proof -
  assume up: "\<forall>pid. rs_up (R pid) (R' pid)" and ok: "round_ok w R r ri"
  have "member_ok w R mo r ri i \<Longrightarrow> member_ok w R' mo r ri i" for mo i
    by (auto simp: member_ok_def Let_def intro: rs_upD [OF up])
  with ok show ?thesis by (auto simp: round_ok_def intro: rs_upD [OF up])
qed

lemma op_good_up:
  assumes "\<forall>pid. rs_up (R pid) (R' pid)" and "op_good w R r ri op"
  shows "op_good w R' r ri op"
  using assms(2) by (cases op) (auto simp: op_good_def intro: rs_upD [OF assms(1)])

subsection \<open>The flags of one participant\<close>

lemma nth_flag:
  "\<forall>s \<in> set ss. \<not> s \<Longrightarrow> i < length ss \<Longrightarrow> \<not> ss ! i" "\<forall>s \<in> set ss. s \<Longrightarrow> i < length ss \<Longrightarrow> ss ! i"
  by (drule bspec, erule nth_mem, assumption)+

lemma flags_nth:
  assumes "ri_inv ri" and "i < length (ri_Participants ri)"
  shows "ri_Phase ri \<in> {PreparePhase, SubmitPhase} \<Longrightarrow> \<not> ri_Encrypted ri ! i"
    and "ri_Phase ri \<in> {PreparePhase, SubmitPhase, EncryptPhase} \<Longrightarrow> \<not> ri_Scrambled ri ! i"
    and "ri_Phase ri \<in> {PreparePhase, SubmitPhase, EncryptPhase, ScramblePhase} \<Longrightarrow> \<not> ri_Decrypted ri ! i"
    and "ri_Phase ri \<in> {PreparePhase, SubmitPhase, EncryptPhase, ScramblePhase, DecryptPhase} \<Longrightarrow>
      PrivateKey_Nil (ri_RevealedKeys ri ! i)"
    and "ri_Phase ri \<in> {ScramblePhase, DecryptPhase, RevealPhase, DonePhase} \<Longrightarrow> ri_Encrypted ri ! i"
    and "ri_Phase ri \<in> {DecryptPhase, RevealPhase, DonePhase} \<Longrightarrow> ri_Scrambled ri ! i"
    and "ri_Phase ri \<in> {RevealPhase, DonePhase} \<Longrightarrow> ri_Decrypted ri ! i"
    and "ri_Phase ri = DonePhase \<Longrightarrow> \<not> PrivateKey_Nil (ri_RevealedKeys ri ! i)"
proof -
  have len: "i < length (ri_Encrypted ri)" "i < length (ri_Scrambled ri)" "i < length (ri_Decrypted ri)"
    "i < length (ri_RevealedKeys ri)"
    using assms by (simp_all add: ri_inv_def lists_ok_def)
  have "barrier ri" using assms(1) by (simp add: ri_inv_def)
  note b = this [unfolded barrier_def]
  show "ri_Phase ri \<in> {PreparePhase, SubmitPhase} \<Longrightarrow> \<not> ri_Encrypted ri ! i"
    by (rule nth_flag(1) [OF b [THEN conjunct1, THEN mp] len(1)])
  show "ri_Phase ri \<in> {PreparePhase, SubmitPhase, EncryptPhase} \<Longrightarrow> \<not> ri_Scrambled ri ! i"
    by (rule nth_flag(1) [OF b [THEN conjunct2, THEN conjunct1, THEN mp] len(2)])
  show "ri_Phase ri \<in> {PreparePhase, SubmitPhase, EncryptPhase, ScramblePhase} \<Longrightarrow> \<not> ri_Decrypted ri ! i"
    by (rule nth_flag(1) [OF b [THEN conjunct2, THEN conjunct2, THEN conjunct1, THEN mp] len(3)])
  show "ri_Phase ri \<in> {ScramblePhase, DecryptPhase, RevealPhase, DonePhase} \<Longrightarrow> ri_Encrypted ri ! i"
    by (rule nth_flag(2) [OF b [THEN conjunct2, THEN conjunct2, THEN conjunct2, THEN conjunct2, THEN conjunct1, THEN mp] len(1)])
  show "ri_Phase ri \<in> {DecryptPhase, RevealPhase, DonePhase} \<Longrightarrow> ri_Scrambled ri ! i"
    by (rule nth_flag(2) [OF b [THEN conjunct2, THEN conjunct2, THEN conjunct2, THEN conjunct2, THEN conjunct2, THEN conjunct1, THEN mp] len(2)])
  show "ri_Phase ri \<in> {RevealPhase, DonePhase} \<Longrightarrow> ri_Decrypted ri ! i"
    by (rule nth_flag(2) [OF b [THEN conjunct2, THEN conjunct2, THEN conjunct2, THEN conjunct2, THEN conjunct2, THEN conjunct2, THEN conjunct1, THEN mp] len(3)])
  show "ri_Phase ri \<in> {PreparePhase, SubmitPhase, EncryptPhase, ScramblePhase, DecryptPhase} \<Longrightarrow>
      PrivateKey_Nil (ri_RevealedKeys ri ! i)"
    by (rule bspec [OF b [THEN conjunct2, THEN conjunct2, THEN conjunct2, THEN conjunct1, THEN mp] nth_mem [OF len(4)]])
  show "ri_Phase ri = DonePhase \<Longrightarrow> \<not> PrivateKey_Nil (ri_RevealedKeys ri ! i)"
    by (rule bspec [OF b [THEN conjunct2, THEN conjunct2, THEN conjunct2, THEN conjunct2, THEN conjunct2, THEN conjunct2, THEN conjunct2, THEN mp] nth_mem [OF len(4)]])
qed

subsection \<open>Submitting\<close>

lemma all_submitted:
  assumes "\<forall>i < length (ri_Participants ri). submitted_ok w r ri i \<and> r \<le> rs_lastKeyGen (R (ri_Participants ri ! i))"
    and "ri_Phase ri = EncryptPhase" and "0 < length (ri_Participants ri)"
    and "length (ri_Messages ri) = length (ri_Participants ri)"
    and "\<forall>i < length (ri_Participants ri). \<not> ri_Encrypted ri ! i \<and> \<not> ri_Scrambled ri ! i \<and> PrivateKey_Nil (ri_RevealedKeys ri ! i)"
  shows "round_ok w R r ri"
proof -
  obtain mo where mo: "ri_Crypto ri = Some mo" "good_crypto w mo"
    using assms(1,3) by (auto simp: submitted_ok_def)
  have sub: "keys_ok w mo r (ri_Participants ri ! i)"
    "ri_Messages ri ! i = crypto_Encrypt mo (ekey w mo r (ri_Participants ri ! i)) (plain w mo r (ri_Participants ri ! i))"
    "ri_RevealKeyHashes ri ! i = PrivateKey_Hash (w_sha256 w) (rkey w mo r (ri_Participants ri ! i))"
    if "i < length (ri_Participants ri)" for i
    using assms(1) that mo by (auto simp: submitted_ok_def)
  have "locked mo (eparts w mo r ri i) (plain w mo r (ri_Participants ri ! i)) (ri_Messages ri ! i)"
    if "i < length (ri_Participants ri)" for i
  proof -
    have "eparts w mo r ri i = {#ekey w mo r (ri_Participants ri ! i)#}" using that assms(5) by (intro eparts_own) auto
    then show ?thesis
      using locked_add [of mo "{#}"] that by (simp add: sub(2) [OF that]) (auto simp: locked_def)
  qed
  then have "contents_ok w mo r ri" by (simp add: contents_ok_def assms(2))
  with mo sub assms show ?thesis by (auto simp: round_ok_def member_ok_def locked_phase_def Let_def)
qed

lemma round_ok_message:
  assumes "round_ok w R r ri" and "ri_inv ri" and "op_good w R r ri (MessageOp pid rr m h)"
    and "ri_step ri (MessageOp pid rr m h) ri'" and "wf_world w"
  shows "round_ok w R r ri'"
proof -
  obtain p where submit: "ri_Phase ri = SubmitPhase" and p: "p < length (ri_Participants ri)" "ri_Participants ri ! p = pid"
    and ri': "ri' = ri\<lparr>ri_Messages := (ri_Messages ri)[p := m], ri_RevealKeyHashes := (ri_RevealKeyHashes ri)[p := h],
      ri_Phase := (if \<exists>x \<in> set ((ri_Messages ri)[p := m]). Msg_Nil x then SubmitPhase else EncryptPhase)\<rparr>"
    using assms(4) by (auto simp: ri_step_simps)
  have len: "length (ri_Messages ri) = length (ri_Participants ri)" "length (ri_RevealKeyHashes ri) = length (ri_Participants ri)"
    "length (ri_Encrypted ri) = length (ri_Participants ri)" "length (ri_Scrambled ri) = length (ri_Participants ri)"
    "length (ri_RevealedKeys ri) = length (ri_Participants ri)"
    using assms(2) submit by (auto simp: ri_inv_def lists_ok_def)
  have flags: "\<not> ri_Encrypted ri ! i" "\<not> ri_Scrambled ri ! i" "PrivateKey_Nil (ri_RevealedKeys ri ! i)"
    if "i < length (ri_Participants ri)" for i
    using flags_nth [OF assms(2) that] submit by simp_all
  have sub: "submitted_ok w r ri' i \<and> r \<le> rs_lastKeyGen (R (ri_Participants ri ! i))"
    if "i < length (ri_Participants ri)" "\<not> Msg_Nil (ri_Messages ri' ! i)" for i
  proof (cases "i = p")
    case True
    then show ?thesis using assms(3) p len by (auto simp: op_good_def submitted_ok_def ri')
  next
    case False
    then show ?thesis using assms(1) submit that by (auto simp: round_ok_def submitted_ok_def ri')
  qed
  show ?thesis
  proof (cases "\<exists>x \<in> set ((ri_Messages ri)[p := m]). Msg_Nil x")
    case True
    then have "ri_Phase ri' = SubmitPhase" by (simp add: ri')
    then show ?thesis using sub by (simp add: round_ok_def locked_phase_def) (simp add: ri')
  next
    case False
    then have "\<not> Msg_Nil ((ri_Messages ri)[p := m] ! i)" if "i < length (ri_Participants ri)" for i
      using that len nth_mem [of i "(ri_Messages ri)[p := m]"] by auto
    then have "\<not> Msg_Nil (ri_Messages ri' ! i)" if "i < length (ri_Participants ri)" for i
      using that by (simp add: ri')
    then show ?thesis
      using sub False p len flags by (intro all_submitted) (auto simp: ri')
  qed
qed

subsection \<open>Encrypting, scrambling, decrypting and revealing\<close>

lemma round_okD:
  assumes "round_ok w R r ri" and "locked_phase (ri_Phase ri)"
  obtains mo where "ri_Crypto ri = Some mo" and "good_crypto w mo"
    and "length (ri_Messages ri) = length (ri_Participants ri)" and "contents_ok w mo r ri"
    and "\<And>i. i < length (ri_Participants ri) \<Longrightarrow> member_ok w R mo r ri i"
  using assms by (auto simp: round_ok_def)

lemma round_okI:
  assumes "ri_Phase ri \<noteq> SubmitPhase" and "ri_Crypto ri = Some mo" and "good_crypto w mo"
    and "length (ri_Messages ri) = length (ri_Participants ri)" and "contents_ok w mo r ri"
    and "\<And>i. i < length (ri_Participants ri) \<Longrightarrow> member_ok w R mo r ri i"
  shows "round_ok w R r ri"
  using assms by (auto simp: round_ok_def)

lemma round_ok_encrypted:
  assumes "round_ok w R r ri" and "ri_inv ri" and "op_good w R r ri (EncryptedOp pid rr ms prev)"
    and "ri_step ri (EncryptedOp pid rr ms prev) ri'"
  shows "round_ok w R r ri'"
proof -
  let ?n = "length (ri_Participants ri)"
  obtain p where enc: "ri_Phase ri = EncryptPhase" and p: "p < ?n" "ri_Participants ri ! p = pid" "\<not> ri_Encrypted ri ! p"
    and ri': "ri' = ri\<lparr>ri_Messages := ms, ri_Encrypted := (ri_Encrypted ri)[p := True],
      ri_Phase := (if Suc (numEncrypted ri) = ?n then ScramblePhase else EncryptPhase)\<rparr>"
    using assms(4) by (auto simp: ri_step_simps)
  have ok: "lists_ok ri" using assms(2) by (simp add: ri_inv_def)
  obtain mo where mo: "ri_Crypto ri = Some mo" "good_crypto w mo" "length (ri_Messages ri) = ?n" "contents_ok w mo r ri"
    "\<And>i. i < ?n \<Longrightarrow> member_ok w R mo r ri i"
    using assms(1) by (rule round_okD) (auto simp: enc locked_phase_def)
  have ms: "length ms = ?n" "i < ?n \<Longrightarrow> ms ! i = (if i = p then ri_Messages ri ! i
      else crypto_Encrypt mo (ekey w mo r pid) (ri_Messages ri ! i))" for i
    using assms(3) mo(1,3) p ok by (auto simp: op_good_def lists_ok_def nth_eq_iff_index_eq)
  have fields: "ri_Participants ri' = ri_Participants ri" "ri_Encrypted ri' = (ri_Encrypted ri)[p := True]" by (simp_all add: ri')
  have len: "length (ri_Encrypted ri) = ?n" using ok by (simp add: lists_ok_def)
  have locked: "locked mo (eparts w mo r ri' i) (plain w mo r (ri_Participants ri ! i)) (ms ! i)" if i: "i < ?n" for i
  proof -
    have old: "locked mo (eparts w mo r ri i) (plain w mo r (ri_Participants ri ! i)) (ri_Messages ri ! i)"
      using mo(4) enc i by (simp add: contents_ok_def)
    show ?thesis
    proof (cases "i = p")
      case True
      have "eparts w mo r ri' i = eparts w mo r ri i"
        unfolding eparts_def fields using True len by (intro sum.cong) (auto simp: nth_list_update)
      with True old ms i show ?thesis by simp
    next
      case False
      have "eparts w mo r ri' i = eparts w mo r ri i + {#ekey w mo r pid#}"
        unfolding eparts_def fields using False p len by (intro sum_upd [OF p(1)]) auto
      with False old ms i show ?thesis by (simp add: locked_add)
    qed
  qed
  have inv': "ri_inv ri'" by (rule ri_step_inv [OF assms(4,2)])
  have "contents_ok w mo r ri'"
  proof (cases "ri_Phase ri' = EncryptPhase")
    case True
    with locked show ?thesis by (simp add: contents_ok_def) (simp add: ri')
  next
    case False
    then have "ri_Phase ri' = ScramblePhase" by (auto simp: ri' split: if_splits)
    then have "eparts w mo r ri' i = parts w mo r ri'" for i
      using flags_nth(3,5) [OF inv'] flags_nth(2) [OF assms(2)] enc by (intro eparts_all) (auto simp: ri')
    with locked False ms(1) show ?thesis
      by (auto simp: contents_ok_def list_all2_conv_all_nth ri' intro!: exI [of _ "ri_Participants ri"])
  qed
  then show ?thesis
    using mo ms(1) by (intro round_okI [of _ mo]) (auto simp: ri' member_ok_def Let_def)
qed

lemma list_all2_reorder:
  assumes "list_all2 P xs ys" and "mset ys' = mset ys"
  shows "\<exists>xs'. mset xs' = mset xs \<and> list_all2 P xs' ys'"
proof -
  have "list_all2 (\<lambda>y x. P x y) ys xs" using assms(1) by (simp add: list_all2_conv_all_nth)
  from list_all2_reorder_left_invariance [OF this assms(2)] show ?thesis
    by (auto simp: list_all2_conv_all_nth)
qed

text \<open>Replacing every message by its image under a step that moves all of them to other keys.\<close>

lemma contents_ok_map:
  assumes "contents_ok w mo r ri" and "ri_Phase ri \<noteq> EncryptPhase" and "ri_Phase ri' \<noteq> EncryptPhase"
    and "ri_Participants ri' = ri_Participants ri" and "mset (ri_Messages ri') = mset (map f (ri_Messages ri))"
    and "\<And>p m. p \<in> set (ri_Participants ri) \<Longrightarrow> locked mo (parts w mo r ri) (plain w mo r p) m \<Longrightarrow>
      locked mo (parts w mo r ri') (plain w mo r p) (f m)"
  shows "contents_ok w mo r ri'"
proof -
  obtain ps where ps: "mset ps = mset (ri_Participants ri)"
    "list_all2 (\<lambda>p. locked mo (parts w mo r ri) (plain w mo r p)) ps (ri_Messages ri)"
    using assms(1,2) by (auto simp: contents_ok_def)
  have "list_all2 (\<lambda>p. locked mo (parts w mo r ri') (plain w mo r p)) ps (map f (ri_Messages ri))"
    using ps(2) mset_eq_setD [OF ps(1)] nth_mem [of _ ps] by (auto simp: list_all2_conv_all_nth intro!: assms(6))
  from list_all2_reorder [OF this assms(5)] obtain ps' where "mset ps' = mset ps"
    "list_all2 (\<lambda>p. locked mo (parts w mo r ri') (plain w mo r p)) ps' (ri_Messages ri')" by blast
  then show ?thesis using assms(3,4) ps(1) by (auto simp: contents_ok_def)
qed

lemma round_ok_scrambled:
  assumes "round_ok w R r ri" and "ri_inv ri" and "op_good w R r ri (ScrambledOp pid rr ms)"
    and "ri_step ri (ScrambledOp pid rr ms) ri'"
  shows "round_ok w R r ri'"
proof -
  let ?n = "length (ri_Participants ri)" and ?k = "numScrambled ri"
  have scr: "ri_Phase ri = ScramblePhase" and k: "?k < ?n" "ri_Participants ri ! ?k = pid"
    and ri': "ri' = ri\<lparr>ri_Messages := ms, ri_Scrambled := (ri_Scrambled ri)[?k := True],
      ri_Phase := (if Suc ?k = ?n then DecryptPhase else ScramblePhase)\<rparr>"
    using assms(4) by (auto simp: ri_step_simps)
  have ok: "lists_ok ri" using assms(2) by (simp add: ri_inv_def)
  obtain mo where mo: "ri_Crypto ri = Some mo" "good_crypto w mo" "length (ri_Messages ri) = ?n" "contents_ok w mo r ri"
    "\<And>i. i < ?n \<Longrightarrow> member_ok w R mo r ri i"
    using assms(1) by (rule round_okD) (auto simp: scr locked_phase_def)
  let ?f = "\<lambda>m. crypto_Encrypt mo (rkey w mo r pid) (crypto_Encrypt mo (skey w mo r pid) m)"
  have ms: "r \<le> rs_lastScrambledRound (R pid)" "mset ms = mset (map ?f (ri_Messages ri))"
    using assms(3) mo(1) by (auto simp: op_good_def)
  have fields: "ri_Participants ri' = ri_Participants ri" "ri_Scrambled ri' = (ri_Scrambled ri)[?k := True]"
    "ri_Decrypted ri' = ri_Decrypted ri" by (simp_all add: ri')
  have len: "length (ri_Scrambled ri) = ?n" using ok by (simp add: lists_ok_def)
  have parts: "parts w mo r ri' = parts w mo r ri + {#rkey w mo r pid, skey w mo r pid#}"
    unfolding parts_def fields
  proof (rule sum_upd [OF k(1)])
    show "part w mo r ri' ?k = part w mo r ri ?k + {#rkey w mo r pid, skey w mo r pid#}"
      using flags_nth(3) [OF assms(2) k(1)] scr scramble_turn [OF ok k(1)] k len by (simp add: part_def Let_def fields)
  qed (simp add: part_def Let_def fields)
  have lock: "locked mo (parts w mo r ri') (plain w mo r q) (?f m)" if "locked mo (parts w mo r ri) (plain w mo r q) m" for q m
    using locked_add [OF locked_add [OF that]] by (simp add: parts)
  have "contents_ok w mo r ri'"
    by (rule contents_ok_map [OF mo(4), where f = ?f]) (simp_all add: scr fields lock, simp_all add: ri' ms(2))
  moreover have "length ms = ?n" using ms(2) mo(3) by (metis length_map mset_eq_length)
  moreover have "member_ok w R mo r ri' i" if "i < ?n" for i
    using mo(5) [OF that] ms(1) k len that by (cases "i = ?k") (auto simp: member_ok_def Let_def ri')
  ultimately show ?thesis
    using mo by (intro round_okI [of _ mo]) (auto simp: ri')
qed

lemma round_ok_decrypted:
  assumes "round_ok w R r ri" and "ri_inv ri" and "op_good w R r ri (DecryptedOp pid rr ms prev)"
    and "ri_step ri (DecryptedOp pid rr ms prev) ri'" and "wf_world w"
  shows "round_ok w R r ri'"
proof -
  let ?n = "length (ri_Participants ri)"
  obtain p where dec: "ri_Phase ri = DecryptPhase" and p: "p < ?n" "ri_Participants ri ! p = pid" "\<not> ri_Decrypted ri ! p"
    and ri': "ri' = ri\<lparr>ri_Messages := ms, ri_Decrypted := (ri_Decrypted ri)[p := True],
      ri_Phase := (if Suc (numDecrypted ri) = ?n then RevealPhase else DecryptPhase)\<rparr>"
    using assms(4) by (auto simp: ri_step_simps)
  have ok: "lists_ok ri" using assms(2) by (simp add: ri_inv_def)
  obtain mo where mo: "ri_Crypto ri = Some mo" "good_crypto w mo" "length (ri_Messages ri) = ?n" "contents_ok w mo r ri"
    "\<And>i. i < ?n \<Longrightarrow> member_ok w R mo r ri i"
    using assms(1) by (rule round_okD) (auto simp: dec locked_phase_def)
  let ?f = "\<lambda>m. crypto_Decrypt mo (ekey w mo r pid) (crypto_Decrypt mo (skey w mo r pid) m)"
  have ms: "ms = map ?f (ri_Messages ri)" using assms(3) mo(1) by (auto simp: op_good_def)
  have fields: "ri_Participants ri' = ri_Participants ri" "ri_Scrambled ri' = ri_Scrambled ri"
    "ri_Decrypted ri' = (ri_Decrypted ri)[p := True]" by (simp_all add: ri')
  have len: "length (ri_Decrypted ri) = ?n" using ok by (simp add: lists_ok_def)
  have parts: "parts w mo r ri = parts w mo r ri' + {#skey w mo r pid, ekey w mo r pid#}"
    unfolding parts_def fields
  proof (rule sum_upd [OF p(1)])
    show "part w mo r ri p = part w mo r ri' p + {#skey w mo r pid, ekey w mo r pid#}"
      using flags_nth(6) [OF assms(2) p(1)] dec p len by (simp add: part_def Let_def fields)
  qed (simp add: part_def Let_def fields)
  have keys: "keys_ok w mo r (ri_Participants ri ! i)" if "i < ?n" for i
    using mo(5) [OF that] by (simp add: member_ok_def Let_def)
  have all_ok: "\<forall>k \<in># parts w mo r ri'. crypto_key_ok mo k" using parts_key_ok [of _ w mo r ri'] keys fields by auto
  have own: "crypto_key_ok mo (skey w mo r pid)" "crypto_key_ok mo (ekey w mo r pid)"
    using keys [OF p(1)] p(2) by (auto simp: keys_ok_def)
  have unlock: "locked mo (parts w mo r ri') (plain w mo r q) (?f m)" if "locked mo (parts w mo r ri) (plain w mo r q) m" for q m
  proof -
    have "locked mo (add_mset (ekey w mo r pid) (parts w mo r ri')) (plain w mo r q) (crypto_Decrypt mo (skey w mo r pid) m)"
      using that own all_ok good_plain(2) [OF assms(5) mo(2)] by (intro locked_remove) (auto simp: parts)
    then show ?thesis by (rule locked_remove [OF _ own(2) all_ok good_plain(2) [OF assms(5) mo(2)]])
  qed
  have "contents_ok w mo r ri'"
    by (rule contents_ok_map [OF mo(4), where f = ?f]) (simp_all add: dec fields unlock, simp_all add: ri' ms)
  moreover have "member_ok w R mo r ri' i" if "i < ?n" for i
    using mo(5) [OF that] by (simp add: member_ok_def Let_def ri')
  ultimately show ?thesis
    using mo ms by (intro round_okI [of _ mo]) (auto simp: ri')
qed

lemma parts_cong:
  "ri_Participants ri' = ri_Participants ri \<Longrightarrow> ri_Scrambled ri' = ri_Scrambled ri \<Longrightarrow> ri_Decrypted ri' = ri_Decrypted ri \<Longrightarrow>
   parts w mo r ri' = parts w mo r ri"
  by (simp only: parts_def part_def)

text \<open>A revealed key is stored, whether the round ends with it (\<open>ph\<close> is the done phase) or not.\<close>

lemma round_ok_reveal:
  assumes "round_ok w R r ri" and "ri_inv ri" and "op_good w R r ri (RevealOp pid rr key)"
    and "ri_Phase ri = RevealPhase" and "p < length (ri_Participants ri)" and "ri_Participants ri ! p = pid"
    and "ph \<in> {RevealPhase, DonePhase}"
    and ri': "ri' = ri\<lparr>ri_RevealedKeys := (ri_RevealedKeys ri)[p := key], ri_Phase := ph\<rparr>"
  shows "round_ok w R r ri'"
proof -
  let ?n = "length (ri_Participants ri)"
  obtain mo where mo: "ri_Crypto ri = Some mo" "good_crypto w mo" "length (ri_Messages ri) = ?n" "contents_ok w mo r ri"
    "\<And>i. i < ?n \<Longrightarrow> member_ok w R mo r ri i"
    using assms(1) by (rule round_okD) (auto simp: assms(4) locked_phase_def)
  have key: "r \<le> rs_lastRevealKeyHashesRound (R pid)" "key = rkey w mo r pid"
    using assms(3) mo(1) by (auto simp: op_good_def)
  have len: "length (ri_RevealedKeys ri) = ?n" using assms(2) by (simp add: ri_inv_def lists_ok_def)
  have ph: "ph \<noteq> EncryptPhase" "ph \<noteq> SubmitPhase" using assms(7) by auto
  have "parts w mo r ri' = parts w mo r ri" by (rule parts_cong) (simp_all add: ri')
  then have "contents_ok w mo r ri'" using mo(4) assms(4) ph by (simp add: contents_ok_def) (simp add: ri')
  moreover have "member_ok w R mo r ri' i" if "i < ?n" for i
    using mo(5) [OF that] key assms(5,6) len that by (cases "i = p") (auto simp: member_ok_def Let_def ri')
  ultimately show ?thesis using mo ph by (intro round_okI [of _ mo]) (auto simp: ri')
qed

lemma round_ok_step:
  assumes "round_ok w R r ri" and "ri_inv ri" and "op_good w R r ri op" and "ri_step ri op ri'" and "wf_world w"
  shows "round_ok w R r ri'"
proof (cases op)
  case (JoinOp pid rr)
  then show ?thesis using assms(4) by (auto simp: ri_step_simps round_ok_def locked_phase_def)
next
  case (StartOp pid rr crypto)
  then have prep: "ri_Phase ri = PreparePhase" and ri': "ri' = ri\<lparr>ri_Phase := SubmitPhase, ri_Crypto := crypto\<rparr>"
    using assms(4) by (auto simp: ri_step_simps)
  have "Msg_Nil (ri_Messages ri ! i)" if "i < length (ri_Participants ri)" for i
    using assms(2) prep that by (simp add: ri_inv_def unfinished_def lists_ok_def)
  then show ?thesis by (simp add: round_ok_def locked_phase_def ri')
next
  case (MessageOp pid rr m h)
  then show ?thesis using round_ok_message assms by blast
next
  case (EncryptedOp pid rr ms prev)
  then show ?thesis using round_ok_encrypted assms by blast
next
  case (ScrambledOp pid rr ms)
  then show ?thesis using round_ok_scrambled assms by blast
next
  case (DecryptedOp pid rr ms prev)
  then show ?thesis using round_ok_decrypted assms by blast
next
  case (RevealOp pid rr key)
  then obtain p where p: "ri_Phase ri = RevealPhase" "p < length (ri_Participants ri)" "ri_Participants ri ! p = pid"
    and ri': "ri' = ri\<lparr>ri_RevealedKeys := (ri_RevealedKeys ri)[p := key]\<rparr>"
    using assms(4) by (auto simp: ri_step_simps)
  then have "ri' = ri\<lparr>ri_RevealedKeys := (ri_RevealedKeys ri)[p := key], ri_Phase := RevealPhase\<rparr>" by (cases ri) simp
  then show ?thesis by (rule round_ok_reveal [OF assms(1,2) assms(3) [unfolded RevealOp] p insertI1])
next
  case (AbortOp rr)
  then show ?thesis using assms(4) by (simp add: ri_step_simps)
qed

lemma round_ok_finish:
  assumes "round_ok w R r ri" and "ri_inv ri" and "op_good w R r ri op" and "ri_finish ri op ri'"
  shows "round_ok w R r ri'"
  using assms(4)
proof (cases rule: ri_finish.cases)
  case (all_revealed p pid key rr)
  then show ?thesis
    by (intro round_ok_reveal [OF assms(1,2) assms(3) [unfolded all_revealed(1)], where ph = DonePhase]) simp_all
next
  case (aborted rr)
  then show ?thesis by (simp add: round_ok_def locked_phase_def)
qed

end
