(* ===== verification/Protocol_Inv.thy ===== *)
theory Protocol_Inv
  imports Protocol_Rounds
begin

text \<open>
  The invariant of the whole system and that every step keeps it.

  \<^item> \<open>hist_ok\<close>: the states the log goes through are reachable ones and in order; \<open>ends\<close> interprets \<open>ordered_steps\<close>
    for what a round keeps until and after its end.
  \<^item> \<open>op_ok\<close>: an operation that was submitted is \<open>op_good\<close> for a state some client has read.
  \<^item> \<open>rs_ok\<close> and \<open>task_ok\<close>: the local variables of \<open>readUpdates\<close>, and the arguments of the goroutines, come from
    states that the client has read.
\<close>

subsection \<open>What a round keeps until its end\<close>

definition kept_as :: "'c RoundInfo \<Rightarrow> 'c RoundInfo \<Rightarrow> bool" where
  "kept_as ri ri' \<longleftrightarrow>
     (1 \<le> phaseOrder (ri_Phase ri) \<longrightarrow> 1 \<le> phaseOrder (ri_Phase ri') \<and> ri_Participants ri' = ri_Participants ri) \<and>
     (5 \<le> phaseOrder (ri_Phase ri) \<longrightarrow> 5 \<le> phaseOrder (ri_Phase ri') \<and> ri_Messages ri' = ri_Messages ri \<and>
        ri_RevealKeyHashes ri' = ri_RevealKeyHashes ri)"

definition ends_le :: "'c StateMachine \<Rightarrow> 'c StateMachine \<Rightarrow> bool" where
  "ends_le sm sm' \<longleftrightarrow> history_le sm sm' \<and> (sm_Round sm' = sm_Round sm \<longrightarrow> kept_as (cur sm) (cur sm')) \<and>
     (kept sm' (sm_Round sm) \<longrightarrow> kept_as (cur sm) (round_at sm' (sm_Round sm)))"

lemma kept_as_refl: "kept_as ri ri"
  by (simp add: kept_as_def)

lemma kept_as_trans: "kept_as a b \<Longrightarrow> kept_as b c \<Longrightarrow> kept_as a c"
  by (simp add: kept_as_def)

lemma ri_step_kept_as: "ri_step ri op ri' \<Longrightarrow> kept_as ri ri'"
  by (induction rule: ri_step.induct) (auto simp: kept_as_def)

lemma ri_finish_kept_as: "ri_finish ri op ri' \<Longrightarrow> kept_as ri ri'"
  by (induction rule: ri_finish.induct) (auto simp: kept_as_def)

lemma ends_le_refl: "ends_le sm sm"
  by (simp add: ends_le_def history_le_def kept_as_refl kept_def)

lemma ends_le_trans:
  assumes "ends_le a b" and "ends_le b c"
  shows "ends_le a c"
proof -
  have h: "history_le a c" using assms by (auto simp: ends_le_def intro: history_le_trans)
  have le: "sm_Round a \<le> sm_Round b" "sm_Round b \<le> sm_Round c" using assms by (auto simp: ends_le_def history_le_def)
  have "kept_as (cur a) (round_at c (sm_Round a))" if k: "kept c (sm_Round a)"
  proof (cases "sm_Round b = sm_Round a")
    case True
    with assms k show ?thesis by (auto simp: ends_le_def intro: kept_as_trans)
  next
    case False
    with le k have "kept b (sm_Round a)" by (simp add: kept_def)
    moreover from this have "round_at c (sm_Round a) = round_at b (sm_Round a)"
      using assms(2) k by (simp add: ends_le_def history_le_def kept_def)
    ultimately show ?thesis using assms(1) by (simp add: ends_le_def)
  qed
  moreover have "kept_as (cur a) (cur c)" if "sm_Round c = sm_Round a"
  proof -
    from that le have "sm_Round b = sm_Round a" "sm_Round c = sm_Round b" by simp_all
    with assms show ?thesis by (auto simp: ends_le_def intro: kept_as_trans)
  qed
  ultimately show ?thesis using h by (simp add: ends_le_def)
qed

lemma Apply_ends_le:
  assumes "sm_inv sm" and "Apply False sm op = Inr (updated, sm')"
  shows "ends_le sm sm'"
  using sm_inv_basic [OF assms(1)] assms(2)
proof (cases rule: Apply_cases)
  case refused
  then show ?thesis by (simp add: ends_le_refl)
next
  case (within ri')
  then show ?thesis
    using Apply_history_le [OF assms] sm_inv_basic [OF assms(1)] ri_step_kept_as [OF within(3)]
    by (simp add: ends_le_def kept_def)
next
  case (finished ri')
  have "round_at sm' (sm_Round sm) = ri'"
    using sm_inv_basic [OF assms(1)] by (simp add: finished(4) round_at_advance round_at_put_round_cur)
  then show ?thesis
    using Apply_history_le [OF assms] ri_finish_kept_as [OF finished(3)] finished(4) by (simp add: ends_le_def)
qed

interpretation ends: ordered_steps sm_step sm_inv ends_le
proof
  fix sm sm' :: "'c StateMachine" and op
  assume "sm_inv sm" and "sm_step sm op = Inr sm'"
  then show "ends_le sm sm'" by (auto simp: sm_step_def elim!: go_bindE intro: Apply_ends_le)
qed (auto intro: ends_le_refl ends_le_trans)

subsection \<open>The states of the log\<close>

definition hist_ok :: "'c StateMachine list \<Rightarrow> bool" where
  "hist_ok hist \<longleftrightarrow> hist \<noteq> [] \<and> (\<forall>sm \<in> set hist. sm_inv sm) \<and> sorted_wrt (\<lambda>a b. sm_le a b \<and> ends_le a b) hist"

lemma hist_ok_init: "hist_ok [sm_init]"
  by (simp add: hist_ok_def sm_init_inv)

lemma hist_le:
  assumes "hist_ok hist" and "i \<le> j" and "j < length hist"
  shows "sm_le (hist ! i) (hist ! j)" and "ends_le (hist ! i) (hist ! j)"
  using assms sorted_wrt_nth_less [of "\<lambda>a b. sm_le a b \<and> ends_le a b" hist i j]
  by (cases "i = j"; auto simp: hist_ok_def sm_le_refl ends_le_refl)+

lemma hist_last:
  assumes "hist_ok hist" and "sm \<in> set hist"
  shows "sm_le sm (last hist)" and "ends_le sm (last hist)"
proof -
  obtain i where "i < length hist" "hist ! i = sm" using assms(2) by (auto simp: in_set_conv_nth)
  moreover have "last hist = hist ! (length hist - 1)" using assms(1) by (simp add: hist_ok_def last_conv_nth)
  ultimately show "sm_le sm (last hist)" and "ends_le sm (last hist)"
    using hist_le [OF assms(1), of i "length hist - 1"] by auto
qed

lemma hist_ok_snoc:
  assumes "hist_ok hist" and "Apply False (last hist) op = Inr (True, sm')"
  shows "hist_ok (hist @ [sm'])"
proof -
  have inv: "sm_inv (last hist)" using assms(1) by (auto simp: hist_ok_def)
  have "sm_le sm sm' \<and> ends_le sm sm'" if "sm \<in> set hist" for sm
    using hist_last [OF assms(1) that] Apply_le [OF inv assms(2)] Apply_ends_le [OF inv assms(2)]
    by (auto intro: sm_le_trans ends_le_trans)
  then show ?thesis using assms(1) Apply_inv [OF inv assms(2)] by (auto simp: hist_ok_def sorted_wrt_append)
qed

definition rounds_ok :: "world \<Rightarrow> (uuid \<Rightarrow> masseyOmuraCrypto ReadState) \<Rightarrow> masseyOmuraCrypto StateMachine \<Rightarrow> bool" where
  "rounds_ok w R sm \<longleftrightarrow> round_ok w R (sm_Round sm) (cur sm) \<and> (\<forall>r. kept sm r \<longrightarrow> round_ok w R r (round_at sm r))"

definition op_ok :: "world \<Rightarrow> (uuid \<Rightarrow> masseyOmuraCrypto ReadState) \<Rightarrow> masseyOmuraCrypto StateMachine list \<Rightarrow>
    masseyOmuraCrypto Op \<Rightarrow> bool" where
  "op_ok w R hist op \<longleftrightarrow> Op_Type op \<in> {JoinOpType, StartOpType, AbortOpType} \<or>
     (\<exists>sm \<in> set hist. sm_Round sm = Op_Round op \<and> 1 \<le> phaseOrder (ri_Phase (cur sm)) \<and>
        op_good w R (Op_Round op) (cur sm) op \<and>
        (Op_Type op \<in> {EncryptedOpType, ScrambledOpType, DecryptedOpType} \<longrightarrow> computed_from (cur sm) op))"

lemma op_good_transport:
  assumes "op_good w R r ri op" and "ri_inv ri" and "ri_inv ri1" and "ri_le ri ri1" and "1 \<le> phaseOrder (ri_Phase ri)"
    and "Op_Type op \<in> {EncryptedOpType, ScrambledOpType, DecryptedOpType} \<longrightarrow> computed_from ri op"
    and "ri_step ri1 op ri2 \<or> ri_finish ri1 op ri2"
  shows "op_good w R r ri1 op"
proof (cases "Op_Type op \<in> {EncryptedOpType, ScrambledOpType, DecryptedOpType}")
  case True
  then have "ri_step ri1 op ri2" using assms(7) by (cases op) (auto simp: ri_finish_simps)
  then have "same_flags ri ri1" using True assms(2-4,6) by (intro accepted_unchanged) auto
  then have same: "ri_Crypto ri1 = ri_Crypto ri" "ri_Participants ri1 = ri_Participants ri" "ri_Messages ri1 = ri_Messages ri"
    by (simp_all add: same_flags_def)
  show ?thesis using assms(1) unfolding op_good_def same .
next
  case False
  have "ri_Crypto ri1 = ri_Crypto ri" using assms(4,5) by (simp add: ri_le_def)
  then show ?thesis using False assms(1) by (cases op) (simp_all add: op_good_def)
qed

lemma rounds_ok_Apply:
  assumes "wf_world w" and "hist_ok hist" and "rounds_ok w R (last hist)" and "op_ok w R hist op"
    and "Apply False (last hist) op = Inr (True, sm')"
  shows "rounds_ok w R sm'"
proof -
  let ?sm = "last hist" and ?r = "sm_Round (last hist)"
  have inv: "sm_inv ?sm" using assms(2) by (auto simp: hist_ok_def)
  have basic: "sm_basic ?sm" by (rule sm_inv_basic [OF inv])
  have good: "op_good w R ?r (cur ?sm) op" if step: "ri_step (cur ?sm) op ri' \<or> ri_finish (cur ?sm) op ri'" and r: "Op_Round op = ?r" for ri'
  proof (cases "Op_Type op \<in> {JoinOpType, StartOpType, AbortOpType}")
    case True
    then show ?thesis by (cases op) (simp_all add: op_good_def)
  next
    case False
    with assms(4) obtain sm where sm: "sm \<in> set hist" "sm_Round sm = Op_Round op" "1 \<le> phaseOrder (ri_Phase (cur sm))"
      "op_good w R (Op_Round op) (cur sm) op"
      "Op_Type op \<in> {EncryptedOpType, ScrambledOpType, DecryptedOpType} \<longrightarrow> computed_from (cur sm) op"
      by (auto simp: op_ok_def)
    have "sm_inv sm" using sm(1) assms(2) by (simp add: hist_ok_def)
    moreover have "ri_le (cur sm) (cur ?sm)" using hist_last(1) [OF assms(2) sm(1)] sm(2) r by (simp add: sm_le_def)
    ultimately show ?thesis
      using op_good_transport [OF sm(4) sm_inv_cur sm_inv_cur _ sm(3,5) step] inv r by simp
  qed
  from basic assms(5) show ?thesis
  proof (cases rule: Apply_cases)
    case (within ri')
    have "round_ok w R ?r ri'"
      using round_ok_step [OF _ sm_inv_cur [OF inv] good within(3) assms(1)] within assms(3) by (auto simp: rounds_ok_def)
    then show ?thesis
      using assms(3) basic by (auto simp: rounds_ok_def within(4) round_at_put_round kept_def)
  next
    case (finished ri')
    have new: "round_ok w R ?r ri'"
      using round_ok_finish [OF _ sm_inv_cur [OF inv] good finished(3)] finished assms(3) by (auto simp: rounds_ok_def)
    have "round_ok w R r (round_at sm' r)" if k: "kept sm' r" for r
    proof (cases "r = ?r")
      case True
      then show ?thesis using new basic by (simp add: finished(4) round_at_advance round_at_put_round_cur)
    next
      case False
      with k have "kept ?sm r" "round_at sm' r = round_at (put_round ?sm ri') r"
        by (auto simp: kept_def finished(4) intro: round_at_advance)
      then show ?thesis using assms(3) basic by (simp add: rounds_ok_def round_at_put_round)
    qed
    moreover have "round_ok w R (sm_Round sm') (cur sm')"
      using basic by (simp add: finished(4) cur_advance sm_basic_def round_ok_def locked_phase_def)
    ultimately show ?thesis by (simp add: rounds_ok_def)
  qed simp
qed

subsection \<open>Local variables and goroutines\<close>

definition seen :: "'c StateMachine list \<Rightarrow> nat \<Rightarrow> int \<Rightarrow> Phase \<Rightarrow> 'c StateMachine \<Rightarrow> bool" where
  "seen hist pos r ph sm \<longleftrightarrow> (\<exists>i < pos. i < length hist \<and> hist ! i = sm) \<and> sm_Round sm = r \<and> ri_Phase (cur sm) = ph"

definition own_keys :: "world \<Rightarrow> masseyOmuraCrypto \<Rightarrow> int \<Rightarrow> uuid \<Rightarrow> masseyOmuraCrypto ReadState \<Rightarrow> bool" where
  "own_keys w mo r pid rs \<longleftrightarrow> rs_encryptKey rs = ekey w mo r pid \<and> rs_scrambleKey rs = skey w mo r pid \<and>
     rs_revealKey rs = rkey w mo r pid"

definition rs_ok :: "world \<Rightarrow> masseyOmuraCrypto StateMachine list \<Rightarrow> nat \<Rightarrow> uuid \<Rightarrow> masseyOmuraCrypto ReadState \<Rightarrow> bool" where
  "rs_ok w hist pos pid rs \<longleftrightarrow>
     (rs_lastKeyGen rs = - 1 \<or>
       (\<exists>sm mo. seen hist pos (rs_lastKeyGen rs) SubmitPhase sm \<and> ri_Crypto (cur sm) = Some mo \<and> good_crypto w mo \<and>
          keys_ok w mo (rs_lastKeyGen rs) pid \<and> own_keys w mo (rs_lastKeyGen rs) pid rs)) \<and>
     (rs_lastScrambledRound rs = - 1 \<or>
       (\<exists>sm. seen hist pos (rs_lastScrambledRound rs) ScramblePhase sm \<and>
          rs_lastNumberOfMessageWhenScrambled rs = length (ri_Messages (cur sm)))) \<and>
     (rs_lastRevealKeyHashesRound rs = - 1 \<or>
       (\<exists>sm. seen hist pos (rs_lastRevealKeyHashesRound rs) RevealPhase sm \<and>
          rs_lastRevealKeyHashes rs = ri_RevealKeyHashes (cur sm) \<and> rs_lastMessagesBeforeReveal rs = ri_Messages (cur sm)))"

definition reads :: "masseyOmuraCrypto StateMachine list \<Rightarrow> int \<Rightarrow> masseyOmuraCrypto RoundInfo \<Rightarrow> Phase \<Rightarrow> uuid \<Rightarrow> int \<Rightarrow> bool" where
  "reads hist r ri ph pid me \<longleftrightarrow> (\<exists>sm \<in> set hist. sm_Round sm = r \<and> cur sm = ri) \<and> ri_Phase ri = ph \<and>
     me = me_index pid ri \<and> me \<noteq> - 1"

definition task_ok :: "world \<Rightarrow> (uuid \<Rightarrow> masseyOmuraCrypto ReadState) \<Rightarrow> masseyOmuraCrypto StateMachine list \<Rightarrow> uuid \<Rightarrow>
    masseyOmuraCrypto task \<Rightarrow> bool" where
  "task_ok w R hist pid t \<longleftrightarrow>
     (case t of
        TSubmit r ri me ek rk \<Rightarrow> r \<le> rs_lastKeyGen (R pid) \<and> reads hist r ri SubmitPhase pid me \<and>
          (\<exists>mo. ri_Crypto ri = Some mo \<and> good_crypto w mo \<and> keys_ok w mo r pid \<and> ek = ekey w mo r pid \<and> rk = rkey w mo r pid)
      | TEncrypt r ri me ek \<Rightarrow> reads hist r ri EncryptPhase pid me \<and> (\<exists>mo. ri_Crypto ri = Some mo \<and> ek = ekey w mo r pid)
      | TScramble r ri me sk rk \<Rightarrow> r \<le> rs_lastScrambledRound (R pid) \<and> reads hist r ri ScramblePhase pid me \<and>
          me = int (numScrambled ri) \<and> (\<exists>mo. ri_Crypto ri = Some mo \<and> sk = skey w mo r pid \<and> rk = rkey w mo r pid)
      | TDecrypt r ri me sk ek \<Rightarrow> reads hist r ri DecryptPhase pid me \<and>
          (\<exists>mo. ri_Crypto ri = Some mo \<and> sk = skey w mo r pid \<and> ek = ekey w mo r pid)
      | TReveal r ri me rk \<Rightarrow> r \<le> rs_lastRevealKeyHashesRound (R pid) \<and> reads hist r ri RevealPhase pid me \<and>
          (\<exists>mo. ri_Crypto ri = Some mo \<and> rk = rkey w mo r pid)
      | TSendRoundResult sm r hashes hashesRound before n \<Rightarrow> sm \<in> set hist \<and> r = sm_Round sm \<and>
          (\<forall>ri. GetRoundInfo sm (r - 1) = Inr ri \<and> ri_Phase ri = DonePhase \<and> pid \<in> set (ri_Participants ri) \<longrightarrow>
             hashes = ri_RevealKeyHashes ri \<and> before = ri_Messages ri \<and> n = length (ri_Messages ri) \<and> hashesRound = r - 1)
      | _ \<Rightarrow> True)"

definition sys_inv :: "world \<Rightarrow> Sys \<Rightarrow> bool" where
  "sys_inv w s \<longleftrightarrow> hist_ok (sy_hist s) \<and> (\<forall>sm \<in> set (sy_hist s). rounds_ok w (sy_rs s) sm) \<and>
     (\<forall>op \<in> set (sy_ops s). op_ok w (sy_rs s) (sy_hist s) op) \<and>
     (\<forall>pid. rs_ok w (sy_hist s) (sy_pos s pid) pid (sy_rs s pid)) \<and>
     (\<forall>(pid, t) \<in> set (sy_tasks s). task_ok w (sy_rs s) (sy_hist s) pid t)"

lemma seen_mono: "seen hist pos r ph sm \<Longrightarrow> pos \<le> pos' \<Longrightarrow> seen (hist @ rest) pos' r ph sm"
  unfolding seen_def
proof (elim conjE exE)
  fix i
  assume "i < pos" and "i < length hist" and "hist ! i = sm" and "pos \<le> pos'" and "sm_Round sm = r" and "ri_Phase (cur sm) = ph"
  then show "(\<exists>i < pos'. i < length (hist @ rest) \<and> (hist @ rest) ! i = sm) \<and> sm_Round sm = r \<and> ri_Phase (cur sm) = ph"
    by (auto simp: nth_append intro!: exI [of _ i])
qed

lemma rs_ok_mono: "rs_ok w hist pos pid rs \<Longrightarrow> pos \<le> pos' \<Longrightarrow> rs_ok w (hist @ rest) pos' pid rs"
  unfolding rs_ok_def by (blast dest: seen_mono [where rest = rest])

lemma task_ok_hist: "task_ok w R hist pid t \<Longrightarrow> task_ok w R (hist @ rest) pid t"
  by (cases t) (auto simp: task_ok_def reads_def)

lemma task_ok_up: "\<forall>pid. rs_up (R pid) (R' pid) \<Longrightarrow> task_ok w R hist pid t \<Longrightarrow> task_ok w R' hist pid t"
  by (cases t) (auto simp: task_ok_def intro: rs_upD)

lemma op_ok_hist: "op_ok w R hist op \<Longrightarrow> op_ok w R (hist @ rest) op"
  by (auto simp: op_ok_def)

lemma op_ok_up: "\<forall>pid. rs_up (R pid) (R' pid) \<Longrightarrow> op_ok w R hist op \<Longrightarrow> op_ok w R' hist op"
  unfolding op_ok_def using op_good_up by blast

lemma rounds_ok_up: "\<forall>pid. rs_up (R pid) (R' pid) \<Longrightarrow> rounds_ok w R sm \<Longrightarrow> rounds_ok w R' sm"
  unfolding rounds_ok_def using round_ok_up by blast

lemma rounds_ok_init: "rounds_ok w R sm_init"
proof -
  have "round_ok w R 0 (cur sm_init)" by (simp add: round_ok_def locked_phase_def sm_init_def cur_def)
  moreover have "\<not> kept (sm_init :: masseyOmuraCrypto StateMachine) r" for r by (auto simp: kept_def sm_init_def)
  moreover have "sm_Round (sm_init :: masseyOmuraCrypto StateMachine) = 0" by (simp add: sm_init_def)
  ultimately show ?thesis by (simp add: rounds_ok_def)
qed

lemma sys_inv_init: "sys_inv w (sys_init w)"
  by (simp add: sys_inv_def sys_init_def hist_ok_init rounds_ok_init rs_ok_def rs_init_def)

lemma sys_inv_log:
  assumes "wf_world w" and "sys_inv w s"
  shows "sys_inv w (sys_step w s (ELog k))"
proof (cases "k < length (sy_ops s) \<and> (\<exists>sm. Apply False (last (sy_hist s)) (sy_ops s ! k) = Inr (True, sm))")
  case True
  then obtain sm where k: "k < length (sy_ops s)" and sm: "Apply False (last (sy_hist s)) (sy_ops s ! k) = Inr (True, sm)" by blast
  have h: "hist_ok (sy_hist s)" using assms(2) by (simp add: sys_inv_def)
  have "last (sy_hist s) \<in> set (sy_hist s)" using h by (simp add: hist_ok_def)
  then have last: "rounds_ok w (sy_rs s) (last (sy_hist s))" using assms(2) by (simp add: sys_inv_def)
  have op: "op_ok w (sy_rs s) (sy_hist s) (sy_ops s ! k)" using assms(2) nth_mem [OF k] by (simp add: sys_inv_def)
  have "sys_step w s (ELog k) = s\<lparr>sy_hist := sy_hist s @ [sm]\<rparr>" using k sm by simp
  then show ?thesis
    using assms(2) hist_ok_snoc [OF h sm] rounds_ok_Apply [OF assms(1) h last op sm]
    by (auto simp: sys_inv_def intro: rs_ok_mono task_ok_hist op_ok_hist)
next
  case False
  then have "sys_step w s (ELog k) = s" by (auto split: sum.splits)
  then show ?thesis using assms(2) by simp
qed

lemma sys_inv_extern: "sys_inv w s \<Longrightarrow> sys_inv w (sys_step w s (EExtern op))"
  by (auto simp: sys_inv_def op_ok_def)

subsection \<open>The goroutines\<close>

lemma me_from_absent: "pid \<notin> set ps \<Longrightarrow> me_from i pid ps me = me"
  by (induction ps arbitrary: i) auto

lemma me_from_eq:
  "distinct ps \<Longrightarrow> me_from i pid ps me = (case participantIndex_from i ps pid of None \<Rightarrow> me | Some p \<Rightarrow> int p)"
  by (induction ps arbitrary: i me) (auto simp: me_from_absent)

lemma me_index_eq:
  "distinct (ri_Participants ri) \<Longrightarrow> me_index pid ri = (case participantIndex ri pid of None \<Rightarrow> - 1 | Some p \<Rightarrow> int p)"
  by (simp add: me_index_def participantIndex_def me_from_eq)

lemma me_index_cases:
  assumes "ri_inv ri" and "me_index pid ri \<noteq> - 1"
  obtains p where "p < length (ri_Participants ri)" and "ri_Participants ri ! p = pid" and "me_index pid ri = int p"
    and "participantIndex ri pid = Some p"
proof -
  have d: "distinct (ri_Participants ri)" using assms(1) by (simp add: ri_inv_def lists_ok_def)
  then obtain p where p: "participantIndex ri pid = Some p" using assms(2) by (auto simp: me_index_eq split: option.splits)
  then have "p < length (ri_Participants ri)" "ri_Participants ri ! p = pid" using d by (simp_all add: participantIndex_Some)
  moreover have "me_index pid ri = int p" using p d by (simp add: me_index_eq)
  ultimately show ?thesis using p by (rule that)
qed

lemma index_me_nat: "p < length xs \<Longrightarrow> index_me xs (int p) = Inr (xs ! p)"
  by (simp add: index_me_def)

lemma go_map_crypto:
  "ri_Crypto ri = Some mo \<Longrightarrow> go_map (\<lambda>m. go_bind (the_crypto ri) (\<lambda>crypto. Inr (f crypto m))) ms = Inr (map (f mo) ms)"
  by (induction ms) (simp_all add: the_crypto_def)

lemma encrypt_others_eq:
  "\<exists>ms'. encrypt_others cm (Some mo) key me i ms = Inr ms' \<and> length ms' = length ms \<and>
     (\<forall>j < length ms. ms' ! j = (if int (i + j) = me then ms ! j else cc_Encrypt cm mo key (ms ! j)))"
proof (induction ms arbitrary: i)
  case (Cons m ms)
  from Cons [of "Suc i"] obtain ms' where "encrypt_others cm (Some mo) key me (Suc i) ms = Inr ms'" "length ms' = length ms"
    "\<forall>j < length ms. ms' ! j = (if int (Suc i + j) = me then ms ! j else cc_Encrypt cm mo key (ms ! j))" by blast
  then show ?case by (auto simp: less_Suc_eq_0_disj)
qed simp

lemma encrypt_others_nth:
  assumes "encrypt_others cm (Some mo) key (int p) 0 ms = Inr ms'"
  shows "length ms' = length ms"
    and "i < length ms \<Longrightarrow> ms' ! i = (if i = p then ms ! i else cc_Encrypt cm mo key (ms ! i))"
  using assms encrypt_others_eq [of cm mo key "int p" 0 ms] by auto

lemma w_cm_simps [simp]:
  "cc_Encrypt (w_cm w) = crypto_Encrypt" "cc_Decrypt (w_cm w) = crypto_Decrypt" "cc_PrepareMsg (w_cm w) = crypto_PrepareMsg"
  "cc_ExtractMsg (w_cm w) = crypto_ExtractMsg" "cc_GenKey (w_cm w) = crypto_GenKey" "cc_Verify (w_cm w) = crypto_Verify (w_prime w)"
  by (simp_all add: w_cm_def masseyOmura_methods_def)

lemma messageWithHeader_eq:
  "messageWithHeader False random m = Inr (replicate 8 13 @ go_copy (replicate 8 0) (take 8 random) @ m)"
  by (simp add: messageWithHeader_def messageHeader_def Let_def)

lemma PrepareMsg_too_long:
  "int (length m) > bytesMaxSize (int (big_BitLen (getP mo))) \<Longrightarrow> \<exists>err. crypto_PrepareMsg mo m = Inr (Inl err)"
  by (simp add: crypto_PrepareMsg_def PrepareMsg_def Let_def)

lemma submit_op:
  assumes "wf_world w" and "good_crypto w mo" and "ri_Crypto ri = Some mo" and "cl_Id c = pid" and "cl_Config c = w_conf w"
    and "cl_submit False (w_cm w) sha256 (w_user w pid r) (w_header w pid r) (w_header' w pid r) c r ri me ek rk = Inr (Some op)"
  shows "op = MessageOp pid r (crypto_Encrypt mo ek (plain w mo r pid)) (PrivateKey_Hash sha256 rk)"
proof (cases "int (length (said w r pid)) > w_size w")
  case True
  have "int (length (replicate 8 13 @ go_copy (replicate 8 0) (take 8 (w_header w pid r)) @ said w r pid))
      > bytesMaxSize (int (big_BitLen (getP mo)))"
    using True by (simp add: good_crypto_size [OF assms(1,2)] messageHeaderLength_def)
  from PrepareMsg_too_long [OF this] obtain err where err: "crypto_PrepareMsg mo
      (replicate 8 13 @ go_copy (replicate 8 0) (take 8 (w_header w pid r)) @ said w r pid) = Inr (Inl err)" by blast
  show ?thesis
    using assms(6) err good_plain(1) [OF assms(1,2), of r pid] True assms(3,4)
    by (auto simp: cl_submit_def the_crypto_def messageWithHeader_eq said_def [symmetric] sent_def header_def Let_def
        elim!: go_bindE split: if_splits)
next
  case False
  then show ?thesis
    using assms(6) good_plain(1) [OF assms(1,2), of r pid] assms(3,4)
    by (auto simp: cl_submit_def the_crypto_def messageWithHeader_eq said_def [symmetric] sent_def header_def Let_def
        elim!: go_bindE split: if_splits)
qed

lemma readsD:
  assumes "reads hist r ri ph pid me" and "hist_ok hist"
  obtains sm p where "sm \<in> set hist" and "sm_Round sm = r" and "cur sm = ri" and "ri_inv ri" and "ri_Phase ri = ph"
    and "p < length (ri_Participants ri)" and "ri_Participants ri ! p = pid" and "me = int p"
    and "participantIndex ri pid = Some p"
proof -
  obtain sm where sm: "sm \<in> set hist" "sm_Round sm = r" "cur sm = ri" and me: "me = me_index pid ri" "me \<noteq> - 1"
    and ph: "ri_Phase ri = ph" using assms(1) by (auto simp: reads_def)
  have inv: "ri_inv ri" using sm assms(2) by (auto simp: hist_ok_def intro: sm_inv_cur)
  then obtain p where "p < length (ri_Participants ri)" "ri_Participants ri ! p = pid" "me_index pid ri = int p"
    "participantIndex ri pid = Some p" using me by (auto elim: me_index_cases)
  with that sm inv me ph show ?thesis by simp
qed

lemma op_okI:
  assumes "sm \<in> set hist" and "sm_Round sm = r" and "cur sm = ri" and "Op_Round op = r" and "1 \<le> phaseOrder (ri_Phase ri)"
    and "op_good w R r ri op" and "Op_Type op \<in> {EncryptedOpType, ScrambledOpType, DecryptedOpType} \<Longrightarrow> computed_from ri op"
  shows "op_ok w R hist op"
  using assms by (auto simp: op_ok_def)

lemma task_encrypt_ok:
  assumes "task_ok w R hist pid (TEncrypt r ri me ek)" and "hist_ok hist" and "cl_Id c = pid"
    and "cl_encrypt (w_cm w) c r ri me ek = Inr (Some op)"
  shows "op_ok w R hist op"
proof -
  obtain mo where rd: "reads hist r ri EncryptPhase pid me" and mo: "ri_Crypto ri = Some mo" "ek = ekey w mo r pid"
    using assms(1) by (auto simp: task_ok_def)
  from rd assms(2) obtain sm p where sm: "sm \<in> set hist" "sm_Round sm = r" "cur sm = ri" and inv: "ri_inv ri"
    and ph: "ri_Phase ri = EncryptPhase" and p: "p < length (ri_Participants ri)" "ri_Participants ri ! p = pid" "me = int p"
    by (rule readsD)
  from assms(3,4) obtain ms where ms: "encrypt_others (w_cm w) (Some mo) ek me 0 (ri_Messages ri) = Inr ms"
    and op: "op = EncryptedOp pid r ms (int (count_true (ri_Encrypted ri)))"
    by (auto simp: cl_encrypt_def Let_def mo(1) elim!: go_bindE split: if_splits)
  show ?thesis
    using sm
  proof (rule op_okI)
    show "op_good w R r ri op"
      using p mo encrypt_others_nth [OF ms [unfolded p(3)]] by (auto simp: op op_good_def)
  qed (simp_all add: op ph computed_from_def numEncrypted_def)
qed

lemma task_scramble_ok:
  assumes "task_ok w R hist pid (TScramble r ri me sk rk)" and "hist_ok hist" and "cl_Id c = pid"
    and "cl_scramble (w_cm w) draw c r ri me sk rk = Inr (Some op)"
  shows "op_ok w R hist op"
proof -
  obtain mo where rd: "reads hist r ri ScramblePhase pid me" and r: "r \<le> rs_lastScrambledRound (R pid)" "me = int (numScrambled ri)"
    and mo: "ri_Crypto ri = Some mo" "sk = skey w mo r pid" "rk = rkey w mo r pid"
    using assms(1) by (auto simp: task_ok_def)
  from rd assms(2) obtain sm p where sm: "sm \<in> set hist" "sm_Round sm = r" "cur sm = ri" and inv: "ri_inv ri"
    and ph: "ri_Phase ri = ScramblePhase" and p: "me = int p" "participantIndex ri pid = Some p"
    by (rule readsD)
  have op: "op = ScrambledOp pid r (Shuffle draw (map (\<lambda>m. crypto_Encrypt mo rk (crypto_Encrypt mo sk m)) (ri_Messages ri)))"
    using assms(3,4) by (auto simp: cl_scramble_def go_map_crypto [OF mo(1)] elim!: go_bindE split: if_splits)
  show ?thesis
    using sm
  proof (rule op_okI)
    show "op_good w R r ri op" using r mo by (simp add: op op_good_def mset_Shuffle del: mset_map)
  qed (use p r in \<open>simp_all add: op ph computed_from_def\<close>)
qed

lemma task_decrypt_ok:
  assumes "task_ok w R hist pid (TDecrypt r ri me sk ek)" and "hist_ok hist" and "cl_Id c = pid"
    and "cl_decrypt (w_cm w) c r ri me sk ek = Inr (Some op)"
  shows "op_ok w R hist op"
proof -
  obtain mo where rd: "reads hist r ri DecryptPhase pid me"
    and mo: "ri_Crypto ri = Some mo" "sk = skey w mo r pid" "ek = ekey w mo r pid"
    using assms(1) by (auto simp: task_ok_def)
  from rd assms(2) obtain sm where sm: "sm \<in> set hist" "sm_Round sm = r" "cur sm = ri" and ph: "ri_Phase ri = DecryptPhase"
    by (rule readsD)
  have op: "op = DecryptedOp pid r (map (\<lambda>m. crypto_Decrypt mo ek (crypto_Decrypt mo sk m)) (ri_Messages ri))
      (int (count_true (ri_Decrypted ri)))"
    using assms(3,4) by (auto simp: cl_decrypt_def Let_def go_map_crypto [OF mo(1)] elim!: go_bindE split: if_splits)
  show ?thesis
    using sm by (rule op_okI) (simp_all add: op ph computed_from_def numDecrypted_def op_good_def mo)
qed

lemma task_op_ok:
  assumes "wf_world w" and "hist_ok hist" and "task_ok w R hist pid t" and "cl_Id c = pid" and "cl_Config c = w_conf w"
    and "task_op False (w_cm w) (w_sha256 w) (env_of w pid (task_round t) draw) c t = Inr (Some op)"
  shows "op_ok w R hist op"
proof (cases t)
  case (TSubmit r ri me ek rk)
  with assms(3) obtain mo where rd: "reads hist r ri SubmitPhase pid me" and r: "r \<le> rs_lastKeyGen (R pid)"
    and mo: "ri_Crypto ri = Some mo" "good_crypto w mo" "keys_ok w mo r pid" "ek = ekey w mo r pid" "rk = rkey w mo r pid"
    by (auto simp: task_ok_def)
  from rd assms(2) obtain sm where sm: "sm \<in> set hist" "sm_Round sm = r" "cur sm = ri" and ph: "ri_Phase ri = SubmitPhase"
    by (rule readsD)
  have op: "op = MessageOp pid r (crypto_Encrypt mo ek (plain w mo r pid)) (PrivateKey_Hash (w_sha256 w) rk)"
    using submit_op [OF assms(1) mo(2,1) assms(4,5)] assms(6) by (simp add: TSubmit env_of_def)
  show ?thesis
    using sm by (rule op_okI) (use r mo in \<open>simp_all add: op ph op_good_def\<close>)
next
  case (TReveal r ri me rk)
  with assms(3) obtain mo where rd: "reads hist r ri RevealPhase pid me" and r: "r \<le> rs_lastRevealKeyHashesRound (R pid)"
    and mo: "ri_Crypto ri = Some mo" "rk = rkey w mo r pid"
    by (auto simp: task_ok_def)
  from rd assms(2) obtain sm where sm: "sm \<in> set hist" "sm_Round sm = r" "cur sm = ri" and ph: "ri_Phase ri = RevealPhase"
    by (rule readsD)
  have op: "op = RevealOp pid r rk"
    using assms(4,6) by (auto simp: TReveal cl_reveal_def elim!: go_bindE split: if_splits)
  show ?thesis
    using sm by (rule op_okI) (use r mo in \<open>simp_all add: op ph op_good_def\<close>)
next
  case (TEncrypt r ri me ek)
  then show ?thesis using assms task_encrypt_ok by simp
next
  case (TScramble r ri me sk rk)
  then show ?thesis using assms task_scramble_ok by simp
next
  case (TDecrypt r ri me sk ek)
  then show ?thesis using assms task_decrypt_ok by simp
qed (use assms(6) in \<open>auto simp: cl_prepare_def cl_abort_def op_ok_def split: if_splits\<close>)

lemma sys_inv_task:
  assumes "wf_world w" and "sys_inv w s"
  shows "sys_inv w (sys_step w s (ETask k c draw))"
proof (cases "k < length (sy_tasks s) \<and> fst (sy_tasks s ! k) = cl_Id c \<and> cl_Config c = w_conf w")
  case True
  obtain pid t where t: "sy_tasks s ! k = (pid, t)" by (cases "sy_tasks s ! k")
  have "(pid, t) \<in> set (sy_tasks s)" using True t nth_mem [of k "sy_tasks s"] by simp
  then have ok: "task_ok w (sy_rs s) (sy_hist s) pid t" and h: "hist_ok (sy_hist s)"
    using assms(2) by (auto simp: sys_inv_def)
  show ?thesis
  proof (cases "task_op False (w_cm w) (w_sha256 w) (env_of w pid (task_round t) draw) c t")
    case (Inr r)
    show ?thesis
    proof (cases r)
      case (Some op)
      have "op_ok w (sy_rs s) (sy_hist s) op"
        using task_op_ok [OF assms(1) h ok _ _ Inr [unfolded Some]] True t by simp
      then show ?thesis using assms(2) True t Inr Some by (auto simp: sys_inv_def)
    qed (use assms(2) True t Inr in simp)
  qed (use assms(2) True t in simp)
next
  case False
  then have "sys_step w s (ETask k c draw) = s" by auto
  then show ?thesis using assms(2) by simp
qed

end
