(* ===== verification/Protocol_Read.thy ===== *)
theory Protocol_Read
  imports Protocol_Inv
begin

text \<open>
  One turn of \<open>readUpdates\<close> keeps the invariant of the system: whatever phase the update is in, the local
  variables and the arguments of the goroutines that are started agree with what the client has read.
\<close>

lemma seenD:
  assumes "hist_ok hist" and "pos < length hist" and "seen hist pos r ph sm"
  shows "sm_le sm (hist ! pos)" and "ends_le sm (hist ! pos)" and "sm_inv sm" and "sm_Round sm = r" and "ri_Phase (cur sm) = ph"
    and "sm \<in> set hist" and "0 \<le> r" and "r \<le> sm_Round (hist ! pos)"
proof -
  obtain i where i: "i < pos" "i < length hist" "hist ! i = sm" and sm: "sm_Round sm = r" "ri_Phase (cur sm) = ph"
    using assms(3) by (auto simp: seen_def)
  show le: "sm_le sm (hist ! pos)" and "ends_le sm (hist ! pos)" using hist_le [OF assms(1), of i pos] i assms(2) by auto
  show mem: "sm \<in> set hist" using i by auto
  then show inv: "sm_inv sm" using assms(1) by (simp add: hist_ok_def)
  show "sm_Round sm = r" and "ri_Phase (cur sm) = ph" by (rule sm)+
  show "0 \<le> r" using inv sm by (simp add: sm_inv_def sm_basic_def)
  show "r \<le> sm_Round (hist ! pos)" using le sm by (auto simp: sm_le_def)
qed

text \<open>The same round cannot be seen in a later phase than it is read now.\<close>

lemma seen_phase:
  assumes "hist_ok hist" and "pos < length hist" and "seen hist pos (sm_Round (hist ! pos)) ph sm"
  shows "ri_le (cur sm) (cur (hist ! pos))" and "phaseOrder ph \<le> phaseOrder (ri_Phase (cur (hist ! pos)))"
  using seenD(1,4,5) [OF assms] by (auto simp: sm_le_def ri_le_def)

lemma rs_rounds:
  assumes "hist_ok hist" and "pos < length hist" and "rs_ok w hist pos pid rs"
  shows "rs_lastKeyGen rs \<le> sm_Round (hist ! pos)" and "rs_lastScrambledRound rs \<le> sm_Round (hist ! pos)"
    and "rs_lastRevealKeyHashesRound rs \<le> sm_Round (hist ! pos)"
proof -
  have "0 \<le> sm_Round (hist ! pos)"
    using assms(1,2) nth_mem [OF assms(2)] by (auto simp: hist_ok_def sm_inv_def sm_basic_def)
  then show "rs_lastKeyGen rs \<le> sm_Round (hist ! pos)" and "rs_lastScrambledRound rs \<le> sm_Round (hist ! pos)"
    and "rs_lastRevealKeyHashesRound rs \<le> sm_Round (hist ! pos)"
    using assms(3) seenD(8) [OF assms(1,2)] by (auto simp: rs_ok_def)
qed

text \<open>Keys that were generated in the current round are the keys of the current round.\<close>

lemma keys_current:
  assumes "hist_ok hist" and "pos < length hist" and "rs_ok w hist pos pid rs"
    and "sm_Round (hist ! pos) \<le> rs_lastKeyGen rs"
  shows "\<exists>mo. ri_Crypto (cur (hist ! pos)) = Some mo \<and> good_crypto w mo \<and> keys_ok w mo (sm_Round (hist ! pos)) pid \<and>
    own_keys w mo (sm_Round (hist ! pos)) pid rs"
proof -
  let ?r = "sm_Round (hist ! pos)"
  have eq: "rs_lastKeyGen rs = ?r" using rs_rounds(1) [OF assms(1-3)] assms(4) by simp
  have "0 \<le> ?r" using assms(1,2) nth_mem [OF assms(2)] by (auto simp: hist_ok_def sm_inv_def sm_basic_def)
  then obtain sm mo where seen: "seen hist pos ?r SubmitPhase sm" and mo: "ri_Crypto (cur sm) = Some mo" "good_crypto w mo"
    "keys_ok w mo ?r pid" "own_keys w mo ?r pid rs"
    using assms(3) eq by (auto simp: rs_ok_def)
  have "ri_Crypto (cur (hist ! pos)) = ri_Crypto (cur sm)"
    using seen_phase(1) [OF assms(1,2) seen] seenD(5) [OF assms(1,2) seen] by (simp add: ri_le_def)
  with mo show ?thesis by auto
qed

lemma keys_locked:
  assumes "hist_ok hist" and "pos < length hist" and "rs_ok w hist pos pid (R pid)" and "rounds_ok w R (hist ! pos)"
    and "locked_phase (ri_Phase (cur (hist ! pos)))" and "me_index pid (cur (hist ! pos)) \<noteq> - 1"
  shows "\<exists>mo. ri_Crypto (cur (hist ! pos)) = Some mo \<and> own_keys w mo (sm_Round (hist ! pos)) pid (R pid)"
proof -
  have "ri_inv (cur (hist ! pos))" using assms(1,2) by (auto simp: hist_ok_def intro: sm_inv_cur)
  then obtain p where p: "p < length (ri_Participants (cur (hist ! pos)))" "ri_Participants (cur (hist ! pos)) ! p = pid"
    using assms(6) by (rule me_index_cases)
  have "round_ok w R (sm_Round (hist ! pos)) (cur (hist ! pos))" using assms(4) by (simp add: rounds_ok_def)
  then obtain mo where "member_ok w R mo (sm_Round (hist ! pos)) (cur (hist ! pos)) p"
    using assms(5) p(1) by (auto elim: round_okD)
  then have "sm_Round (hist ! pos) \<le> rs_lastKeyGen (R pid)" using p(2) by (simp add: member_ok_def Let_def)
  from keys_current [OF assms(1-3) this] show ?thesis by auto
qed

subsection \<open>The result of a turn\<close>

definition read_ok :: "world \<Rightarrow> masseyOmuraCrypto StateMachine list \<Rightarrow> nat \<Rightarrow> (uuid \<Rightarrow> masseyOmuraCrypto ReadState) \<Rightarrow> uuid \<Rightarrow>
    masseyOmuraCrypto ReadState \<Rightarrow> masseyOmuraCrypto task list \<Rightarrow> bool" where
  "read_ok w hist pos R pid rs ts \<longleftrightarrow> rs_up (R pid) rs \<and> rs_ok w hist (Suc pos) pid rs \<and>
     (\<forall>t \<in> set ts. task_ok w (R(pid := rs)) hist pid t)"

definition rs_same :: "'c ReadState \<Rightarrow> 'c ReadState \<Rightarrow> bool" where
  "rs_same rs rs' \<longleftrightarrow> rs_lastKeyGen rs' = rs_lastKeyGen rs \<and> rs_encryptKey rs' = rs_encryptKey rs \<and>
     rs_scrambleKey rs' = rs_scrambleKey rs \<and> rs_revealKey rs' = rs_revealKey rs \<and>
     rs_lastScrambledRound rs' = rs_lastScrambledRound rs \<and> rs_lastRevealKeyHashesRound rs' = rs_lastRevealKeyHashesRound rs \<and>
     rs_lastNumberOfMessageWhenScrambled rs' = rs_lastNumberOfMessageWhenScrambled rs \<and>
     rs_lastRevealKeyHashes rs' = rs_lastRevealKeyHashes rs \<and> rs_lastMessagesBeforeReveal rs' = rs_lastMessagesBeforeReveal rs"

lemma rs_same_ok: "rs_same rs rs' \<Longrightarrow> rs_ok w hist pos pid rs \<Longrightarrow> rs_ok w hist pos pid rs'"
  by (simp add: rs_ok_def rs_same_def own_keys_def)

lemma rs_same_up: "rs_same rs rs' \<Longrightarrow> rs_up rs rs'"
  by (simp add: rs_same_def rs_up_def)

lemma rs_ok_Suc: "rs_ok w hist pos pid rs \<Longrightarrow> rs_ok w hist (Suc pos) pid rs"
  using rs_ok_mono [of w hist pos pid rs "Suc pos" "[]"] by simp

lemma read_ok_same:
  assumes "rs_same (R pid) rs" and "rs_ok w hist pos pid (R pid)" and "\<forall>t \<in> set ts. task_ok w (R(pid := rs)) hist pid t"
  shows "read_ok w hist pos R pid rs ts"
  using assms by (auto simp: read_ok_def intro: rs_same_up rs_same_ok rs_ok_Suc)

lemma seen_now: "pos < length hist \<Longrightarrow> seen hist (Suc pos) (sm_Round (hist ! pos)) (ri_Phase (cur (hist ! pos))) (hist ! pos)"
  by (auto simp: seen_def)

lemma reads_now:
  "pos < length hist \<Longrightarrow> me_index pid (cur (hist ! pos)) \<noteq> - 1 \<Longrightarrow>
   reads hist (sm_Round (hist ! pos)) (cur (hist ! pos)) (ri_Phase (cur (hist ! pos))) pid (me_index pid (cur (hist ! pos)))"
  by (auto simp: reads_def)

lemma copies [simp]: "copy_hashes hashes = hashes" "copy_messages ms = ms"
  unfolding copy_hashes_def copy_messages_def by (rule map_idI; simp)+

subsection \<open>The submit phase\<close>

text \<open>The keys a turn leaves, and the goroutine it starts.\<close>

definition set_keys :: "'c ReadState \<Rightarrow> int \<Rightarrow> PrivateKey \<times> PrivateKey \<times> PrivateKey \<Rightarrow> 'c ReadState" where
  "set_keys rs r ks = (case ks of (e, s, k) \<Rightarrow>
     rs\<lparr>rs_encryptKey := e, rs_scrambleKey := s, rs_revealKey := k, rs_lastKeyGen := r\<rparr>)"

lemma read_submit_keys:
  assumes "rs_lastKeyGen rs1 < r" and "cl_active c" and "me \<noteq> - 1"
    and "read_submit False (w_cm w) c rs1 random r ri me = Inr (rs, ts, random')"
  obtains (bad) "rs = rs1" and "ts = [TAbort r]"
  | (good) mo ks where "ri_Crypto ri = Some mo"
      and "crypto_Verify (w_prime w) mo (cfg_MessageSize (cl_Config c) + int messageHeaderLength) = None"
      and "gen_keys mo random = Inr ks"
      and "rs_same (set_keys rs1 r ks) rs"
      and "\<forall>t \<in> set ts. t = TSubmit r ri me (rs_encryptKey rs) (rs_revealKey rs)"
proof -
  obtain mo where mo: "ri_Crypto ri = Some mo"
    using assms by (cases "ri_Crypto ri") (simp_all add: read_submit_def the_crypto_def)
  show ?thesis
  proof (cases "crypto_Verify (w_prime w) mo (cfg_MessageSize (cl_Config c) + int messageHeaderLength)")
    case None
    obtain e s k random1 random2 random3 where
      gen: "crypto_GenKey mo False random = Inr (e, random1)" "crypto_GenKey mo False random1 = Inr (s, random2)"
        "crypto_GenKey mo False random2 = Inr (k, random3)"
      using assms mo None by (auto simp: read_submit_def the_crypto_def elim!: go_bindE)
    let ?rs = "set_keys rs1 r (e, s, k)"
    have "rs_same ?rs rs \<and> (\<forall>t \<in> set ts. t = TSubmit r ri me (rs_encryptKey rs) (rs_revealKey rs))"
      using assms mo None gen
      by (simp add: read_submit_def the_crypto_def set_keys_def split: if_splits) (auto simp: rs_same_def)
    moreover have "gen_keys mo random = Inr (e, s, k)" using gen by (simp add: gen_keys_def)
    ultimately show ?thesis using good mo None by blast
  next
    case (Some err)
    with assms mo show ?thesis by (intro bad) (simp_all add: read_submit_def the_crypto_def)
  qed
qed

lemma read_submit_ok:
  assumes "wf_world w" and "hist_ok hist" and "pos < length hist" and "rs_ok w hist pos pid (R pid)" and "rs_same (R pid) rs1"
    and "ri_Phase (cur (hist ! pos)) = SubmitPhase" and "cl_Id c = pid" and "cl_Config c = w_conf w"
    and "read_submit False (w_cm w) c rs1 (w_random w pid (sm_Round (hist ! pos))) (sm_Round (hist ! pos)) (cur (hist ! pos))
      (me_index pid (cur (hist ! pos))) = Inr (rs, ts, random')"
  shows "read_ok w hist pos R pid rs ts"
proof -
  let ?r = "sm_Round (hist ! pos)" and ?ri = "cur (hist ! pos)" and ?me = "me_index pid (cur (hist ! pos))"
  have submit_ok: "task_ok w (R(pid := rs)) hist pid (TSubmit ?r ?ri ?me (rs_encryptKey rs) (rs_revealKey rs))"
    if "?me \<noteq> - 1" "?r \<le> rs_lastKeyGen rs" "ri_Crypto ?ri = Some mo" "good_crypto w mo" "keys_ok w mo ?r pid"
      "own_keys w mo ?r pid rs" for mo
    using that reads_now [OF assms(3) that(1)] assms(6) by (auto simp: task_ok_def own_keys_def)
  show ?thesis
  proof (cases "cl_active c \<and> ?me \<noteq> - 1")
    case False
    then have "rs = rs1" "ts = []" using assms(9) by (auto simp: read_submit_def)
    then show ?thesis using assms(4,5) by (simp add: read_ok_same)
  next
    case mine: True
    show ?thesis
    proof (cases "rs_lastKeyGen rs1 < ?r")
      case False
      have "rs_same rs1 rs \<and> (\<forall>t \<in> set ts. t = TSubmit ?r ?ri ?me (rs_encryptKey rs) (rs_revealKey rs))"
        using False mine assms(9) by (simp add: read_submit_def split: if_splits) (auto simp: rs_same_def)
      then have old: "rs_same rs1 rs" "\<And>t. t \<in> set ts \<Longrightarrow> t = TSubmit ?r ?ri ?me (rs_encryptKey rs) (rs_revealKey rs)"
        by blast+
      have same: "rs_same (R pid) rs" using assms(5) old(1) by (simp add: rs_same_def)
      have ok: "rs_ok w hist pos pid rs" using rs_same_ok [OF same assms(4)] .
      have key: "?r \<le> rs_lastKeyGen rs" using False old(1) by (simp add: rs_same_def)
      obtain mo where "ri_Crypto ?ri = Some mo" "good_crypto w mo" "keys_ok w mo ?r pid" "own_keys w mo ?r pid rs"
        using keys_current [OF assms(2,3) ok key] by blast
      then have "task_ok w (R(pid := rs)) hist pid t" if "t \<in> set ts" for t
        unfolding old(2) [OF that] using submit_ok mine key by blast
      then show ?thesis using same assms(4) by (simp add: read_ok_same)
    next
      case True
      show ?thesis
        using True conjunct1 [OF mine] conjunct2 [OF mine] assms(9)
      proof (cases rule: read_submit_keys)
        case bad
        then show ?thesis using assms(4,5) by (simp add: read_ok_same task_ok_def)
      next
        case (good mo ks)
        have cr: "good_crypto w mo" using good(2) assms(8) by (simp add: good_crypto_def w_size_def)
        have gen: "has_keys w mo ?r pid" "own_keys w mo ?r pid rs"
          using gen_keys_eq [of mo w pid ?r] good(3,4) by (cases ks; auto simp: own_keys_def rs_same_def set_keys_def)+
        then have keys: "keys_ok w mo ?r pid" using good_keys assms(1) cr by blast
        have r: "rs_lastKeyGen rs = ?r" using good(4) by (cases ks) (simp add: rs_same_def set_keys_def)
        have seen: "seen hist (Suc pos) ?r SubmitPhase (hist ! pos)" using seen_now [OF assms(3)] assms(6) by simp
        have rest: "rs_lastScrambledRound rs = rs_lastScrambledRound (R pid)" 
          "rs_lastRevealKeyHashesRound rs = rs_lastRevealKeyHashesRound (R pid)"
          "rs_lastNumberOfMessageWhenScrambled rs = rs_lastNumberOfMessageWhenScrambled (R pid)"
          "rs_lastRevealKeyHashes rs = rs_lastRevealKeyHashes (R pid)"
          "rs_lastMessagesBeforeReveal rs = rs_lastMessagesBeforeReveal (R pid)"
          using good(4) assms(5) by (cases ks; simp add: rs_same_def set_keys_def)+
        have "rs_ok w hist (Suc pos) pid rs"
          using rs_ok_Suc [OF assms(4)] seen good(1) cr keys gen(2) unfolding rs_ok_def r rest by blast
        moreover have "rs_up (R pid) rs" using assms(5) True rest r by (simp add: rs_same_def rs_up_def)
        moreover have "task_ok w (R(pid := rs)) hist pid t" if "t \<in> set ts" for t
          using submit_ok [OF _ _ good(1) cr keys gen(2)] mine good(5) r that by auto
        ultimately show ?thesis by (simp add: read_ok_def)
      qed
    qed
  qed
qed

subsection \<open>The scramble and reveal phases\<close>

lemma read_scramble_ok:
  assumes "hist_ok hist" and "pos < length hist" and "rs_ok w hist pos pid (R pid)" and "rounds_ok w R (hist ! pos)"
    and "rs_same (R pid) rs1" and "ri_Phase (cur (hist ! pos)) = ScramblePhase"
    and "read_scramble c rs1 (sm_Round (hist ! pos)) (cur (hist ! pos)) (me_index pid (cur (hist ! pos))) = (rs, ts)"
  shows "read_ok w hist pos R pid rs ts"
proof (cases "cl_active c \<and> me_index pid (cur (hist ! pos)) \<noteq> - 1 \<and> rs_lastScrambledRound rs1 < sm_Round (hist ! pos) \<and>
    me_index pid (cur (hist ! pos)) = int (numScrambled (cur (hist ! pos)))")
  case True
  let ?r = "sm_Round (hist ! pos)" and ?ri = "cur (hist ! pos)" and ?me = "me_index pid (cur (hist ! pos))"
  have rs: "rs = rs1\<lparr>rs_lastNumberOfMessageWhenScrambled := length (ri_Messages ?ri), rs_lastScrambledRound := ?r\<rparr>"
    and ts: "ts = [TScramble ?r ?ri ?me (rs_scrambleKey rs1) (rs_revealKey rs1)]"
    using True assms(7) by (auto simp: read_scramble_def)
  have "locked_phase (ri_Phase ?ri)" by (simp add: assms(6) locked_phase_def)
  with True obtain mo where mo: "ri_Crypto ?ri = Some mo" "own_keys w mo ?r pid (R pid)"
    using keys_locked [where R = R, OF assms(1-4)] by blast
  have seen: "seen hist (Suc pos) ?r ScramblePhase (hist ! pos)" using seen_now [OF assms(2)] assms(6) by simp
  have "rs_ok w hist (Suc pos) pid rs1" by (rule rs_ok_Suc [OF rs_same_ok [OF assms(5,3)]])
  with seen have "rs_ok w hist (Suc pos) pid rs" unfolding rs_ok_def by (auto simp: rs own_keys_def)
  moreover have "rs_up (R pid) rs" using assms(5) True by (simp add: rs_same_def rs_up_def rs)
  moreover have "reads hist ?r ?ri ScramblePhase pid ?me" using reads_now [OF assms(2), of pid, unfolded assms(6)] True by blast
  ultimately show ?thesis
    using True mo assms(5) by (auto simp: read_ok_def task_ok_def ts own_keys_def rs_same_def rs)
next
  case False
  then have "rs = rs1" "ts = []" using assms(7) by (auto simp: read_scramble_def split: if_splits)
  then show ?thesis using assms(3,5) by (simp add: read_ok_same)
qed

lemma read_reveal_ok:
  assumes "hist_ok hist" and "pos < length hist" and "rs_ok w hist pos pid (R pid)" and "rounds_ok w R (hist ! pos)"
    and "rs_same (R pid) rs1" and "ri_Phase (cur (hist ! pos)) = RevealPhase"
    and "read_reveal c rs1 (sm_Round (hist ! pos)) (cur (hist ! pos)) (me_index pid (cur (hist ! pos))) = (rs, ts)"
  shows "read_ok w hist pos R pid rs ts"
proof (cases "cl_active c \<and> me_index pid (cur (hist ! pos)) \<noteq> - 1")
  case True
  let ?r = "sm_Round (hist ! pos)" and ?ri = "cur (hist ! pos)" and ?me = "me_index pid (cur (hist ! pos))"
  have rs: "rs = (if rs_lastRevealKeyHashesRound rs1 < ?r then rs1\<lparr>rs_lastRevealKeyHashes := ri_RevealKeyHashes ?ri,
      rs_lastMessagesBeforeReveal := ri_Messages ?ri, rs_lastRevealKeyHashesRound := ?r\<rparr> else rs1)"
    and ts: "ts = [TReveal ?r ?ri ?me (rs_revealKey rs)]"
    using True assms(7) by (auto simp: read_reveal_def Let_def)
  have key: "rs_revealKey rs = rs_revealKey (R pid)" using assms(5) by (simp add: rs rs_same_def)
  have "locked_phase (ri_Phase ?ri)" by (simp add: assms(6) locked_phase_def)
  with True obtain mo where mo: "ri_Crypto ?ri = Some mo" "own_keys w mo ?r pid (R pid)"
    using keys_locked [where R = R, OF assms(1-4)] by blast
  have seen: "seen hist (Suc pos) ?r RevealPhase (hist ! pos)" using seen_now [OF assms(2)] assms(6) by simp
  have "rs_ok w hist (Suc pos) pid rs1" by (rule rs_ok_Suc [OF rs_same_ok [OF assms(5,3)]])
  with seen have "rs_ok w hist (Suc pos) pid rs" unfolding rs_ok_def by (auto simp: rs own_keys_def)
  moreover have "rs_up (R pid) rs" using assms(5) True by (simp add: rs_same_def rs_up_def rs)
  moreover have "reads hist ?r ?ri RevealPhase pid ?me" using reads_now [OF assms(2), of pid, unfolded assms(6)] True by blast
  moreover have "?r \<le> rs_lastRevealKeyHashesRound rs" by (simp add: rs)
  ultimately show ?thesis
    using mo key by (auto simp: read_ok_def task_ok_def ts own_keys_def)
next
  case False
  then have "rs = rs1" "ts = []" using assms(7) by (auto simp: read_reveal_def split: if_splits)
  then show ?thesis using assms(3,5) by (simp add: read_ok_same)
qed

subsection \<open>The prepare phase: the result of the round before\<close>

lemma result_args:
  assumes "hist_ok hist" and "pos < length hist" and "rs_ok w hist pos pid (R pid)" and "\<forall>sm \<in> set hist. rounds_ok w R sm"
    and "ri_Phase (cur (hist ! pos)) = PreparePhase" and "GetRoundInfo (hist ! pos) (sm_Round (hist ! pos) - 1) = Inr ri"
    and "ri_Phase ri = DonePhase" and "pid \<in> set (ri_Participants ri)"
  shows "rs_lastRevealKeyHashes (R pid) = ri_RevealKeyHashes ri" and "rs_lastMessagesBeforeReveal (R pid) = ri_Messages ri"
    and "rs_lastNumberOfMessageWhenScrambled (R pid) = length (ri_Messages ri)"
    and "rs_lastRevealKeyHashesRound (R pid) = sm_Round (hist ! pos) - 1"
proof -
  let ?sm = "hist ! pos" and ?r = "sm_Round (hist ! pos)"
  have mem: "?sm \<in> set hist" using assms(2) by simp
  then have inv: "sm_inv ?sm" using assms(1) by (simp add: hist_ok_def)
  from assms(6) have k: "kept ?sm (?r - 1)" "ri = round_at ?sm (?r - 1)" by (auto elim: GetRoundInfo_cases)
  have ri_inv: "ri_inv ri" using GetRoundInfo_inv [OF inv assms(6)] by simp
  obtain p where p: "p < length (ri_Participants ri)" "ri_Participants ri ! p = pid"
    using assms(8) by (auto simp: in_set_conv_nth)
  have ok: "round_ok w R (?r - 1) ri" using assms(4) mem k by (auto simp: rounds_ok_def)
  then obtain mo where len: "length (ri_Messages ri) = length (ri_Participants ri)" and "member_ok w R mo (?r - 1) ri p"
    using assms(7) p(1) by (auto elim!: round_okD simp: locked_phase_def)
  then have lower: "?r - 1 \<le> rs_lastScrambledRound (R pid)" "?r - 1 \<le> rs_lastRevealKeyHashesRound (R pid)"
    using flags_nth(6,8) [OF ri_inv p(1)] assms(7) p(2) by (simp_all add: member_ok_def Let_def)
  have no_later: "\<not> seen hist pos ?r ph sm" if "0 < phaseOrder ph" for ph sm
    using seen_phase(2) [OF assms(1,2), of ph sm] assms(5) that by auto
  have r0: "0 \<le> ?r - 1" using k(1) by (simp add: kept_def)
  obtain sm1 where rev: "seen hist pos (rs_lastRevealKeyHashesRound (R pid)) RevealPhase sm1"
    "rs_lastRevealKeyHashes (R pid) = ri_RevealKeyHashes (cur sm1)" "rs_lastMessagesBeforeReveal (R pid) = ri_Messages (cur sm1)"
    using assms(3) lower(2) r0 by (auto simp: rs_ok_def)
  have r1: "rs_lastRevealKeyHashesRound (R pid) = ?r - 1"
    using lower(2) rs_rounds(3) [OF assms(1-3)] no_later [of RevealPhase sm1] rev(1)
    by (cases "rs_lastRevealKeyHashesRound (R pid) = ?r") auto
  obtain sm2 where scr: "seen hist pos (rs_lastScrambledRound (R pid)) ScramblePhase sm2"
    "rs_lastNumberOfMessageWhenScrambled (R pid) = length (ri_Messages (cur sm2))"
    using assms(3) lower(1) r0 by (auto simp: rs_ok_def)
  have r2: "rs_lastScrambledRound (R pid) = ?r - 1"
    using lower(1) rs_rounds(2) [OF assms(1-3)] no_later [of ScramblePhase sm2] scr(1)
    by (cases "rs_lastScrambledRound (R pid) = ?r") auto
  note s1 = seenD [OF assms(1,2) rev(1) [unfolded r1]] and s2 = seenD [OF assms(1,2) scr(1) [unfolded r2]]
  have "kept_as (cur sm1) ri" "kept_as (cur sm2) ri" using s1(2,4) s2(2,4) k by (simp_all add: ends_le_def)
  moreover have "length (ri_Messages (cur sm2)) = length (ri_Participants (cur sm2))"
    using assms(4) s2(5,6) by (auto simp: rounds_ok_def locked_phase_def elim!: round_okD)
  ultimately show "rs_lastRevealKeyHashes (R pid) = ri_RevealKeyHashes ri" "rs_lastMessagesBeforeReveal (R pid) = ri_Messages ri"
    "rs_lastNumberOfMessageWhenScrambled (R pid) = length (ri_Messages ri)"
    "rs_lastRevealKeyHashesRound (R pid) = ?r - 1"
    using rev(2,3) scr(2) r1 len s1(5) s2(5) by (simp_all add: kept_as_def)
qed

lemma read_prepare_ok:
  assumes "hist_ok hist" and "pos < length hist" and "rs_ok w hist pos pid (R pid)" and "\<forall>sm \<in> set hist. rounds_ok w R sm"
    and "rs_same (R pid) rs1" and "ri_Phase (cur (hist ! pos)) = PreparePhase"
    and "read_prepare False c rs1 (hist ! pos) ri me = Inr (rs, ts)"
  shows "read_ok w hist pos R pid rs ts"
proof -
  let ?send = "TSendRoundResult (hist ! pos) (sm_Round (hist ! pos)) (rs_lastRevealKeyHashes (R pid)) (rs_lastRevealKeyHashesRound (R pid))
    (rs_lastMessagesBeforeReveal (R pid)) (rs_lastNumberOfMessageWhenScrambled (R pid))"
  have "rs_same rs1 rs \<and> set ts \<subseteq> {?send, TPrepare (sm_Round (hist ! pos)) ri me}"
    using assms(5,7) by (simp add: read_prepare_def Let_def rs_same_def split: if_splits) auto
  then have same: "rs_same (R pid) rs" and ts: "set ts \<subseteq> {?send, TPrepare (sm_Round (hist ! pos)) ri me}"
    using assms(5) by (auto simp: rs_same_def)
  have "task_ok w (R(pid := rs)) hist pid ?send"
    using result_args [OF assms(1-4,6)] assms(2) by (auto simp: task_ok_def)
  moreover have "task_ok w (R(pid := rs)) hist pid (TPrepare (sm_Round (hist ! pos)) ri me)" by (simp add: task_ok_def)
  ultimately show ?thesis using same assms(3) ts by (intro read_ok_same) blast+
qed

subsection \<open>Every step\<close>

lemma MayPrecede_total: "\<exists>b. MayPrecede False sm sm' = Inr b"
  by (auto simp: MayPrecede_def CurrentRoundInfo_def split: sum.splits)

lemma read_sm_ok:
  assumes "wf_world w" and "hist_ok hist" and "pos < length hist" and "rs_ok w hist pos pid (R pid)"
    and "\<forall>sm \<in> set hist. rounds_ok w R sm" and "cl_Id c = pid" and "cl_Config c = w_conf w"
    and "read_sm False (w_cm w) c (R pid) (w_random w pid (sm_Round (hist ! pos))) (hist ! pos) = Inr (rs, ts, random)"
  shows "read_ok w hist pos R pid rs ts"
proof -
  let ?sm = "hist ! pos" and ?r = "sm_Round (hist ! pos)" and ?ri = "cur (hist ! pos)"
  let ?rs1 = "(R pid)\<lparr>rs_lastSm := ?sm, rs_version := rs_version (R pid) + 1\<rparr>" and ?me = "me_index pid ?ri"
  have mem: "?sm \<in> set hist" using assms(3) by simp
  then have inv: "sm_inv ?sm" and now: "rounds_ok w R ?sm" using assms(2,5) by (simp_all add: hist_ok_def)
  have same: "rs_same (R pid) ?rs1" by (simp add: rs_same_def)
  have idle: "read_ok w hist pos R pid ?rs1 [TSet ?sm (rs_version (R pid))]"
    using same assms(4) by (intro read_ok_same) (simp_all add: task_ok_def)
  have cons: "read_ok w hist pos R pid rs (TSet ?sm (rs_version (R pid)) # ts')" if "read_ok w hist pos R pid rs ts'" for ts' rs
    using that by (simp add: read_ok_def task_ok_def)
  obtain b where b: "MayPrecede False (rs_lastSm (R pid)) ?sm = Inr b" using MayPrecede_total by blast
  note turn = read_sm_def b CurrentRoundInfo_cur [OF sm_inv_basic [OF inv]] Let_def assms(6)
  have keys: "\<exists>mo. ri_Crypto ?ri = Some mo \<and> own_keys w mo ?r pid (R pid)" if "locked_phase (ri_Phase ?ri)" "?me \<noteq> - 1"
    using keys_locked [where R = R, OF assms(2-4) now that] .
  show ?thesis
  proof (cases "ri_Phase ?ri")
    case PreparePhase
    with assms(8) obtain ts' where "read_prepare False c ?rs1 ?sm ?ri ?me = Inr (rs, ts')" "ts = TSet ?sm (rs_version (R pid)) # ts'"
      by (auto simp: turn elim!: go_bindE)
    then show ?thesis using read_prepare_ok [where R = R, OF assms(2-5) same PreparePhase] cons by blast
  next
    case SubmitPhase
    with assms(8) obtain ts' where "read_submit False (w_cm w) c ?rs1 (w_random w pid ?r) ?r ?ri ?me = Inr (rs, ts', random)"
      "ts = TSet ?sm (rs_version (R pid)) # ts'"
      by (auto simp: turn elim!: go_bindE)
    then show ?thesis using read_submit_ok [where R = R, OF assms(1-4) same SubmitPhase assms(6,7)] cons by blast
  next
    case EncryptPhase
    have "task_ok w (R(pid := ?rs1)) hist pid (TEncrypt ?r ?ri ?me (rs_encryptKey (R pid)))" if "?me \<noteq> - 1"
      using keys that reads_now [OF assms(3) that] by (auto simp: EncryptPhase locked_phase_def task_ok_def own_keys_def)
    moreover have "rs = ?rs1" "ts = TSet ?sm (rs_version (R pid)) # (if cl_active c \<and> ?me \<noteq> - 1 then [TEncrypt ?r ?ri ?me (rs_encryptKey (R pid))] else [])"
      using assms(8) EncryptPhase by (auto simp: turn)
    ultimately show ?thesis using idle by (auto simp: read_ok_def)
  next
    case ScramblePhase
    with assms(8) obtain ts' where "read_scramble c ?rs1 ?r ?ri ?me = (rs, ts')" "ts = TSet ?sm (rs_version (R pid)) # ts'"
      by (auto simp: turn split: prod.splits)
    then show ?thesis using read_scramble_ok [where R = R, OF assms(2-4) now same ScramblePhase] cons by blast
  next
    case DecryptPhase
    have "task_ok w (R(pid := ?rs1)) hist pid (TDecrypt ?r ?ri ?me (rs_scrambleKey (R pid)) (rs_encryptKey (R pid)))" if "?me \<noteq> - 1"
      using keys that reads_now [OF assms(3) that] by (auto simp: DecryptPhase locked_phase_def task_ok_def own_keys_def)
    moreover have "rs = ?rs1" "ts = TSet ?sm (rs_version (R pid)) # (if cl_active c \<and> ?me \<noteq> - 1 then [TDecrypt ?r ?ri ?me (rs_scrambleKey (R pid)) (rs_encryptKey (R pid))] else [])"
      using assms(8) DecryptPhase by (auto simp: turn)
    ultimately show ?thesis using idle by (auto simp: read_ok_def)
  next
    case RevealPhase
    with assms(8) obtain ts' where "read_reveal c ?rs1 ?r ?ri ?me = (rs, ts')" "ts = TSet ?sm (rs_version (R pid)) # ts'"
      by (auto simp: turn split: prod.splits)
    then show ?thesis using read_reveal_ok [where R = R, OF assms(2-4) now same RevealPhase] cons by blast
  qed (use assms(8) idle in \<open>auto simp: turn\<close>)
qed

lemma sys_inv_read:
  assumes "wf_world w" and "sys_inv w s"
  shows "sys_inv w (sys_step w s (ERead c))"
proof (cases "cl_Config c = w_conf w \<and> sy_pos s (cl_Id c) < length (sy_hist s) \<and> (\<exists>rs ts random.
    read_sm False (w_cm w) c (sy_rs s (cl_Id c)) (w_random w (cl_Id c) (sm_Round (sy_hist s ! sy_pos s (cl_Id c))))
      (sy_hist s ! sy_pos s (cl_Id c)) = Inr (rs, ts, random))")
  case True
  let ?pid = "cl_Id c" and ?pos = "sy_pos s (cl_Id c)"
  obtain rs ts random where rd: "read_sm False (w_cm w) c (sy_rs s ?pid) (w_random w ?pid (sm_Round (sy_hist s ! ?pos)))
      (sy_hist s ! ?pos) = Inr (rs, ts, random)" using True by blast
  have inv: "hist_ok (sy_hist s)" "\<forall>sm \<in> set (sy_hist s). rounds_ok w (sy_rs s) sm" "\<forall>op \<in> set (sy_ops s). op_ok w (sy_rs s) (sy_hist s) op"
    "\<And>pid. rs_ok w (sy_hist s) (sy_pos s pid) pid (sy_rs s pid)" "\<forall>(pid, t) \<in> set (sy_tasks s). task_ok w (sy_rs s) (sy_hist s) pid t"
    using assms(2) by (auto simp: sys_inv_def)
  have ok: "read_ok w (sy_hist s) ?pos (sy_rs s) ?pid rs ts"
    by (rule read_sm_ok [OF assms(1) inv(1) _ inv(4,2) refl _ rd]) (use True in auto)
  have up: "\<forall>pid. rs_up (sy_rs s pid) (((sy_rs s)(?pid := rs)) pid)" using ok by (simp add: read_ok_def) (simp add: rs_up_def)
  have "sys_step w s (ERead c) = s\<lparr>sy_pos := (sy_pos s)(?pid := Suc ?pos), sy_rs := (sy_rs s)(?pid := rs),
      sy_tasks := sy_tasks s @ map (Pair ?pid) ts\<rparr>"
    using True rd by (simp add: Let_def)
  then show ?thesis
    using inv ok by (auto simp: sys_inv_def read_ok_def intro: rounds_ok_up [OF up] op_ok_up [OF up] task_ok_up [OF up])
next
  case False
  then have "sys_step w s (ERead c) = s" by (auto simp: Let_def split: sum.splits)
  then show ?thesis using assms(2) by simp
qed

interpretation system: total_steps "\<lambda>s e. Inr (sys_step w s e)" "\<lambda>s. wf_world w \<longrightarrow> sys_inv w s" for w
proof
  fix s e
  assume "wf_world w \<longrightarrow> sys_inv w s"
  then have "wf_world w \<longrightarrow> sys_inv w (sys_step w s e)"
    by (cases e) (auto intro: sys_inv_read sys_inv_task sys_inv_log sys_inv_extern simp del: sys_step.simps)
  then show "\<exists>s'. Inr (sys_step w s e) = Inr s' \<and> (wf_world w \<longrightarrow> sys_inv w s')" by blast
qed

lemma go_run_Inr: "go_run (\<lambda>s e. Inr (f s e)) s es = Inr (foldl f s es)"
  by (induction es arbitrary: s) simp_all

lemma sys_run_inv: "wf_world w \<Longrightarrow> sys_inv w (sys_run w es)"
  using system.run_inv [of w "sys_init w" es] sys_inv_init [of w] by (simp add: sys_run_def go_run_Inr)

end
