(* ===== verification/Demo_Prime.thy ===== *)
theory Demo_Prime
  imports Prime_Mod
begin

text \<open>
  A prime of 153 bits, the size that the clients choose for messages of 2 bytes and their header of 16: \<open>2 ^ 153 - 2 ^ 80 + 1\<close>,
  with a certificate for Proth's criterion. The runs of the whole protocol that the witnesses evaluate use it.
\<close>

definition demo_P :: nat where
  "demo_P = 11417981541647679048465078829776346461887266817"

definition demo_chain1 :: "(nat \<times> nat) list" where
  "demo_chain1 = [
     (3178483150068908889397478019237216538867499533, 7074400801714998141987703147586520348761365043),
     (4383186863698828794696925100957655492767481469, 2602217552210541325921866150338865643596277676),
     (593058953925708532773366748817516558711918511, 674330941404470085218897581095761274677611489),
     (39825096658005272107063060276156104110990965, 2877971642505775488476297634016106868793488716),
     (725410243908324617061264276031086630001982853, 7147457013622624990967639973483478055749439755),
     (4474183249924157338041700171063533862159162406, 10480776123011645093485784284463791055016778323),
     (9620497961046757607412825135257461652257364342, 1655042466623744480849712299453636855587052915),
     (239899281351678498531086481126859239829217483, 4963749854759320699297822256246308692267835614),
     (2157895643004136254487416128194170527113361084, 2871822111294268422110783010656841880954407368),
     (722313502507951034833646323737455883660923655, 8705082950505686977446289396552652110440831289),
     (6636765780254496430493427730104392339228643159, 3086422581956364570314619006365979055446646618),
     (834298454561657654347670284683549621166672708, 8631642430401583259972270150913469273262907488),
     (6525255867207981467256565974978892509729939901, 910456852744382434787504316751087128684905027),
     (72598793200500004537163165282778362326985646, 1784959145031608963449812920305243734678761947),
     (279040488707271397010158439772258389448987443, 3914068111801977664915705604345059281271651878),
     (1341737077428691188668427300471564204534147947, 73390818893862699321970242411738195079152185),
     (471730688849449076295333696745145759230685, 2088077003067043152674755846450327775141594580),
     (381859574289368006773783947602524223809324495, 9252023163377662112826064114628410870486593985),
     (7496940882540982754181881699805682521127723420, 1062984734566635724905548944000660576918426085),
     (98961146661535485280004085781455522809935967, 8841923216760284328591425431334850825194520186)]"

definition demo_chain2 :: "(nat \<times> nat) list" where
  "demo_chain2 = [
     (6847060129316234334128208256768176863682309717, 4668870524470790748184610483729037623950713807),
     (1909124821647463593729943670998753880773733198, 5596499405902370274356451541134958235023742483),
     (2743112299316768274412037669913522788447745712, 8238278049877685486356497973498837774787366585),
     (5944065067852839520277355733875090158873202967, 5295179777279874081234801040770108829049516186),
     (2455681748252989513320384103766342467999510595, 4486402944040325993512004376562359822492560481),
     (1762816948238746924452765948495411000791724537, 2249966440311762411656033871915333124558162632),
     (443366365943402817508604238387904986271053662, 10666676147418501401428372247906853595842233570),
     (9964806793468331361987739724042764756305999637, 1343176407585157586011495105818086053510799471),
     (158007162239029533973932558769575791792871086, 3025050266325961714008400009601029927807326579),
     (801448932144467390821421334080415354698439009, 8705959849714531806209901559672128547775778888),
     (6638102945637098138785718217835969432972580342, 11100198584849497716239698063718518484743405130),
     (10791260099139576869438732392517819580493977919, 10566541979185661114991023655370535292450903077),
     (9778594315522149932881228020402423005520208414, 7995396306534511051896915749416288950181669691),
     (5598744564910267572448787613497012830883757757, 5995991490015276030581139584364793757575586012),
     (3148710112833791314408173976788613768472457417, 10920167810586535175038257828063469943660432455),
     (10444058310691739401484498896886558549545522475, 9073968157279604779930584628782967659622114950),
     (7211160555742372327003596901531495829444603079, 11120230397053708028702504836676389840280772957),
     (10830243824839158312015294238874061560512803163, 9725610836622016757856075182559043320199981678),
     (8284082944118168090362296968195554390116250688, 8415119279912021226316381304970137415619875588),
     (6201992202986879416437638429898571482010216613, 8254764885995116774766498568475961535901314923)]"

definition demo_chain3 :: "(nat \<times> nat) list" where
  "demo_chain3 = [
     (5967879968496150017052717115058626658718336382, 3897691474759867631986216854505734477230059835),
     (1330532789618037940614016563420643084236599719, 2231380936897972138013109338754874951100002802),
     (436071898293957601371829811249862886009470657, 8302022867263297420413465528927874225716562435),
     (6036406998659120336917284119825951953652871537, 5838804128496224758441139616442842064709241496),
     (2985784617587054179334624321232654125294946732, 2319753035972447191732753257645116962562125972),
     (471296448349910416056082056993483139085754962, 9958447324593555161440248538130184159221248830),
     (8685481996531030464691883573410870223307659514, 5507093855134880520983705606654372762069821962),
     (2656168484652134692468662068464524630424274750, 9552645440006605706104884541340465827411558694),
     (7992046104613922034389832064087924250283230771, 7393036055486796100539792005994815488945359729),
     (4786921569137556592561421645060591621122884270, 6111809646586169247144989656237430559112684851),
     (3271525446056495472327987914169078611229941757, 2916342012641323097804174374848378438816114732),
     (744882158345958965818559978727523823436367417, 11295907443377007269105338494796223530663330135),
     (11175138486948984429239561125681178259120620052, 893778813561497449896822955454770223394703741),
     (69963378786135331628164186739993194615842024, 3913634295782910480095627581526862774750077473),
     (1341439670861294420588915110626729029364779155, 3854495138523220947135214887805188831737266094),
     (1301204833683342624822382630678851484894676814, 1238201726848806430023046951765274790360535798),
     (134274478442546597884583928671956391429358906, 5315545264036140012084029433575585878762274602),
     (2474607385811177156043258094149483174105527150, 1580762039742326024972182757194019634366676854),
     (218848543166389369014890510056514278143462232, 9929971298624599373061109134369391431312981772),
     (8635881012054881312260477852023493938814140056, 2970786732398338478813199156825592435524938232)]"

definition demo_chain4 :: "(nat \<times> nat) list" where
  "demo_chain4 = [
     (772953939118070876531817056338383989330449054, 1506235253371211356567162389887822600092044706),
     (198699273617046384032303020401323731744721319, 3589389016999933997015572235914180627641454813),
     (1128370497742156976739108210183115415841955853, 1251356062845791584840636664739970001375035068),
     (137142628082664921135435104072721667482288869, 7155288205132136130505220069364855980557604651),
     (4483992999266566067576470540538151638586141127, 5244648627440738699385375759072587541750749042),
     (2409036932227051461687658612992072164381025685, 7732938895393158901971309364672891348338723119),
     (5237207972509572887813158687300178121381555947, 1530163002051791736815404629981875820742977462),
     (205062410051004038171040445574449134628065214, 11366762648819711827195770199661597633745757606),
     (11315773514200141939197225134243367612085877754, 5175832944366853613117880238465991523464162218),
     (2346233138517354266434291501684633636481415180, 6878102294944109907106340203268524286204597464),
     (4143314736247907665691631768153980579090592913, 2690983050672699766992263358229123508714963375),
     (634209273556311644685124695068281520725039690, 9293571404000815851483246927684549039646423895),
     (7564425386940847194633794186810096015091131411, 6946770236016774283213785106445559059060282238),
     (4226457761907075563129952128382983588345528465, 2891965920471219090757933972106934329894842739),
     (732482081413493870822250907290881094785067133, 9372576289340334186183755830064329662312796460),
     (7693582791238955935103384463952839189231543961, 11059062178945164413745395026960429958116489463),
     (10711425292786589729488775484971475022786040727, 9916462738657197074523286039255944928112372410),
     (8612400789797224081706167714568249704199641617, 4808942150497086217223164916653225531472885011),
     (2025395164852433195178763054378096272811810665, 11417981541647679048465078829776346461887266816)]"

lemma demo_chain1_checks: "square_chain demo_P 6024272731037745067218530217410074739607549752 demo_chain1 = Some 8841923216760284328591425431334850825194520186"
  by (simp add: demo_P_def demo_chain1_def)

lemma demo_chain2_checks: "square_chain demo_P 8841923216760284328591425431334850825194520186 demo_chain2 = Some 8254764885995116774766498568475961535901314923"
  by (simp add: demo_P_def demo_chain2_def)

lemma demo_chain3_checks: "square_chain demo_P 8254764885995116774766498568475961535901314923 demo_chain3 = Some 2970786732398338478813199156825592435524938232"
  by (simp add: demo_P_def demo_chain3_def)

lemma demo_chain4_checks: "square_chain demo_P 2970786732398338478813199156825592435524938232 demo_chain4 = Some 11417981541647679048465078829776346461887266816"
  by (simp add: demo_P_def demo_chain4_def)

lemma prime_demo_P: "is_prime demo_P"
proof (rule proth [where k = "2 ^ 73 - 1" and m = 79 and a = 6024272731037745067218530217410074739607549752])
  let ?chain = "demo_chain1 @ demo_chain2 @ demo_chain3 @ demo_chain4"
  have len: "length ?chain = 79"
    by (simp add: demo_chain1_def demo_chain2_def demo_chain3_def demo_chain4_def)
  have "square_chain demo_P 6024272731037745067218530217410074739607549752 ?chain = Some 11417981541647679048465078829776346461887266816"
    by (intro square_chain_append [OF demo_chain1_checks] square_chain_append [OF demo_chain2_checks]
        square_chain_append [OF demo_chain3_checks] demo_chain4_checks)
  then have "6024272731037745067218530217410074739607549752 ^ 2 ^ 79 mod demo_P = 11417981541647679048465078829776346461887266816 mod demo_P" by (rule square_chain_power [of demo_P _ ?chain, unfolded len])
  also have "11417981541647679048465078829776346461887266816 mod demo_P = demo_P - 1" by (simp add: demo_P_def)
  finally show "6024272731037745067218530217410074739607549752 ^ 2 ^ 79 mod demo_P = demo_P - 1" .
qed (simp_all add: demo_P_def)

end
