(* ===== verification/Protocol_Demo.thy ===== *)
theory Protocol_Demo
  imports Protocol_Read Demo_Prime
begin

text \<open>
  A run of the whole system, evaluated: one client joins, starts, submits, encrypts, scrambles, decrypts and
  reveals, over the log, and reports the result.
\<close>

definition demo_mo :: masseyOmuraCrypto where
  "demo_mo = \<lparr>crypto_P = [1, 255, 255, 255, 255, 255, 255, 255, 255, 255, 0, 0, 0, 0, 0, 0, 0, 0, 0, 1]\<rparr>"

definition demo_world :: world where
  "demo_world = \<lparr>w_prime = is_prime, w_sha256 = (\<lambda>bs. bs), w_conf = cl_Config demo_client,
     w_random = (\<lambda>_ _. replicate 20 0 @ replicate 20 0 @ replicate 20 0), w_user = (\<lambda>_ _. Some [72]),
     w_header = (\<lambda>_ _. [1, 2, 3, 4, 5, 6, 7, 8]), w_header' = (\<lambda>_ _. []), w_start = (\<lambda>_. 2)\<rparr>"

definition demo_m :: Msg where
  "demo_m = \<lparr>msg_M = [1, 0, 13, 13, 13, 13, 13, 13, 13, 13, 1, 2, 3, 4, 5, 6, 7, 8, 72]\<rparr>"

lemma getP_demo: "getP demo_mo = demo_P"
  by (simp add: getP_def demo_mo_def bigInt_def demo_P_def)

lemma BitLen_demo: "big_BitLen demo_P = 153" "big_BitLen (demo_P - 3) = 153"
  using BitLen_unique [of 152 demo_P] BitLen_unique [of 152 "demo_P - 3"] by (simp_all add: demo_P_def)

lemma wf_demo: "wf_world demo_world"
  by (simp add: wf_world_def demo_world_def w_size_def said_def demo_client_def)

lemma demo_verify: "crypto_Verify is_prime demo_mo 18 = None"
  by (simp add: crypto_Verify_def VerifySysKey_def createSysKey_def getP_demo BitLen_demo prime_demo_P BitsMaxSize_def)

lemma ModInverse_1:
  assumes "1 < n"
  shows "big_ModInverse 1 n = Some 1"
proof -
  have "bezw n 1 = (0, 1)" by (subst bezw_non_0) (simp_all add: bezw_0)
  then have "bezw 1 n = (1, 0)" using assms by (subst bezw_non_0) simp_all
  then show ?thesis using assms by (simp add: big_ModInverse_def)
qed

lemma demo_GenKey: "crypto_GenKey demo_mo False (replicate 20 0 @ rest) = Inr (demo_key, rest)"
proof -
  have "replicate 20 (0 :: byte) = 0 # replicate 19 0" by (simp add: numeral_eq_Suc)
  moreover have "bigInt (0 # replicate 19 0) = 0" using bigInt_zeros [of 19 "[]"] by (simp add: bigInt_Cons)
  ultimately have loop: "rand_Int_loop 20 1 (demo_P - 2) (replicate 20 0 @ rest) = (Inr 0, rest)"
    by (simp add: rand_Int_loop.simps top_mask_def demo_P_def)
  have big: "3 < demo_P" by (simp add: demo_P_def)
  then have "nat (int demo_P - 2) = demo_P - 2" "nat (int demo_P - 2 - 1) = demo_P - 3" "nat (int demo_P - 1) = demo_P - 1" by simp_all
  then have "rand_Int (replicate 20 0 @ rest) (int demo_P - 1 - 1) = Inr (Inr 0, rest)"
    using big loop by (simp add: rand_Int_def BitLen_demo)
  moreover have "big_BitLen (Suc 0) = Suc 0" using BitLen_1 [of 1] by simp
  ultimately have "GenUserKey_loop (int demo_P - 1) (replicate 20 0 @ rest) = Inr (Inr 1, rest)"
    by (simp add: GenUserKey_loop.simps mo_randHelp_def)
  moreover have "big_ModInverse 1 (nat (int demo_P - 1)) = Some 1" using big by (intro ModInverse_1) linarith
  moreover have "big_Bytes 1 = [1]" by (simp add: big_Bytes.simps)
  ultimately show ?thesis
    by (simp add: crypto_GenKey_def GenUserKey_def createSysKey_def getP_demo demo_key_def)
qed

lemma demo_cipher: "crypto_Encrypt demo_mo demo_key demo_m = demo_m" "crypto_Decrypt demo_mo demo_key demo_m = demo_m"
proof -
  have m: "big_Bytes (bigInt (msg_M demo_m)) = msg_M demo_m" by (intro big_Bytes_bigInt) (simp_all add: demo_m_def)
  have "bigInt (msg_M demo_m) < demo_P" by (simp add: demo_m_def bigInt_def demo_P_def)
  then show "crypto_Encrypt demo_mo demo_key demo_m = demo_m" "crypto_Decrypt demo_mo demo_key demo_m = demo_m"
    using m by (simp_all add: crypto_Encrypt_def crypto_Decrypt_def mo_Encrypt_def mo_Decrypt_def createPrivateKey_def
        createSysKey_def getP_demo getM_def getE_def getD_def NewMsg_def demo_key_def big_Exp_def bigInt_Cons)
qed

lemma demo_Prepare: "crypto_PrepareMsg demo_mo [13, 13, 13, 13, 13, 13, 13, 13, 1, 2, 3, 4, 5, 6, 7, 8, 72] = Inr (Inr demo_m)"
proof -
  let ?msg = "[13, 13, 13, 13, 13, 13, 13, 13, 1, 2, 3, 4, 5, 6, 7, 8, 72] :: bytes"
  have "PrepareMsg ?msg 153 = Inr (Inr (bigInt (msg_M demo_m)))"
    using PrepareMsg_eq [of ?msg 153] by (simp add: bytesMaxSize_pos demo_m_def)
  moreover have "NewMsg (bigInt (msg_M demo_m)) = demo_m"
    unfolding NewMsg_def by (subst big_Bytes_bigInt) (simp_all add: demo_m_def)
  ultimately show ?thesis by (simp add: crypto_PrepareMsg_def getP_demo BitLen_demo)
qed

definition demo_round0 :: "Phase \<Rightarrow> Msg \<Rightarrow> bytes \<Rightarrow> bool \<Rightarrow> bool \<Rightarrow> bool \<Rightarrow> PrivateKey \<Rightarrow> masseyOmuraCrypto RoundInfo" where
  "demo_round0 ph m h e s d k = \<lparr>ri_Phase = ph, ri_Crypto = Some demo_mo, ri_Participants = [7], ri_Messages = [m],
     ri_Encrypted = [e], ri_Scrambled = [s], ri_Decrypted = [d], ri_RevealedKeys = [k], ri_RevealKeyHashes = [h]\<rparr>"

definition demo_stage :: "Phase \<Rightarrow> Msg \<Rightarrow> bytes \<Rightarrow> bool \<Rightarrow> bool \<Rightarrow> bool \<Rightarrow> masseyOmuraCrypto StateMachine" where
  "demo_stage ph m h e s d = \<lparr>sm_Round = 0, sm_Rounds = [demo_round0 ph m h e s d NilPrivateKey, zero_RoundInfo, zero_RoundInfo]\<rparr>"

definition demo_final :: "masseyOmuraCrypto StateMachine" where
  "demo_final = \<lparr>sm_Round = 1, sm_Rounds = [demo_round0 DonePhase demo_m [1, 1] True True True demo_key,
     zero_RoundInfo\<lparr>ri_Phase := PreparePhase\<rparr>, zero_RoundInfo]\<rparr>"

definition demo_in_round :: "masseyOmuraCrypto StateMachine" where
  "demo_in_round = \<lparr>sm_Round = 0, sm_Rounds = [(demo_round0 PreparePhase NilMsg [] False False False NilPrivateKey)\<lparr>ri_Crypto := None\<rparr>,
     zero_RoundInfo, zero_RoundInfo]\<rparr>"

lemma demo_log:
  "Apply False sm_init (JoinOp 7 0) = Inr (True, demo_in_round)"
  "Apply False demo_in_round (StartOp 7 0 (Some demo_mo)) = Inr (True, demo_stage SubmitPhase NilMsg [] False False False)"
  "Apply False (demo_stage SubmitPhase NilMsg [] False False False) (MessageOp 7 0 demo_m [1, 1]) =
     Inr (True, demo_stage EncryptPhase demo_m [1, 1] False False False)"
  "Apply False (demo_stage EncryptPhase demo_m [1, 1] False False False) (EncryptedOp 7 0 [demo_m] 0) =
     Inr (True, demo_stage ScramblePhase demo_m [1, 1] True False False)"
  "Apply False (demo_stage ScramblePhase demo_m [1, 1] True False False) (ScrambledOp 7 0 [demo_m]) =
     Inr (True, demo_stage DecryptPhase demo_m [1, 1] True True False)"
  "Apply False (demo_stage DecryptPhase demo_m [1, 1] True True False) (DecryptedOp 7 0 [demo_m] 0) =
     Inr (True, demo_stage RevealPhase demo_m [1, 1] True True True)"
  "Apply False (demo_stage RevealPhase demo_m [1, 1] True True True) (RevealOp 7 0 demo_key) = Inr (True, demo_final)"
  by (simp_all add: sm_eval sm_init_def demo_in_round_def demo_stage_def demo_round0_def demo_final_def demo_m_def demo_key_def
      go_store_def signed_modulo_int_def)

text \<open>The turns of \<open>readUpdates\<close>.\<close>

lemma demo_client_simps:
  "cl_active demo_client" "\<not> cl_leaving demo_client" "cl_Id demo_client = 7" "cfg_MessageSize (cl_Config demo_client) = 2"
  by (simp_all add: demo_client_def)

lemma demo_turn:
  assumes "CurrentRoundInfo False sm = Inr ri" and "me_index 7 ri = 0"
  shows "read_sm False cm demo_client rs random sm =
    go_bind (let rs = rs\<lparr>rs_lastSm := sm, rs_version := rs_version rs + 1\<rparr>; round = sm_Round sm in case ri_Phase ri of
       PreparePhase \<Rightarrow> go_bind (read_prepare False demo_client rs sm ri 0) (\<lambda>(rs, ts). Inr (rs, ts, random))
     | SubmitPhase \<Rightarrow> read_submit False cm demo_client rs random round ri 0
     | EncryptPhase \<Rightarrow> Inr (rs, [TEncrypt round ri 0 (rs_encryptKey rs)], random)
     | ScramblePhase \<Rightarrow> Inr (case read_scramble demo_client rs round ri 0 of (rs, ts) \<Rightarrow> (rs, ts, random))
     | DecryptPhase \<Rightarrow> Inr (rs, [TDecrypt round ri 0 (rs_scrambleKey rs) (rs_encryptKey rs)], random)
     | RevealPhase \<Rightarrow> Inr (case read_reveal demo_client rs round ri 0 of (rs, ts) \<Rightarrow> (rs, ts, random))
     | _ \<Rightarrow> Inr (rs, [], random)) (\<lambda>(rs', ts, random). Inr (rs', TSet sm (rs_version rs) # ts, random))"
proof -
  obtain b where "MayPrecede False (rs_lastSm rs) sm = Inr b" using MayPrecede_total by blast
  then show ?thesis using assms by (simp add: read_sm_def Let_def demo_client_simps cong: Phase.case_cong)
qed

lemma demo_now:
  "CurrentRoundInfo False (demo_stage ph m h e s d) = Inr (demo_round0 ph m h e s d NilPrivateKey)"
  "me_index 7 (demo_round0 ph m h e s d k) = 0" "ri_Phase (demo_round0 ph m h e s d k) = ph" "sm_Round (demo_stage ph m h e s d) = 0"
  by (simp_all add: CurrentRoundInfo_def GetRoundInfo_def NumRoundsPersisted_def demo_stage_def demo_round0_def me_index_def)

definition demo_rs :: "masseyOmuraCrypto StateMachine \<Rightarrow> int \<Rightarrow> masseyOmuraCrypto ReadState" where
  "demo_rs sm n = rs_init\<lparr>rs_lastSm := sm, rs_version := n, rs_encryptKey := demo_key, rs_scrambleKey := demo_key,
     rs_revealKey := demo_key, rs_lastKeyGen := 0, rs_lastMessageRound := 0\<rparr>"

lemma demo_read_submit:
  "read_sm False (w_cm demo_world) demo_client rs_init (replicate 20 0 @ replicate 20 0 @ replicate 20 0)
     (demo_stage SubmitPhase NilMsg [] False False False) =
   Inr (demo_rs (demo_stage SubmitPhase NilMsg [] False False False) 1,
     [TSet (demo_stage SubmitPhase NilMsg [] False False False) 0,
      TSubmit 0 (demo_round0 SubmitPhase NilMsg [] False False False NilPrivateKey) 0 demo_key demo_key], [])"
  using demo_GenKey [of "replicate 20 0 @ replicate 20 0"] demo_GenKey [of "replicate 20 0"] demo_GenKey [of "[]"] demo_verify
  by (simp add: demo_turn [OF demo_now(1,2)] demo_now read_submit_def demo_client_simps rs_init_def the_crypto_def Let_def
      messageHeaderLength_def demo_rs_def) (simp add: demo_round0_def demo_world_def)

lemma demo_submit:
  "cl_submit False (w_cm demo_world) (\<lambda>bs. bs) (Some [72]) [1, 2, 3, 4, 5, 6, 7, 8] [] demo_client 0
     (demo_round0 SubmitPhase NilMsg [] False False False NilPrivateKey) 0 demo_key demo_key = Inr (Some (MessageOp 7 0 demo_m [1, 1]))"
  using demo_Prepare demo_cipher
  by (simp add: cl_submit_def demo_round0_def index_me_def the_crypto_def messageWithHeader_eq numeral_eq_Suc go_copy_def
      demo_client_simps PrivateKey_Hash_eq) (simp add: demo_key_def)

text \<open>After the submit phase the client has its keys.\<close>

lemma demo_read_encrypt:
  "read_sm False cm demo_client (demo_rs sm n) random (demo_stage EncryptPhase demo_m [1, 1] False False False) =
     Inr (demo_rs (demo_stage EncryptPhase demo_m [1, 1] False False False) (n + 1),
       [TSet (demo_stage EncryptPhase demo_m [1, 1] False False False) n,
        TEncrypt 0 (demo_round0 EncryptPhase demo_m [1, 1] False False False NilPrivateKey) 0 demo_key], random)"
  by (simp add: demo_turn [OF demo_now(1,2)] demo_now demo_rs_def Let_def)

lemma demo_encrypt_op:
  "cl_encrypt (w_cm w) demo_client 0 (demo_round0 EncryptPhase demo_m [1, 1] False False False NilPrivateKey) 0 demo_key =
     Inr (Some (EncryptedOp 7 0 [demo_m] 0))"
  by (simp add: cl_encrypt_def demo_round0_def index_me_def demo_client_simps)

lemma demo_read_scramble:
  "read_sm False cm demo_client (demo_rs sm n) random (demo_stage ScramblePhase demo_m [1, 1] True False False) =
     Inr ((demo_rs (demo_stage ScramblePhase demo_m [1, 1] True False False) (n + 1))
         \<lparr>rs_lastNumberOfMessageWhenScrambled := 1, rs_lastScrambledRound := 0\<rparr>,
       [TSet (demo_stage ScramblePhase demo_m [1, 1] True False False) n,
        TScramble 0 (demo_round0 ScramblePhase demo_m [1, 1] True False False NilPrivateKey) 0 demo_key demo_key], random)"
  by (simp add: demo_turn [OF demo_now(1,2)] demo_now demo_rs_def rs_init_def Let_def read_scramble_def demo_client_simps
      numScrambled_def) (simp add: demo_round0_def)

lemma demo_scramble_op:
  "cl_scramble (w_cm w) draw demo_client 0 (demo_round0 ScramblePhase demo_m [1, 1] True False False NilPrivateKey) 0 demo_key demo_key =
     Inr (Some (ScrambledOp 7 0 [demo_m]))"
  by (simp add: cl_scramble_def demo_round0_def index_me_def demo_client_simps the_crypto_def demo_cipher Shuffle_def)

lemma demo_read_decrypt:
  "read_sm False cm demo_client ((demo_rs sm n)\<lparr>rs_lastNumberOfMessageWhenScrambled := 1, rs_lastScrambledRound := 0\<rparr>) random
       (demo_stage DecryptPhase demo_m [1, 1] True True False) =
     Inr ((demo_rs (demo_stage DecryptPhase demo_m [1, 1] True True False) (n + 1))
         \<lparr>rs_lastNumberOfMessageWhenScrambled := 1, rs_lastScrambledRound := 0\<rparr>,
       [TSet (demo_stage DecryptPhase demo_m [1, 1] True True False) n,
        TDecrypt 0 (demo_round0 DecryptPhase demo_m [1, 1] True True False NilPrivateKey) 0 demo_key demo_key], random)"
  by (simp add: demo_turn [OF demo_now(1,2)] demo_now demo_rs_def Let_def)

lemma demo_decrypt_op:
  "cl_decrypt (w_cm w) demo_client 0 (demo_round0 DecryptPhase demo_m [1, 1] True True False NilPrivateKey) 0 demo_key demo_key =
     Inr (Some (DecryptedOp 7 0 [demo_m] 0))"
  by (simp add: cl_decrypt_def demo_round0_def index_me_def demo_client_simps the_crypto_def demo_cipher)

definition demo_rs_reveal :: "masseyOmuraCrypto StateMachine \<Rightarrow> int \<Rightarrow> masseyOmuraCrypto ReadState" where
  "demo_rs_reveal sm n = (demo_rs sm n)\<lparr>rs_lastNumberOfMessageWhenScrambled := 1, rs_lastScrambledRound := 0,
     rs_lastRevealKeyHashes := [[1, 1]], rs_lastMessagesBeforeReveal := [demo_m], rs_lastRevealKeyHashesRound := 0\<rparr>"

lemma demo_read_reveal:
  "read_sm False cm demo_client ((demo_rs sm n)\<lparr>rs_lastNumberOfMessageWhenScrambled := 1, rs_lastScrambledRound := 0\<rparr>) random
       (demo_stage RevealPhase demo_m [1, 1] True True True) =
     Inr (demo_rs_reveal (demo_stage RevealPhase demo_m [1, 1] True True True) (n + 1),
       [TSet (demo_stage RevealPhase demo_m [1, 1] True True True) n,
        TReveal 0 (demo_round0 RevealPhase demo_m [1, 1] True True True NilPrivateKey) 0 demo_key], random)"
  by (simp add: demo_turn [OF demo_now(1,2)] demo_now demo_rs_def demo_rs_reveal_def rs_init_def Let_def read_reveal_def
      demo_client_simps) (simp add: demo_round0_def)

lemma demo_reveal_op:
  "cl_reveal demo_client 0 (demo_round0 RevealPhase demo_m [1, 1] True True True NilPrivateKey) 0 demo_key = Inr (Some (RevealOp 7 0 demo_key))"
  by (simp add: cl_reveal_def demo_round0_def index_me_def demo_client_simps)

lemma demo_read_final:
  "\<exists>rs ts. read_sm False cm demo_client (demo_rs_reveal sm n) random demo_final = Inr (rs, ts, random) \<and>
     TSendRoundResult demo_final 1 [[1, 1]] 0 [demo_m] 1 \<in> set ts"
proof -
  obtain b where "MayPrecede False sm demo_final = Inr b" using MayPrecede_total by blast
  moreover have "CurrentRoundInfo False demo_final = Inr (zero_RoundInfo\<lparr>ri_Phase := PreparePhase\<rparr>)" "sm_Round demo_final = 1"
    by (simp_all add: CurrentRoundInfo_def GetRoundInfo_def NumRoundsPersisted_def demo_final_def)
  ultimately show ?thesis
    by (simp add: read_sm_def read_prepare_def demo_rs_reveal_def demo_rs_def rs_init_def demo_client_simps Let_def)
qed

text \<open>One turn of the client, its goroutine, and the log entry of the operation it submits.\<close>

definition demo_cycle :: "nat \<Rightarrow> sys_event list" where
  "demo_cycle k = [ERead demo_client, ETask (2 * k + 1) demo_client (\<lambda>_. 0), ELog (k + 2)]"

definition demo_steps :: "sys_event list" where
  "demo_steps = [EExtern (JoinOp 7 0), ELog 0, EExtern (StartOp 7 0 (Some demo_mo)), ELog 1] @
     demo_cycle 0 @ demo_cycle 1 @ demo_cycle 2 @ demo_cycle 3 @ demo_cycle 4 @ [ERead demo_client]"

definition demo_at :: "Sys \<Rightarrow> nat \<Rightarrow> masseyOmuraCrypto StateMachine \<Rightarrow> masseyOmuraCrypto ReadState \<Rightarrow> bool" where
  "demo_at s k sm rs \<longleftrightarrow> (\<exists>hist. sy_hist s = hist @ [sm] \<and> sy_pos s 7 = length hist) \<and> sy_rs s 7 = rs \<and>
     length (sy_tasks s) = 2 * k \<and> length (sy_ops s) = k + 2"

lemma demo_world_simps:
  "w_random demo_world pid r = replicate 20 0 @ replicate 20 0 @ replicate 20 0" "w_conf demo_world = cl_Config demo_client"
  "w_user demo_world pid r = Some [72]" "w_header demo_world pid r = [1, 2, 3, 4, 5, 6, 7, 8]" "w_header' demo_world pid r = []"
  "w_sha256 demo_world = (\<lambda>bs. bs)" "w_start demo_world = (\<lambda>_. 2)"
  by (simp_all add: demo_world_def)

abbreviation demo_random :: reader where
  "demo_random \<equiv> replicate 20 0 @ replicate 20 0 @ replicate 20 0"

lemma demo_cycle_at:
  assumes "demo_at s k sm rs" and "read_sm False (w_cm demo_world) demo_client rs demo_random sm = Inr (rs', [t0, t], random')"
    and "task_op False (w_cm demo_world) (\<lambda>bs. bs) (env_of demo_world 7 (task_round t) (\<lambda>_. 0)) demo_client t = Inr (Some op)"
    and "Apply False sm op = Inr (True, sm')"
  shows "demo_at (foldl (sys_step demo_world) s (demo_cycle k)) (Suc k) sm' rs'"
proof -
  obtain hist where hist: "sy_hist s = hist @ [sm]" "sy_pos s 7 = length hist" and rs: "sy_rs s 7 = rs"
    and len: "length (sy_tasks s) = 2 * k" "length (sy_ops s) = k + 2" using assms(1) by (auto simp: demo_at_def)
  let ?s1 = "sys_step demo_world s (ERead demo_client)" and ?s2 = "s\<lparr>sy_pos := (sy_pos s)(7 := Suc (length hist)),
    sy_rs := (sy_rs s)(7 := rs'), sy_tasks := sy_tasks s @ [(7, t0), (7, t)]\<rparr>"
  have s1: "?s1 = ?s2" using assms(2) hist rs by (simp add: demo_client_simps demo_world_simps Let_def)
  have s2: "sys_step demo_world ?s2 (ETask (2 * k + 1) demo_client (\<lambda>_. 0)) = ?s2\<lparr>sy_ops := sy_ops s @ [op]\<rparr>"
    using assms(3) len by (simp add: demo_client_simps demo_world_simps nth_append)
  have s3: "sys_step demo_world (?s2\<lparr>sy_ops := sy_ops s @ [op]\<rparr>) (ELog (k + 2)) =
      ?s2\<lparr>sy_ops := sy_ops s @ [op], sy_hist := sy_hist s @ [sm']\<rparr>"
    using assms(4) len hist(1) by (simp add: nth_append)
  have "foldl (sys_step demo_world) s (demo_cycle k) = ?s2\<lparr>sy_ops := sy_ops s @ [op], sy_hist := sy_hist s @ [sm']\<rparr>"
    by (simp only: demo_cycle_def foldl.simps s1 s2 s3)
  then show ?thesis using len hist by (simp add: demo_at_def)
qed

lemma demo_run_reports:
  "(7, TSendRoundResult demo_final 1 [[1, 1]] 0 [demo_m] 1) \<in> set (sy_tasks (sys_run demo_world demo_steps))"
proof -
  define f where "f = foldl (sys_step demo_world)"
  define s0 where "s0 = f (sys_init demo_world) [EExtern (JoinOp 7 0), ELog 0, EExtern (StartOp 7 0 (Some demo_mo)), ELog 1]"
  define s1 where "s1 = f s0 (demo_cycle 0)"
  define s2 where "s2 = f s1 (demo_cycle 1)"
  define s3 where "s3 = f s2 (demo_cycle 2)"
  define s4 where "s4 = f s3 (demo_cycle 3)"
  define s5 where "s5 = f s4 (demo_cycle 4)"
  have "demo_at s0 0 (demo_stage SubmitPhase NilMsg [] False False False) rs_init"
    by (simp add: s0_def f_def sys_init_def demo_log demo_at_def demo_world_simps)
  from demo_cycle_at [OF this demo_read_submit _ demo_log(3)]
  have "demo_at s1 1 (demo_stage EncryptPhase demo_m [1, 1] False False False)
      (demo_rs (demo_stage SubmitPhase NilMsg [] False False False) 1)"
    by (simp add: s1_def f_def demo_submit env_of_def demo_world_simps)
  from demo_cycle_at [OF this demo_read_encrypt _ demo_log(4)]
  have "demo_at s2 2 (demo_stage ScramblePhase demo_m [1, 1] True False False)
      (demo_rs (demo_stage EncryptPhase demo_m [1, 1] False False False) 2)"
    by (simp add: s2_def f_def demo_encrypt_op numeral_2_eq_2)
  from demo_cycle_at [OF this demo_read_scramble _ demo_log(5)]
  have "demo_at s3 3 (demo_stage DecryptPhase demo_m [1, 1] True True False)
      ((demo_rs (demo_stage ScramblePhase demo_m [1, 1] True False False) 3)\<lparr>rs_lastNumberOfMessageWhenScrambled := 1, rs_lastScrambledRound := 0\<rparr>)"
    by (simp add: s3_def f_def demo_scramble_op)
  from demo_cycle_at [OF this demo_read_decrypt _ demo_log(6)]
  have "demo_at s4 4 (demo_stage RevealPhase demo_m [1, 1] True True True)
      ((demo_rs (demo_stage DecryptPhase demo_m [1, 1] True True False) 4)\<lparr>rs_lastNumberOfMessageWhenScrambled := 1, rs_lastScrambledRound := 0\<rparr>)"
    by (simp add: s4_def f_def demo_decrypt_op)
  from demo_cycle_at [OF this demo_read_reveal _ demo_log(7)]
  have "demo_at s5 5 demo_final (demo_rs_reveal (demo_stage RevealPhase demo_m [1, 1] True True True) 5)"
    by (simp add: s5_def f_def demo_reveal_op)
  then have s5: "sy_pos s5 7 < length (sy_hist s5)" "sy_hist s5 ! sy_pos s5 7 = demo_final"
    "sy_rs s5 7 = demo_rs_reveal (demo_stage RevealPhase demo_m [1, 1] True True True) 5"
    by (auto simp: demo_at_def)
  obtain rs ts where "read_sm False (w_cm demo_world) demo_client (sy_rs s5 7) demo_random demo_final = Inr (rs, ts, demo_random)"
    and "TSendRoundResult demo_final 1 [[1, 1]] 0 [demo_m] 1 \<in> set ts"
    unfolding s5(3) using demo_read_final by blast
  then have "(7, TSendRoundResult demo_final 1 [[1, 1]] 0 [demo_m] 1) \<in> set (sy_tasks (sys_step demo_world s5 (ERead demo_client)))"
    using s5(1,2) by (simp add: demo_client_simps demo_world_simps Let_def)
  moreover have "sys_run demo_world demo_steps = sys_step demo_world s5 (ERead demo_client)"
    by (simp only: sys_run_def demo_steps_def foldl_append foldl.simps f_def s0_def s1_def s2_def s3_def s4_def s5_def)
  ultimately show ?thesis by simp
qed

end
