(* ===== verification/Protocol_Props.thy ===== *)
theory Protocol_Props
  imports Protocol_Demo
begin

text \<open>
  What the protocol delivers when every participant follows it: at the end of a successful round every
  participant is told exactly the messages that were sent, in some order.
\<close>

lemma done_keys:
  assumes "ri_inv ri" and "ri_Phase ri = DonePhase" and "\<And>i. i < length (ri_Participants ri) \<Longrightarrow> member_ok w R mo r ri i"
  shows "ri_RevealedKeys ri = map (rkey w mo r) (ri_Participants ri)"
    and "ri_RevealKeyHashes ri = map (\<lambda>p. PrivateKey_Hash (w_sha256 w) (rkey w mo r p)) (ri_Participants ri)"
    and "parts w mo r ri = mset (ri_RevealedKeys ri)"
proof -
  let ?ps = "ri_Participants ri"
  have len: "length (ri_RevealedKeys ri) = length ?ps" "length (ri_RevealKeyHashes ri) = length ?ps"
    using assms(1) by (simp_all add: ri_inv_def lists_ok_def)
  show keys: "ri_RevealedKeys ri = map (rkey w mo r) ?ps"
    using assms(3) flags_nth(8) [OF assms(1) _ assms(2)] len by (intro nth_equalityI) (auto simp: member_ok_def Let_def)
  show "ri_RevealKeyHashes ri = map (\<lambda>p. PrivateKey_Hash (w_sha256 w) (rkey w mo r p)) ?ps"
    using assms(3) len by (intro nth_equalityI) (auto simp: member_ok_def Let_def)
  have "part w mo r ri j = {#rkey w mo r (?ps ! j)#}" if "j < length ?ps" for j
    using flags_nth(6,7) [OF assms(1) that] assms(2) by (simp add: part_def Let_def)
  then have "parts w mo r ri = (\<Sum>j < length ?ps. {#rkey w mo r (?ps ! j)#})" by (simp add: parts_def)
  also have "\<dots> = mset (map (\<lambda>j. rkey w mo r (?ps ! j)) [0..<length ?ps])" by (rule sum_mset_of)
  also have "map (\<lambda>j. rkey w mo r (?ps ! j)) [0..<length ?ps] = map (rkey w mo r) ?ps" by (rule nth_equalityI) simp_all
  finally show "parts w mo r ri = mset (ri_RevealedKeys ri)" by (simp only: keys)
qed

text \<open>The plaintexts that a finished round decrypts to.\<close>

lemma done_plains:
  assumes "wf_world w" and "round_ok w R r ri" and "ri_inv ri" and "ri_Phase ri = DonePhase"
  obtains mo ps where "ri_Crypto ri = Some mo" and "mset ps = mset (ri_Participants ri)"
    and "hashes_match (w_sha256 w) (ri_RevealKeyHashes ri) (ri_RevealedKeys ri)"
    and "list_all2 (\<lambda>m p. crypto_ExtractMsg mo (fold (crypto_Decrypt mo) (ri_RevealedKeys ri) m) = Inr p)
      (ri_Messages ri) (map (\<lambda>p. header w r p @ sent w r p) ps)"
proof -
  obtain mo where mo: "ri_Crypto ri = Some mo" "good_crypto w mo" "contents_ok w mo r ri"
    "\<And>i. i < length (ri_Participants ri) \<Longrightarrow> member_ok w R mo r ri i"
    using assms(2) by (rule round_okD) (auto simp: assms(4) locked_phase_def)
  have keys: "ri_RevealedKeys ri = map (rkey w mo r) (ri_Participants ri)"
    "ri_RevealKeyHashes ri = map (\<lambda>p. PrivateKey_Hash (w_sha256 w) (rkey w mo r p)) (ri_Participants ri)"
    "parts w mo r ri = mset (ri_RevealedKeys ri)"
    using done_keys [OF assms(3,4)] mo(4) by blast+
  obtain ps where ps: "mset ps = mset (ri_Participants ri)"
    "list_all2 (\<lambda>p. locked mo (parts w mo r ri) (plain w mo r p)) ps (ri_Messages ri)"
    using mo(3) assms(4) by (auto simp: contents_ok_def)
  have ok: "\<forall>k \<in> set (ri_RevealedKeys ri). crypto_key_ok mo k"
    using mo(4) by (auto simp: keys(1) in_set_conv_nth member_ok_def Let_def keys_ok_def)
  have "crypto_ExtractMsg mo (fold (crypto_Decrypt mo) (ri_RevealedKeys ri) m) = Inr (header w r p @ sent w r p)"
    if "locked mo (parts w mo r ri) (plain w mo r p) m" for p m
    using locked_all_removed [OF that [unfolded keys(3)] ok good_plain(2) [OF assms(1) mo(2)]]
      good_plain(3) [OF assms(1) mo(2)] by simp
  then have "list_all2 (\<lambda>m p. crypto_ExtractMsg mo (fold (crypto_Decrypt mo) (ri_RevealedKeys ri) m) = Inr p)
      (ri_Messages ri) (map (\<lambda>p. header w r p @ sent w r p) ps)"
    using ps(2) by (auto simp: list_all2_conv_all_nth)
  moreover have "hashes_match (w_sha256 w) (ri_RevealKeyHashes ri) (ri_RevealedKeys ri)"
    by (simp add: hashes_match_def keys(1,2) HashEquals_iff PrivateKey_Hash_eq)
  ultimately show ?thesis using that mo(1) ps(1) by blast
qed

lemma texts:
  "filter has_body (map (\<lambda>p. header w r p @ sent w r p) ps) = map (\<lambda>p. header w r p @ sent w r p) (filter (\<lambda>p. sent w r p \<noteq> []) ps)"
  "map body (map (\<lambda>p. header w r p @ sent w r p) ps) = map (sent w r) ps"
  "map (take messageHeaderLength) (map (\<lambda>p. header w r p @ sent w r p) ps) = map (header w r) ps"
  by (auto simp: filter_map comp_def has_body_def body_def length_header)

lemma done_checks:
  assumes "wf_world w" and "round_ok w R r ri" and "ri_inv ri" and "ri_Phase ri = DonePhase"
    and "distinct (map (header w r) (filter (\<lambda>p. sent w r p \<noteq> []) (ri_Participants ri)))"
  shows "\<exists>mo plains. ri_Crypto ri = Some mo \<and>
    round_checks (w_cm w) (w_sha256 w) mo ri (ri_RevealKeyHashes ri) (ri_Messages ri) (length (ri_Messages ri)) plains \<and>
    mset (map body (filter has_body plains)) = mset (filter (\<lambda>m. m \<noteq> []) (map (sent w r) (ri_Participants ri)))"
proof -
  obtain mo ps where mo: "ri_Crypto ri = Some mo" and ps: "mset ps = mset (ri_Participants ri)"
    and hashes: "hashes_match (w_sha256 w) (ri_RevealKeyHashes ri) (ri_RevealedKeys ri)"
    and plains: "list_all2 (\<lambda>m p. crypto_ExtractMsg mo (fold (crypto_Decrypt mo) (ri_RevealedKeys ri) m) = Inr p)
      (ri_Messages ri) (map (\<lambda>p. header w r p @ sent w r p) ps)"
    using assms(1-4) by (rule done_plains)
  let ?plains = "map (\<lambda>p. header w r p @ sent w r p) ps"
  have "mset (map (header w r) (filter (\<lambda>p. sent w r p \<noteq> []) ps)) =
      mset (map (header w r) (filter (\<lambda>p. sent w r p \<noteq> []) (ri_Participants ri)))"
    using ps by (simp only: mset_map mset_filter)
  then have d: "distinct (map (header w r) (filter (\<lambda>p. sent w r p \<noteq> []) ps))"
    using assms(5) mset_eq_imp_distinct_iff by blast
  have heads: "map (take messageHeaderLength) (filter has_body ?plains) = map (header w r) (filter (\<lambda>p. sent w r p \<noteq> []) ps)"
    by (simp only: texts(1,3))
  have "round_checks (w_cm w) (w_sha256 w) mo ri (ri_RevealKeyHashes ri) (ri_Messages ri) (length (ri_Messages ri)) ?plains"
    unfolding round_checks_def heads using d hashes plains by (auto simp: length_header header_is_ok)
  moreover have bodies: "map body (filter has_body ?plains) = map (sent w r) (filter (\<lambda>p. sent w r p \<noteq> []) ps)"
    by (simp only: texts(1,2))
  have said: "filter (\<lambda>m. m \<noteq> []) (map (sent w r) (ri_Participants ri)) =
      map (sent w r) (filter (\<lambda>p. sent w r p \<noteq> []) (ri_Participants ri))"
    by (simp add: filter_map comp_def)
  have "mset (map body (filter has_body ?plains)) = mset (filter (\<lambda>m. m \<noteq> []) (map (sent w r) (ri_Participants ri)))"
    unfolding bodies said mset_map mset_filter ps ..
  ultimately show ?thesis using mo by blast
qed

text \<open>C1: the protocol delivers. Any number of clients follow the protocol, reading the states of the log late, running
  their goroutines in any order and more than once, while submitted operations are applied in any
  order, repeatedly or never, and anyone submits join, start and abort operations. When such a run
  completes a round, every participant that reports the round reports a success without a malicious error,
  and the messages it reports are exactly the non-empty messages that the participants sent in that round, each as
  often as it was sent, in some order. The random headers of these messages must differ, and no user message may have exactly the
  maximum size (\<open>wf_world\<close>).\<close>

theorem honest_round_delivers:
  assumes "wf_world w"
    and "(pid, TSendRoundResult sm round hashes hashesRound before n) \<in> set (sy_tasks (sys_run w es))"
    and "GetRoundInfo sm (round - 1) = Inr ri" and "ri_Phase ri = DonePhase" and "pid \<in> set (ri_Participants ri)"
    and "distinct (map (header w (round - 1)) (filter (\<lambda>p. sent w (round - 1) p \<noteq> []) (ri_Participants ri)))"
    and "cl_Id c = pid" and "cl_resCh c = Some results"
  shows "\<exists>ms. run_task False (w_cm w) (w_sha256 w) env c (TSendRoundResult sm round hashes hashesRound before n) =
      Inr (c\<lparr>cl_resCh := Some (results @ [\<lparr>rr_Round = round - 1, rr_Succeeded = True, rr_Messages = ms, rr_MaliciousError = None\<rparr>])\<rparr>) \<and>
    mset ms = mset (filter (\<lambda>m. m \<noteq> []) (map (sent w (round - 1)) (ri_Participants ri)))"
proof -
  let ?s = "sys_run w es"
  have inv: "sys_inv w ?s" by (rule sys_run_inv [OF assms(1)])
  then have "task_ok w (sy_rs ?s) (sy_hist ?s) pid (TSendRoundResult sm round hashes hashesRound before n)"
    using assms(2) by (auto simp: sys_inv_def)
  then have sm: "sm \<in> set (sy_hist ?s)" "round = sm_Round sm" and args: "hashes = ri_RevealKeyHashes ri" "before = ri_Messages ri"
    "n = length (ri_Messages ri)"
    using assms(3-5) by (auto simp: task_ok_def)
  have sm_inv: "sm_inv sm" and ok: "rounds_ok w (sy_rs ?s) sm" using inv sm(1) by (auto simp: sys_inv_def hist_ok_def)
  have "kept sm (round - 1)" "ri = round_at sm (round - 1)" using assms(3) sm(2) by (auto elim: GetRoundInfo_cases)
  then have "round_ok w (sy_rs ?s) (round - 1) ri" using ok by (simp add: rounds_ok_def)
  from done_checks [OF assms(1) this _ assms(4,6)] GetRoundInfo_inv [OF sm_inv assms(3)]
  obtain mo plains where mo: "ri_Crypto ri = Some mo"
    and checks: "round_checks (w_cm w) (w_sha256 w) mo ri hashes before n plains"
    and ms: "mset (map body (filter has_body plains)) = mset (filter (\<lambda>m. m \<noteq> []) (map (sent w (round - 1)) (ri_Participants ri)))"
    by (auto simp: args)
  let ?r = "\<lparr>rr_Round = round - 1, rr_Succeeded = True, rr_Messages = map body (filter has_body plains), rr_MaliciousError = None\<rparr>"
  have "done_result False (w_cm w) (w_sha256 w) ri (round - 1) hashes before n = Inr ?r"
    using done_result_iff [OF mo, of False "w_cm w" "w_sha256 w" "round - 1" hashes before n ?r] checks assms(4) by auto
  moreover have "participated (cl_Id c) ri" using assms(5,7) by (auto simp: participated_def list_ex_iff)
  ultimately have "run_task False (w_cm w) (w_sha256 w) env c (TSendRoundResult sm round hashes hashesRound before n) =
      Inr (c\<lparr>cl_resCh := Some (results @ [?r])\<rparr>)"
    using assms(3,4,8) by (simp add: sendRoundResult_def send_result_def)
  with ms show ?thesis by blast
qed

theorem honest_round_delivers_witness:
  "\<exists>ms. run_task False (w_cm demo_world) (w_sha256 demo_world) (env_of demo_world 7 0 (\<lambda>_. 0)) demo_client
      (TSendRoundResult demo_final 1 [[1, 1]] 0 [demo_m] 1) =
    Inr (demo_client\<lparr>cl_resCh := Some [\<lparr>rr_Round = 0, rr_Succeeded = True, rr_Messages = ms, rr_MaliciousError = None\<rparr>]\<rparr>) \<and>
   mset ms = {#[72]#}"
proof -
  let ?ri = "demo_round0 DonePhase demo_m [1, 1] True True True demo_key"
  have ri: "GetRoundInfo demo_final (1 - 1) = Inr ?ri"
    by (simp add: GetRoundInfo_def NumRoundsPersisted_def demo_final_def)
  have "ri_Phase ?ri = DonePhase" "7 \<in> set (ri_Participants ?ri)" "ri_Participants ?ri = [7]" by (simp_all add: demo_round0_def)
  moreover have "cl_Id demo_client = 7" "cl_resCh demo_client = Some []" by (simp_all add: demo_client_def)
  moreover have "sent demo_world 0 7 = [72]" by (simp add: sent_def said_def w_size_def demo_world_simps demo_client_simps)
  ultimately show ?thesis
    using honest_round_delivers [OF wf_demo demo_run_reports ri, of demo_client "[]" "env_of demo_world 7 0 (\<lambda>_. 0)"] by simp
qed

end
