(* ===== verification/Client_Config.thy ===== *)
theory Client_Config
  imports Client_Props
begin

text \<open>
  \<open>anonbcast/clientconfigurationchange.go\<close>: how a client joins and leaves the Raft configuration, and
  \<open>Kill\<close> of \<open>client.go\<close>, which leaves it.

  \<^item> These methods poll the servers in loops, while the other goroutines of the client go on. Every
    access to shared state, every remote call and every look at the clock happens at a \<open>moment\<close>:
    \<open>at_others\<close> is what the other goroutines did to the client before it, \<open>at_now\<close> the clock, and the
    other fields the answers of the servers. \<open>atomically\<close> takes the next moment.
  \<^item> A method consumes a list of moments. Its result is \<open>Inr (Some (x, c, ms))\<close> when it returned \<open>x\<close>, with the
    moments that are left; \<open>Inr None\<close> when it is still running at the end of the list; and \<open>Inl\<close> for a panic.
  \<^item> The zero value of an error string, which no constant names, is \<open>None\<close>.

  The lemmas: \<open>BecomeActive\<close> and \<open>BecomeInactive\<close> return only in the state they promise, polling finds
  the leader after at most one turn around the configuration, and every operation of the client
  keeps the index of the leader within the configuration.
\<close>

record 'c moment =
  at_others :: "'c Client \<Rightarrow> 'c Client"
  at_now :: int
  at_InConfiguration :: "string \<Rightarrow> string \<Rightarrow> bool \<Rightarrow> bool \<times> InConfigurationReply"
  at_AddProvisional :: "string \<Rightarrow> string \<Rightarrow> bool \<times> AddProvisionalError option"
  at_AddRemove :: "string \<Rightarrow> string \<Rightarrow> bool \<Rightarrow> bool \<times> AddRemoveServerError option"

type_synonym ('c, 'a) waiting = "('a \<times> 'c Client \<times> 'c moment list) option go"

definition finish :: "'a \<Rightarrow> 'c Client \<Rightarrow> 'c moment list \<Rightarrow> ('c, 'a) waiting" where
  "finish x c ms = Inr (Some (x, c, ms))"

definition atomically :: "'c moment list \<Rightarrow> 'c Client \<Rightarrow> ('c moment \<Rightarrow> 'c Client \<Rightarrow> 'c moment list \<Rightarrow> ('c, 'a) waiting) \<Rightarrow>
    ('c, 'a) waiting" where
  "atomically ms c f = (case ms of [] \<Rightarrow> Inr None | m # ms \<Rightarrow> f m (at_others m c) ms)"

definition and_then :: "('c, 'a) waiting \<Rightarrow> ('a \<Rightarrow> 'c Client \<Rightarrow> 'c moment list \<Rightarrow> ('c, 'b) waiting) \<Rightarrow> ('c, 'b) waiting" where
  "and_then w f = go_bind w (\<lambda>r. case r of None \<Rightarrow> Inr None | Some (x, c, ms) \<Rightarrow> f x c ms)"

lemma atomically_cong [fundef_cong]:
  assumes "ms = ms'" and "c = c'"
    and "\<And>m rest. ms' = m # rest \<Longrightarrow> f m (at_others m c') rest = g m (at_others m c') rest"
  shows "atomically ms c f = atomically ms' c' g"
  using assms by (auto simp: atomically_def split: list.split)

lemma and_then_cong [fundef_cong]:
  assumes "w = w'" and "\<And>x c ms. w' = Inr (Some (x, c, ms)) \<Longrightarrow> f x c ms = g x c ms"
  shows "and_then w f = and_then w' g"
  using assms by (cases w') (auto simp: and_then_def split: option.split)

lemma go_bind_cong [fundef_cong]:
  assumes "m = m'" and "\<And>x. m' = Inr x \<Longrightarrow> f x = g x"
  shows "go_bind m f = go_bind m' g"
  using assms by (cases m') auto

lemma atomically_simps [simp]:
  "atomically [] c f = Inr None"
  "atomically (m # ms) c f = f m (at_others m c) ms"
  by (simp_all add: atomically_def)

lemma atomicallyE:
  assumes "atomically ms c f = Inr (Some r)"
  obtains m rest where "ms = m # rest" and "f m (at_others m c) rest = Inr (Some r)"
  using assms by (cases ms) auto

lemma and_thenE:
  assumes "and_then w f = Inr (Some r)"
  obtains x c ms where "w = Inr (Some (x, c, ms))" and "f x c ms = Inr (Some r)"
  using assms by (auto simp: and_then_def elim!: go_bindE split: option.split_asm)

lemma and_then_finish [simp]: "and_then (finish x c ms) f = f x c ms"
  by (simp add: and_then_def finish_def)

lemma and_then_running [simp]: "and_then (Inr None) f = Inr None"
  by (simp add: and_then_def)

lemma finish_eq [simp]: "finish x c ms = Inr (Some (y, d, ns)) \<longleftrightarrow> x = y \<and> c = d \<and> ms = ns"
  by (simp add: finish_def)

text \<open>
  \<open>returns w Q\<close>: if the method returns, \<open>Q\<close> holds of its result, the client and the moments left. The
  rules follow the structure of a method; a loop is proved by induction on the length of its moments.
\<close>

definition returns :: "('c, 'a) waiting \<Rightarrow> ('a \<Rightarrow> 'c Client \<Rightarrow> 'c moment list \<Rightarrow> bool) \<Rightarrow> bool" where
  "returns w Q \<longleftrightarrow> (\<forall>x c ms. w = Inr (Some (x, c, ms)) \<longrightarrow> Q x c ms)"

named_theorems waiting_intros "rules for the results of methods that wait"

lemma returnsD: "returns w Q \<Longrightarrow> w = Inr (Some (x, c, ms)) \<Longrightarrow> Q x c ms"
  by (simp add: returns_def)

lemma returns_weaken: "returns w P \<Longrightarrow> (\<And>x c ms. P x c ms \<Longrightarrow> Q x c ms) \<Longrightarrow> returns w Q"
  by (auto simp: returns_def)

lemma returns_finish [waiting_intros]: "Q x c ms \<Longrightarrow> returns (finish x c ms) Q"
  by (simp add: returns_def)

lemma returns_atomically [waiting_intros]:
  "(\<And>m rest. ms = m # rest \<Longrightarrow> returns (f m (at_others m c) rest) Q) \<Longrightarrow> returns (atomically ms c f) Q"
  by (cases ms) (auto simp: returns_def)

lemma returns_and_then:
  "returns w P \<Longrightarrow> (\<And>x c ms. P x c ms \<Longrightarrow> returns (f x c ms) Q) \<Longrightarrow> returns (and_then w f) Q"
  by (auto simp: returns_def elim!: and_thenE)

lemma returns_go_bind [waiting_intros]: "(\<And>x. m = Inr x \<Longrightarrow> returns (f x) Q) \<Longrightarrow> returns (go_bind m f) Q"
  by (auto simp: returns_def elim!: go_bindE)

lemma returns_if [waiting_intros]:
  "(b \<Longrightarrow> returns v Q) \<Longrightarrow> (\<not> b \<Longrightarrow> returns w Q) \<Longrightarrow> returns (if b then v else w) Q"
  by simp

lemma returns_case_prod [waiting_intros]:
  "(\<And>x y. p = (x, y) \<Longrightarrow> returns (f x y) Q) \<Longrightarrow> returns (case p of (x, y) \<Rightarrow> f x y) Q"
  by (cases p) simp

subsection \<open>Polling the leader\<close>

definition second :: int where
  "second = 1000000000"

fun getMembership_loop :: "bool \<Rightarrow> bool \<Rightarrow> 'c Client \<Rightarrow> 'c moment list \<Rightarrow> ('c, bool) waiting" where
  "getMembership_loop isProvisionalReq inConfiguration c ms =
     atomically ms c (\<lambda>_ c ms.
       if cl_dead c then finish inConfiguration c ms
       else atomically ms c (\<lambda>_ c ms.
         go_bind (go_index (cl_currConf c) (cl_lastKnownLeaderInd c)) (\<lambda>potentialLeader.
         atomically ms c (\<lambda>m c ms.
           let (ok, reply) = at_InConfiguration m potentialLeader (cl_serverId c) isProvisionalReq;
               inConfiguration = icr_InConfiguration reply
           in if \<not> ok \<or> \<not> icr_IsLeader reply
              then atomically ms c (\<lambda>_ c ms.
                go_bind (updateLeader c) (\<lambda>c. getMembership_loop isProvisionalReq inConfiguration c ms))
              else finish inConfiguration c ms))))"

declare getMembership_loop.simps [simp del]

definition getMembership :: "bool \<Rightarrow> 'c Client \<Rightarrow> 'c moment list \<Rightarrow> ('c, bool) waiting" where
  "getMembership isProvisionalReq c ms = getMembership_loop isProvisionalReq False c ms"

definition setActive :: "'c Client \<Rightarrow> 'c moment list \<Rightarrow> ('c, unit) waiting" where
  "setActive c ms =
     and_then (getMembership False c ms) (\<lambda>member c ms.
       atomically ms c (\<lambda>_ c ms. finish () (c\<lparr>cl_active := member\<rparr>) ms))"

fun attemptProvisional :: "'c Client \<Rightarrow> 'c moment list \<Rightarrow> ('c, bool) waiting" where
  "attemptProvisional c ms =
     atomically ms c (\<lambda>_ c ms.
       if cl_dead c then finish False c ms
       else atomically ms c (\<lambda>_ c ms.
         go_bind (go_index (cl_currConf c) (cl_lastKnownLeaderInd c)) (\<lambda>potentialLeader.
         atomically ms c (\<lambda>m c ms.
           let (ok, err) = at_AddProvisional m potentialLeader (cl_serverId c)
           in if \<not> ok \<or> err = Some AP_NOT_LEADER
              then atomically ms c (\<lambda>_ c ms. go_bind (updateLeader c) (\<lambda>c. attemptProvisional c ms))
              else if err = Some AP_ALREADY_IN_CONFIGURATION
              then atomically ms c (\<lambda>_ c ms. finish True (c\<lparr>cl_active := True\<rparr>) ms)
              else finish False c ms))))"

declare attemptProvisional.simps [simp del]

fun attemptAddRemove_loop :: "bool \<Rightarrow> AddRemoveServerError option \<Rightarrow> 'c Client \<Rightarrow> 'c moment list \<Rightarrow>
    ('c, AddRemoveServerError option) waiting" where
  "attemptAddRemove_loop isAdd arError c ms =
     atomically ms c (\<lambda>_ c ms.
       if cl_dead c then finish arError c ms
       else atomically ms c (\<lambda>_ c ms.
         go_bind (go_index (cl_currConf c) (cl_lastKnownLeaderInd c)) (\<lambda>potentialLeader.
         atomically ms c (\<lambda>m c ms.
           let (ok, err) = at_AddRemove m potentialLeader (cl_serverId c) isAdd
           in if \<not> ok \<or> err = Some AR_NOT_LEADER
              then atomically ms c (\<lambda>_ c ms. go_bind (updateLeader c) (\<lambda>c. attemptAddRemove_loop isAdd err c ms))
              else if err = Some AR_NEW_LEADER \<or> err = Some AR_CONCURRENT_CHANGE
              then attemptAddRemove_loop isAdd err c ms
              else finish err c ms))))"

declare attemptAddRemove_loop.simps [simp del]

definition attemptAddRemove :: "bool \<Rightarrow> 'c Client \<Rightarrow> 'c moment list \<Rightarrow> ('c, AddRemoveServerError option) waiting" where
  "attemptAddRemove isAdd c ms = attemptAddRemove_loop isAdd None c ms"

text \<open>The polling loops never give back more moments than they were given.\<close>

definition no_longer :: "'c moment list \<Rightarrow> 'a \<Rightarrow> 'c Client \<Rightarrow> 'c moment list \<Rightarrow> bool" where
  "no_longer ms x c ms' \<longleftrightarrow> length ms' \<le> length ms"

lemma no_longer_weaken: "returns w (no_longer rest) \<Longrightarrow> length rest < length ms \<Longrightarrow> returns w (no_longer ms)"
  by (erule returns_weaken) (simp add: no_longer_def)

lemma getMembership_loop_shorter: "returns (getMembership_loop p i c ms) (no_longer ms)"
proof (induction ms arbitrary: i c rule: length_induct)
  case (1 ms)
  have IH: "returns (getMembership_loop p i c rest) (no_longer ms)" if "length rest < length ms" for i c rest
    by (rule no_longer_weaken [OF _ that]) (use "1" that in blast)
  show ?case
    by (subst getMembership_loop.simps, unfold Let_def) (intro waiting_intros IH; simp add: no_longer_def)
qed

lemma attemptProvisional_shorter: "returns (attemptProvisional c ms) (no_longer ms)"
proof (induction ms arbitrary: c rule: length_induct)
  case (1 ms)
  have IH: "returns (attemptProvisional c rest) (no_longer ms)" if "length rest < length ms" for c rest
    by (rule no_longer_weaken [OF _ that]) (use "1" that in blast)
  show ?case
    by (subst attemptProvisional.simps, unfold Let_def) (intro waiting_intros IH; simp add: no_longer_def)
qed

lemma attemptAddRemove_loop_shorter: "returns (attemptAddRemove_loop a e c ms) (no_longer ms)"
proof (induction ms arbitrary: e c rule: length_induct)
  case (1 ms)
  have IH: "returns (attemptAddRemove_loop a e c rest) (no_longer ms)" if "length rest < length ms" for e c rest
    by (rule no_longer_weaken [OF _ that]) (use "1" that in blast)
  show ?case
    by (subst attemptAddRemove_loop.simps, unfold Let_def) (intro waiting_intros IH; simp add: no_longer_def)
qed

lemma getMembership_shorter: "getMembership p c ms = Inr (Some (x, c', ms')) \<Longrightarrow> length ms' \<le> length ms"
  using returnsD [OF getMembership_loop_shorter] by (simp add: getMembership_def no_longer_def)

subsection \<open>Joining and leaving\<close>

function checkMembership_loop :: "int \<Rightarrow> int \<Rightarrow> bool \<Rightarrow> 'c Client \<Rightarrow> 'c moment list \<Rightarrow> ('c, bool) waiting" where
  "checkMembership_loop startTime timeout isProvisionalReq c ms =
     atomically ms c (\<lambda>_ c ms.
       if cl_dead c then finish False c ms
       else atomically ms c (\<lambda>m c ms.
         if \<not> at_now m - startTime < timeout then finish False c ms
         else and_then (getMembership isProvisionalReq c ms) (\<lambda>member c ms.
           if member then finish True c ms
           else checkMembership_loop startTime timeout isProvisionalReq c ms)))"
  by pat_completeness auto
termination
  by (relation "measure (\<lambda>(startTime, timeout, p, c, ms). length ms)") (auto dest!: getMembership_shorter)

declare checkMembership_loop.simps [simp del]

definition checkMembership :: "int \<Rightarrow> bool \<Rightarrow> 'c Client \<Rightarrow> 'c moment list \<Rightarrow> ('c, bool) waiting" where
  "checkMembership timeout isProvisionalReq c ms =
     atomically ms c (\<lambda>m c ms. checkMembership_loop (at_now m) timeout isProvisionalReq c ms)"

lemma checkMembership_loop_shorter: "returns (checkMembership_loop s t p c ms) (no_longer ms)"
proof (induction ms arbitrary: c rule: length_induct)
  case (1 ms)
  have IH: "returns (checkMembership_loop s t p c rest) (no_longer ms)" if "length rest < length ms" for c rest
    by (rule no_longer_weaken [OF _ that]) (use "1" that in blast)
  show ?case
    by (subst checkMembership_loop.simps, unfold getMembership_def)
      (intro waiting_intros returns_and_then [OF getMembership_loop_shorter] IH; simp add: no_longer_def)
qed

lemma checkMembership_shorter: "returns (checkMembership t p c ms) (no_longer ms)"
  by (unfold checkMembership_def, intro waiting_intros, rule no_longer_weaken [OF checkMembership_loop_shorter]) simp

function addProvisional :: "'c Client \<Rightarrow> 'c moment list \<Rightarrow> ('c, unit) waiting" where
  "addProvisional c ms =
     atomically ms c (\<lambda>_ c ms.
       if cl_dead c then finish () c ms
       else and_then (attemptProvisional c ms) (\<lambda>inActiveConfiguration c ms.
         if inActiveConfiguration then finish () c ms
         else and_then (checkMembership second True c ms) (\<lambda>member c ms.
           if member then finish () c ms else addProvisional c ms)))"
  by pat_completeness auto
termination
  by (relation "measure (\<lambda>(c, ms). length ms)")
    (auto dest!: returnsD [OF attemptProvisional_shorter] returnsD [OF checkMembership_shorter] simp: no_longer_def)

declare addProvisional.simps [simp del]

function addSelf :: "'c Client \<Rightarrow> 'c moment list \<Rightarrow> ('c, unit) waiting" where
  "addSelf c ms =
     atomically ms c (\<lambda>_ c ms.
       if cl_dead c then finish () c ms
       else and_then (attemptAddRemove True c ms) (\<lambda>err c ms.
         if err = Some AR_NOT_PROVISIONAL
         then Inl (Panic ''(Client) Add without becoming provisional should not occur.'')
         else atomically ms c (\<lambda>_ c ms.
           if cl_active c then finish () c ms
           else and_then (checkMembership second False c ms) (\<lambda>member c ms.
             if member then finish () c ms else addSelf c ms))))"
  by pat_completeness auto
termination
  by (relation "measure (\<lambda>(c, ms). length ms)")
    (auto dest!: returnsD [OF attemptAddRemove_loop_shorter] returnsD [OF checkMembership_shorter]
      simp: no_longer_def attemptAddRemove_def)

declare addSelf.simps [simp del]

function removeSelf :: "'c Client \<Rightarrow> 'c moment list \<Rightarrow> ('c, unit) waiting" where
  "removeSelf c ms =
     atomically ms c (\<lambda>_ c ms.
       if cl_dead c then finish () c ms
       else and_then (attemptAddRemove False c ms) (\<lambda>err c ms.
         if err = Some AR_NOT_PROVISIONAL
         then Inl (Panic ''(Client) Should not get provisional err on remove.'')
         else if err = Some AR_OK
         then atomically ms c (\<lambda>_ c ms. finish () (c\<lparr>cl_active := False\<rparr>) ms)
         else and_then (checkMembership second False c ms) (\<lambda>member c ms.
           if \<not> member then finish () c ms else removeSelf c ms)))"
  by pat_completeness auto
termination
  by (relation "measure (\<lambda>(c, ms). length ms)")
    (auto dest!: returnsD [OF attemptAddRemove_loop_shorter] returnsD [OF checkMembership_shorter]
      simp: no_longer_def attemptAddRemove_def)

declare removeSelf.simps [simp del]

lemma addSelf_shorter: "returns (addSelf c ms) (no_longer ms)"
proof (induction ms arbitrary: c rule: length_induct)
  case (1 ms)
  have IH: "returns (addSelf c rest) (no_longer ms)" if "length rest < length ms" for c rest
    by (rule no_longer_weaken [OF _ that]) (use "1" that in blast)
  show ?case
    by (subst addSelf.simps, unfold attemptAddRemove_def)
      (intro waiting_intros returns_and_then [OF attemptAddRemove_loop_shorter]
        returns_and_then [OF checkMembership_shorter] IH; simp add: no_longer_def returns_def)
qed

lemma removeSelf_shorter: "returns (removeSelf c ms) (no_longer ms)"
proof (induction ms arbitrary: c rule: length_induct)
  case (1 ms)
  have IH: "returns (removeSelf c rest) (no_longer ms)" if "length rest < length ms" for c rest
    by (rule no_longer_weaken [OF _ that]) (use "1" that in blast)
  show ?case
    by (subst removeSelf.simps, unfold attemptAddRemove_def)
      (intro waiting_intros returns_and_then [OF attemptAddRemove_loop_shorter]
        returns_and_then [OF checkMembership_shorter] IH; simp add: no_longer_def returns_def)
qed

text \<open>
  The inner loops of \<open>BecomeActive\<close> and \<open>BecomeInactive\<close>: wait up to two seconds until \<open>active\<close> has the value
  \<open>wanted\<close>; the result is whether it was seen.
\<close>

fun await_active :: "bool \<Rightarrow> int \<Rightarrow> 'c Client \<Rightarrow> 'c moment list \<Rightarrow> ('c, bool) waiting" where
  "await_active wanted startTime c ms =
     atomically ms c (\<lambda>m c ms.
       if \<not> at_now m - startTime < 2 * second then finish False c ms
       else atomically ms c (\<lambda>_ c ms.
         if cl_active c = wanted then finish True c ms else await_active wanted startTime c ms))"

declare await_active.simps [simp del]

lemma await_active_result:
  fixes ms :: "'c moment list"
  shows "returns (await_active wanted s c ms) (\<lambda>seen c ms'. length ms' \<le> length ms \<and> (seen \<longrightarrow> cl_active c = wanted))"
proof (induction ms arbitrary: c rule: length_induct)
  case (1 ms)
  have IH: "returns (await_active wanted s c rest) (\<lambda>seen c ms'. length ms' \<le> length ms \<and> (seen \<longrightarrow> cl_active c = wanted))"
    if "length rest < length ms" for c and rest :: "'c moment list"
    by (rule returns_weaken [OF "1" [rule_format, OF that]]) (use that in auto)
  show ?case by (subst await_active.simps) (intro waiting_intros IH; simp)
qed

function BecomeActive_loop :: "'c Client \<Rightarrow> 'c moment list \<Rightarrow> ('c, unit) waiting" where
  "BecomeActive_loop c ms =
     atomically ms c (\<lambda>_ c ms.
       if cl_dead c then finish () c ms
       else and_then (addSelf c ms) (\<lambda>_ c ms.
         atomically ms c (\<lambda>m c ms.
           and_then (await_active True (at_now m) c ms) (\<lambda>seen c ms.
             if seen then finish () c ms else BecomeActive_loop c ms))))"
  by pat_completeness auto
termination
  by (relation "measure (\<lambda>(c, ms). length ms)")
    (auto dest!: returnsD [OF addSelf_shorter] returnsD [OF await_active_result] simp: no_longer_def)

declare BecomeActive_loop.simps [simp del]

definition BecomeActive :: "'c Client \<Rightarrow> 'c moment list \<Rightarrow> ('c, unit) waiting" where
  "BecomeActive c ms = and_then (addProvisional c ms) (\<lambda>_ c ms. BecomeActive_loop c ms)"

function BecomeInactive_loop :: "'c Client \<Rightarrow> 'c moment list \<Rightarrow> ('c, unit) waiting" where
  "BecomeInactive_loop c ms =
     atomically ms c (\<lambda>_ c ms.
       if cl_dead c then finish () c ms
       else and_then (removeSelf c ms) (\<lambda>_ c ms.
         atomically ms c (\<lambda>m c ms.
           and_then (await_active False (at_now m) c ms) (\<lambda>seen c ms.
             if seen then finish () c ms else BecomeInactive_loop c ms))))"
  by pat_completeness auto
termination
  by (relation "measure (\<lambda>(c, ms). length ms)")
    (auto dest!: returnsD [OF removeSelf_shorter] returnsD [OF await_active_result] simp: no_longer_def)

declare BecomeInactive_loop.simps [simp del]

definition BecomeInactive :: "'c Client \<Rightarrow> 'c moment list \<Rightarrow> ('c, unit) waiting" where
  "BecomeInactive c ms = atomically ms c (\<lambda>_ c ms. BecomeInactive_loop (c\<lparr>cl_leaving := True\<rparr>) ms)"

text \<open>
  \<open>Kill\<close>: the error of the submitted abort is ignored; \<open>call\<close> answers the remote call of \<open>submitOp\<close>.
\<close>

definition Kill :: "bool \<Rightarrow> 'c submit_call \<Rightarrow> 'c Client \<Rightarrow> 'c moment list \<Rightarrow> ('c, unit) waiting" where
  "Kill debug call c ms =
     atomically ms c (\<lambda>_ c ms.
       go_bind (kill_op debug c) (\<lambda>r.
       go_bind (case r of None \<Rightarrow> Inr None | Some op \<Rightarrow> submitOp call c op) (\<lambda>_.
       and_then (BecomeInactive c ms) (\<lambda>_ c ms.
         atomically ms c (\<lambda>_ c ms. finish () (Kill_end c) ms)))))"

subsection \<open>What the methods promise\<close>

lemma BecomeActive_loop_confirms:
  fixes ms :: "'c moment list"
  shows "returns (BecomeActive_loop c ms) (\<lambda>_ c _. cl_active c \<or> cl_dead c)"
proof (induction ms arbitrary: c rule: length_induct)
  case (1 ms)
  have IH: "returns (BecomeActive_loop c rest) (\<lambda>_ c _. cl_active c \<or> cl_dead c)"
    if "length rest < length ms" for c and rest :: "'c moment list"
    using "1" that by blast
  show ?case
    by (subst BecomeActive_loop.simps)
      (intro waiting_intros returns_and_then [OF addSelf_shorter] returns_and_then [OF await_active_result] IH;
        simp add: no_longer_def)
qed

lemma BecomeInactive_loop_confirms:
  fixes ms :: "'c moment list"
  shows "returns (BecomeInactive_loop c ms) (\<lambda>_ c _. \<not> cl_active c \<or> cl_dead c)"
proof (induction ms arbitrary: c rule: length_induct)
  case (1 ms)
  have IH: "returns (BecomeInactive_loop c rest) (\<lambda>_ c _. \<not> cl_active c \<or> cl_dead c)"
    if "length rest < length ms" for c and rest :: "'c moment list"
    using "1" that by blast
  show ?case
    by (subst BecomeInactive_loop.simps)
      (intro waiting_intros returns_and_then [OF removeSelf_shorter] returns_and_then [OF await_active_result] IH;
        simp add: no_longer_def)
qed

text \<open>
  A moment at which the presumed leader is the leader and agrees to everything, and the other goroutines change nothing.
\<close>

definition cooperative :: "'c moment" where
  "cooperative = \<lparr>at_others = (\<lambda>c. c), at_now = 0,
     at_InConfiguration = (\<lambda>peer server p. (True, \<lparr>icr_InConfiguration = True, icr_IsLeader = True\<rparr>)),
     at_AddProvisional = (\<lambda>peer server. (True, Some AP_SUCCESS)),
     at_AddRemove = (\<lambda>peer server isAdd. (True, Some AR_OK))\<rparr>"

text \<open>The index of the presumed leader points into the known configuration.\<close>

definition leader_ok :: "'c Client \<Rightarrow> bool" where
  "leader_ok c \<longleftrightarrow> cl_lastKnownLeaderInd c < length (cl_currConf c)"

definition served :: "'c Client \<Rightarrow> bool" where
  "served c \<longleftrightarrow> \<not> cl_dead c \<and> leader_ok c"

lemma served_polls:
  assumes "served c"
  shows "getMembership p c (cooperative # cooperative # cooperative # ms) = finish True c ms"
    and "attemptProvisional c (cooperative # cooperative # cooperative # ms) = finish False c ms"
    and "attemptAddRemove isAdd c (cooperative # cooperative # cooperative # ms) = finish (Some AR_OK) c ms"
  using assms
  by (simp_all add: getMembership_def getMembership_loop.simps [of _ _ _ "_ # _"] attemptProvisional.simps [of _ "_ # _"]
      attemptAddRemove_def attemptAddRemove_loop.simps [of _ _ _ "_ # _"] served_def leader_ok_def cooperative_def)

lemma served_fields:
  "at_others cooperative c = c" "at_now cooperative = 0" "served c \<Longrightarrow> \<not> cl_dead c"
  "served (c\<lparr>cl_active := v\<rparr>) = served c" "served (c\<lparr>cl_leaving := v\<rparr>) = served c"
  by (simp_all add: cooperative_def served_def leader_ok_def)

lemmas served_methods = served_polls served_fields second_def checkMembership_def checkMembership_loop.simps [of _ _ _ _ "_ # _"]
  addProvisional.simps [of _ "_ # _"] addSelf.simps [of _ "_ # _"] removeSelf.simps [of _ "_ # _"]
  await_active.simps [of _ _ _ "_ # _"] BecomeActive_loop.simps [of _ "_ # _"] BecomeInactive_loop.simps [of _ "_ # _"]

lemma served_active:
  "served c \<Longrightarrow> cl_active c \<Longrightarrow> BecomeActive c (replicate 19 cooperative @ rest) = finish () c rest"
  by (simp add: BecomeActive_def numeral_eq_Suc served_methods)

lemma served_inactive:
  "served c \<Longrightarrow>
     BecomeInactive c (replicate 10 cooperative @ rest) = finish () (c\<lparr>cl_leaving := True, cl_active := False\<rparr>) rest"
  by (simp add: BecomeInactive_def numeral_eq_Suc served_methods)

lemma served_joining:
  "served c \<Longrightarrow> \<not> cl_active c \<Longrightarrow> BecomeActive c (replicate 23 cooperative @ ms) =
     and_then (await_active True 0 c ms) (\<lambda>seen c ms. if seen then finish () c ms else BecomeActive_loop c ms)"
  by (simp add: BecomeActive_def numeral_eq_Suc served_methods)

lemma await_joins:
  assumes "\<not> cl_active c" and "cl_active (at_others m c)" and "at_now m < 2 * second"
  shows "await_active True 0 c (replicate j cooperative @ m # replicate (Suc j mod 2) cooperative @ rest) =
    finish True (at_others m c) rest"
proof (induction j rule: induct_nat_012)
  case (ge2 j)
  have "Suc (Suc (Suc j)) mod 2 = Suc j mod 2" by presburger
  with ge2(1) assms(1) show ?case
    by (simp add: await_active.simps [of _ _ _ "_ # _"] served_fields second_def)
qed (use assms in \<open>simp_all add: await_active.simps [of _ _ _ "_ # _"] served_fields second_def\<close>)

lemma served_joins:
  assumes "served c" and "\<not> cl_active c" and "cl_active (at_others m c)" and "at_now m < 2 * second"
  shows "BecomeActive c (replicate (23 + j) cooperative @ m # replicate (Suc j mod 2) cooperative @ rest) =
    finish () (at_others m c) rest"
  by (simp only: replicate_add append_assoc served_joining [OF assms(1,2)] await_joins [OF assms(2-4)]) simp

text \<open>C16: joining and leaving are confirmed. \<open>BecomeActive\<close> returns only at a moment at which the client is active or dead,
  and \<open>BecomeInactive\<close> only at one at which it is inactive or dead, whatever the servers answer and
  whatever the other goroutines do in between. And they do return. When the presumed leader agrees to everything, and the other goroutines
  change nothing, \<open>BecomeActive\<close> returns after 19 moments to a client that is active already; for one that is
  not, it goes through the requests in 23 moments and then waits, and it returns at once when, at any later moment within the two
  seconds of that wait, the update of the configuration makes the client active. \<open>BecomeInactive\<close> returns after 10 such moments.\<close>

theorem configuration_changes_confirmed:
  "(\<forall>u c' ms'. BecomeActive c ms = Inr (Some (u, c', ms')) \<longrightarrow> cl_active c' \<or> cl_dead c') \<and>
   (\<forall>u d' ns'. BecomeInactive d ns = Inr (Some (u, d', ns')) \<longrightarrow> \<not> cl_active d' \<or> cl_dead d') \<and>
   (served c \<and> cl_active c \<and> ms = replicate 19 cooperative @ rest \<longrightarrow>
      BecomeActive c ms = Inr (Some ((), c, rest))) \<and>
   (served c \<and> \<not> cl_active c \<and> cl_active (at_others m c) \<and> at_now m < 2 * second \<and>
    ms = replicate (23 + j) cooperative @ m # replicate (Suc j mod 2) cooperative @ rest \<longrightarrow>
      BecomeActive c ms = Inr (Some ((), at_others m c, rest))) \<and>
   (served d \<and> ns = replicate 10 cooperative @ rest \<longrightarrow>
      BecomeInactive d ns = Inr (Some ((), d\<lparr>cl_leaving := True, cl_active := False\<rparr>, rest)))"
proof (intro conjI allI impI)
  fix u c' ms'
  assume "BecomeActive c ms = Inr (Some (u, c', ms'))"
  then show "cl_active c' \<or> cl_dead c'"
    by (auto simp: BecomeActive_def elim!: and_thenE dest: returnsD [OF BecomeActive_loop_confirms])
next
  fix u d' ns'
  assume "BecomeInactive d ns = Inr (Some (u, d', ns'))"
  then obtain m rest where "ns = m # rest"
    and "BecomeInactive_loop (at_others m d\<lparr>cl_leaving := True\<rparr>) rest = Inr (Some (u, d', ns'))"
    unfolding BecomeInactive_def by (rule atomicallyE)
  from returnsD [OF BecomeInactive_loop_confirms this(2)] show "\<not> cl_active d' \<or> cl_dead d'" .
next
  assume "served c \<and> cl_active c \<and> ms = replicate 19 cooperative @ rest"
  then show "BecomeActive c ms = Inr (Some ((), c, rest))"
    by (simp add: served_active finish_def)
next
  assume "served c \<and> \<not> cl_active c \<and> cl_active (at_others m c) \<and> at_now m < 2 * second \<and>
    ms = replicate (23 + j) cooperative @ m # replicate (Suc j mod 2) cooperative @ rest"
  then show "BecomeActive c ms = Inr (Some ((), at_others m c, rest))"
    using served_joins [of c m j rest] by (simp add: finish_def)
next
  assume "served d \<and> ns = replicate 10 cooperative @ rest"
  then show "BecomeInactive d ns = Inr (Some ((), d\<lparr>cl_leaving := True, cl_active := False\<rparr>, rest))"
    by (simp add: served_inactive finish_def)
qed

lemma demo_client_served: "served demo_client \<and> cl_active demo_client"
  by (simp add: served_def leader_ok_def demo_client_def)

definition activation :: "'c moment" where
  "activation = cooperative\<lparr>at_others := (\<lambda>c. c\<lparr>cl_active := True\<rparr>)\<rparr>"

theorem configuration_changes_confirmed_witness:
  "BecomeActive (demo_client\<lparr>cl_active := False\<rparr>)
     (replicate (23 + 3) cooperative @ activation # replicate (Suc 3 mod 2) cooperative @ [cooperative]) =
     Inr (Some ((), at_others activation (demo_client\<lparr>cl_active := False\<rparr>), [cooperative])) \<and>
   BecomeActive demo_client (replicate 19 cooperative @ [cooperative]) = Inr (Some ((), demo_client, [cooperative])) \<and>
   BecomeInactive demo_client (replicate 10 cooperative @ [cooperative]) =
     Inr (Some ((), demo_client\<lparr>cl_leaving := True, cl_active := False\<rparr>, [cooperative]))"
proof (intro conjI)
  let ?c = "demo_client\<lparr>cl_active := False\<rparr>"
  have "served ?c \<and> \<not> cl_active ?c \<and> cl_active (at_others activation ?c) \<and> at_now activation < 2 * second"
    using demo_client_served by (simp add: served_fields activation_def second_def)
  then show "BecomeActive ?c
      (replicate (23 + 3) cooperative @ activation # replicate (Suc 3 mod 2) cooperative @ [cooperative]) =
      Inr (Some ((), at_others activation ?c, [cooperative]))"
    using configuration_changes_confirmed by blast
qed (use configuration_changes_confirmed demo_client_served in blast)+

subsection \<open>Finding the leader\<close>

lemma updateLeader_ok:
  "leader_ok c \<Longrightarrow> updateLeader c =
     Inr (c\<lparr>cl_lastKnownLeaderInd := (cl_lastKnownLeaderInd c + 1) mod length (cl_currConf c)\<rparr>)"
  by (auto simp: leader_ok_def updateLeader_def)

text \<open>Other goroutines that neither kill the client nor change the configuration it knows.\<close>

definition polls_alone :: "'c moment \<Rightarrow> bool" where
  "polls_alone m \<longleftrightarrow> (\<forall>c. cl_dead (at_others m c) = cl_dead c \<and> cl_currConf (at_others m c) = cl_currConf c \<and>
     cl_lastKnownLeaderInd (at_others m c) = cl_lastKnownLeaderInd c \<and> cl_serverId (at_others m c) = cl_serverId c)"

definition answers :: "bool \<Rightarrow> string \<Rightarrow> (string \<Rightarrow> bool \<times> InConfigurationReply) \<Rightarrow> 'c moment \<Rightarrow> bool" where
  "answers p server answer m \<longleftrightarrow> polls_alone m \<and> (\<forall>peer. at_InConfiguration m peer server p = answer peer)"

definition leads :: "(string \<Rightarrow> bool \<times> InConfigurationReply) \<Rightarrow> string \<Rightarrow> bool" where
  "leads answer peer \<longleftrightarrow> fst (answer peer) \<and> icr_IsLeader (snd (answer peer))"

lemma three_moments:
  assumes "3 \<le> length ms"
  obtains a b m rest where "ms = a # b # m # rest"
  using assms by (auto simp: numeral_eq_Suc Suc_le_length_iff)

lemma polls_alone_fields:
  assumes "polls_alone m"
  shows "cl_dead (at_others m c) = cl_dead c" and "cl_currConf (at_others m c) = cl_currConf c"
    and "cl_lastKnownLeaderInd (at_others m c) = cl_lastKnownLeaderInd c" and "cl_serverId (at_others m c) = cl_serverId c"
  using assms by (simp_all add: polls_alone_def)

lemma getMembership_loop_finds:
  assumes "leader_ok c" and "\<not> cl_dead c" and "\<forall>m \<in> set ms. answers p (cl_serverId c) answer m"
    and "leads answer (cl_currConf c ! ((cl_lastKnownLeaderInd c + d) mod length (cl_currConf c)))"
    and "4 * d + 3 \<le> length ms"
  shows "\<exists>c' ms' peer. getMembership_loop p i c ms = Inr (Some (icr_InConfiguration (snd (answer peer)), c', ms')) \<and>
    leads answer peer \<and> leader_ok c' \<and> cl_currConf c' ! cl_lastKnownLeaderInd c' = peer \<and> cl_currConf c' = cl_currConf c"
  using assms
proof (induction d arbitrary: c i ms)
  case 0
  from "0.prems"(5) obtain a b m rest where ms: "ms = a # b # m # rest" by (auto elim: three_moments)
  with "0.prems"(3) have al: "polls_alone a" "polls_alone b" "polls_alone m"
    and ans: "at_InConfiguration m peer (cl_serverId c) p = answer peer" for peer
    by (auto simp: answers_def)
  note fields = al [THEN polls_alone_fields(1)] al [THEN polls_alone_fields(2)]
    al [THEN polls_alone_fields(3)] al [THEN polls_alone_fields(4)]
  from "0.prems"(1,2,4) show ?case
    by (subst getMembership_loop.simps)
      (auto simp: ms fields ans leader_ok_def leads_def finish_def split: prod.split)
next
  case (Suc d)
  then have "3 \<le> length ms" by simp
  then obtain a b m rest where ms: "ms = a # b # m # rest" by (rule three_moments)
  with Suc.prems(5) obtain e ms' where rest: "rest = e # ms'" by (cases rest) auto
  from Suc.prems(3) have al: "polls_alone a" "polls_alone b" "polls_alone m" "polls_alone e"
    and ans: "at_InConfiguration m peer (cl_serverId c) p = answer peer" for peer
    by (auto simp: ms rest answers_def)
  note fields = al [THEN polls_alone_fields(1)] al [THEN polls_alone_fields(2)]
    al [THEN polls_alone_fields(3)] al [THEN polls_alone_fields(4)]
  let ?peer = "cl_currConf c ! cl_lastKnownLeaderInd c"
  let ?n = "length (cl_currConf c)"
  let ?c = "at_others e (at_others m (at_others b (at_others a c)))"
  let ?c' = "?c\<lparr>cl_lastKnownLeaderInd := (cl_lastKnownLeaderInd c + 1) mod ?n\<rparr>"
  have n: "0 < ?n" using Suc.prems(1) by (auto simp: leader_ok_def)
  have ok: "leader_ok ?c" using Suc.prems(1) by (simp add: leader_ok_def fields)
  show ?case
  proof (cases "leads answer ?peer")
    case True
    with Suc.prems(1,2) show ?thesis
      by (subst getMembership_loop.simps)
        (auto simp: ms fields ans leader_ok_def leads_def finish_def split: prod.split)
  next
    case False
    have "getMembership_loop p i c ms = getMembership_loop p (icr_InConfiguration (snd (answer ?peer))) ?c' ms'"
      using Suc.prems(1,2) False
      by (subst getMembership_loop.simps)
        (auto simp: ms rest fields ans leader_ok_def leads_def updateLeader_ok [OF ok] split: prod.split)
    moreover have "\<exists>c'' ms'' peer. getMembership_loop p (icr_InConfiguration (snd (answer ?peer))) ?c' ms' =
        Inr (Some (icr_InConfiguration (snd (answer peer)), c'', ms'')) \<and> leads answer peer \<and> leader_ok c'' \<and>
        cl_currConf c'' ! cl_lastKnownLeaderInd c'' = peer \<and> cl_currConf c'' = cl_currConf ?c'"
    proof (rule Suc.IH)
      show "leader_ok ?c'" using n by (simp add: leader_ok_def fields)
      show "\<not> cl_dead ?c'" using Suc.prems(2) by (simp add: fields)
      show "\<forall>m \<in> set ms'. answers p (cl_serverId ?c') answer m" using Suc.prems(3) by (simp add: ms rest fields)
      show "leads answer (cl_currConf ?c' ! ((cl_lastKnownLeaderInd ?c' + d) mod length (cl_currConf ?c')))"
        using Suc.prems(4) by (simp add: fields mod_add_left_eq)
      show "4 * d + 3 \<le> length ms'" using Suc.prems(5) by (simp add: ms rest)
    qed
    ultimately show ?thesis by (simp add: fields)
  qed
qed

text \<open>C18: polling finds the leader. When some server of the known configuration answers as the leader and the other
  goroutines leave the configuration alone, \<open>getMembership\<close> returns after at most one turn around the
  configuration, four moments for each server, with the answer of a leader, and it remembers that leader.\<close>

theorem getMembership_finds_leader:
  assumes "leader_ok c" and "\<not> cl_dead c" and "\<forall>m \<in> set ms. answers p (cl_serverId c) answer m"
    and "peer \<in> set (cl_currConf c)" and "leads answer peer"
    and "4 * length (cl_currConf c) \<le> length ms"
  shows "\<exists>c' ms' leader. getMembership p c ms = Inr (Some (icr_InConfiguration (snd (answer leader)), c', ms')) \<and>
    leads answer leader \<and> leader_ok c' \<and> cl_currConf c' ! cl_lastKnownLeaderInd c' = leader"
proof -
  let ?n = "length (cl_currConf c)" and ?i = "cl_lastKnownLeaderInd c"
  from assms(4) obtain j where j: "j < ?n" "cl_currConf c ! j = peer" by (auto simp: in_set_conv_nth)
  define d where "d = (j + ?n - ?i) mod ?n"
  have i: "?i < ?n" using assms(1) by (simp add: leader_ok_def)
  have d: "d < ?n" unfolding d_def by (rule mod_less_divisor) (use i in auto)
  have "(?i + d) mod ?n = (?i + (j + ?n - ?i)) mod ?n" by (simp add: d_def mod_add_right_eq)
  also have "\<dots> = j" using i j by simp
  finally have "leads answer (cl_currConf c ! ((?i + d) mod ?n))" using j assms(5) by simp
  moreover have "4 * d + 3 \<le> length ms" using d assms(6) by simp
  ultimately show ?thesis
    using getMembership_loop_finds [OF assms(1-3), of d False] by (auto simp: getMembership_def)
qed

lemma cooperative_answers:
  "answers p server (\<lambda>peer. (True, \<lparr>icr_InConfiguration = True, icr_IsLeader = True\<rparr>)) cooperative"
  by (simp add: answers_def polls_alone_def cooperative_def)

theorem getMembership_finds_leader_witness:
  "\<exists>c' ms'. getMembership False demo_client (replicate 4 cooperative) = Inr (Some (True, c', ms')) \<and> leader_ok c'"
proof -
  let ?answer = "\<lambda>peer. (True, \<lparr>icr_InConfiguration = True, icr_IsLeader = True\<rparr>)"
  have "\<exists>c' ms' leader. getMembership False demo_client (replicate 4 cooperative) =
      Inr (Some (icr_InConfiguration (snd (?answer leader)), c', ms')) \<and>
      leads ?answer leader \<and> leader_ok c' \<and> cl_currConf c' ! cl_lastKnownLeaderInd c' = leader"
    by (rule getMembership_finds_leader [where peer = "''0''"])
      (simp_all add: demo_client_def leader_ok_def cooperative_answers leads_def)
  then show ?thesis by auto
qed

subsection \<open>Without a leader\<close>

definition unanswered :: "'c moment \<Rightarrow> bool" where
  "unanswered m \<longleftrightarrow> (\<forall>c. cl_dead (at_others m c) = cl_dead c) \<and>
     (\<forall>peer server isAdd. \<not> fst (at_AddRemove m peer server isAdd))"

definition never :: "'a \<Rightarrow> 'c Client \<Rightarrow> 'c moment list \<Rightarrow> bool" where
  "never x c ms \<longleftrightarrow> False"

lemma unanswered_reply: "unanswered m \<Longrightarrow> at_AddRemove m peer server isAdd = (ok, err) \<Longrightarrow> \<not> ok"
  by (metis fst_conv unanswered_def)

lemma unanswered_alive: "unanswered m \<Longrightarrow> cl_dead (at_others m c) = cl_dead c"
  by (simp add: unanswered_def)

lemma attemptAddRemove_unanswered:
  fixes ms :: "'c moment list"
  assumes "\<not> cl_dead c" and "\<forall>m \<in> set ms. unanswered m"
  shows "returns (attemptAddRemove_loop isAdd e c ms) never"
  using assms
proof (induction ms arbitrary: e c rule: length_induct)
  case (1 ms)
  have IH: "returns (attemptAddRemove_loop isAdd e d rest) never"
    if "length rest < length ms" and "\<not> cl_dead d" and "\<forall>m \<in> set rest. unanswered m"
    for e d and rest :: "'c moment list"
    using "1.IH" that by blast
  show ?case
    using "1.prems"
    by (subst attemptAddRemove_loop.simps, unfold Let_def)
      (intro waiting_intros IH; auto simp: unanswered_alive updateLeader_def split: if_splits dest: unanswered_reply)
qed

lemma BecomeInactive_unanswered:
  assumes "\<not> cl_dead c" and "\<forall>m \<in> set ms. unanswered m"
  shows "returns (BecomeInactive c ms) never"
proof -
  have remove: "returns (removeSelf d rest) never" if "\<not> cl_dead d" and "set rest \<subseteq> set ms" for d rest
    using that assms(2)
    by (subst removeSelf.simps, unfold attemptAddRemove_def)
      (intro waiting_intros returns_and_then [OF attemptAddRemove_unanswered]; auto simp: never_def unanswered_alive)
  have loop: "returns (BecomeInactive_loop d rest) never" if "\<not> cl_dead d" and "set rest \<subseteq> set ms" for d rest
    using that assms(2)
    by (subst BecomeInactive_loop.simps)
      (intro waiting_intros returns_and_then [OF remove]; auto simp: never_def unanswered_alive)
  show ?thesis
    using assms by (unfold BecomeInactive_def) (intro waiting_intros loop; auto simp: unanswered_alive)
qed

text \<open>
  A client that reaches no server cannot be killed: \<open>Kill\<close> marks it as dead only after \<open>BecomeInactive\<close> has returned,
  and \<open>BecomeInactive\<close> polls until a leader answers or the client is dead.
\<close>

lemma Kill_needs_leader:
  assumes "\<not> cl_dead c" and "\<forall>m \<in> set ms. unanswered m"
  shows "Kill debug call c ms \<noteq> Inr (Some r)"
proof -
  have "returns (Kill debug call c ms) never"
    using assms
    by (unfold Kill_def) (intro waiting_intros returns_and_then [OF BecomeInactive_unanswered]; auto simp: never_def unanswered_alive)
  then show ?thesis by (cases r) (auto simp: returns_def never_def)
qed

subsection \<open>The index of the leader\<close>

text \<open>Everything the goroutines of a client do to it, one critical section at a time.\<close>

datatype 'c client_event =
    CUpdate reader "'c UpdateMsg"
  | CTask task_env "'c task"
  | CSubmitOps "'c submit_call"
  | CSubmitReply "'c Op" "submit_error option"
  | CAborter int
  | CSetActive bool
  | CUpdateLeader
  | CLeave
  | CKillEnd
  | CCreateResCh
  | CDestroyResCh

fun cl_step :: "bool \<Rightarrow> 'c crypto_methods \<Rightarrow> (bytes \<Rightarrow> bytes) \<Rightarrow> 'c Client \<times> 'c ReadState \<Rightarrow> 'c client_event \<Rightarrow>
    ('c Client \<times> 'c ReadState) go" where
  "cl_step debug cm sha256 (c, rs) (CUpdate random msg) =
     go_bind (readUpdates debug cm c rs random msg) (\<lambda>(c, rs, tasks, random). Inr (c, rs))"
| "cl_step debug cm sha256 (c, rs) (CTask env t) = go_bind (run_task debug cm sha256 env c t) (\<lambda>c. Inr (c, rs))"
| "cl_step debug cm sha256 (c, rs) (CSubmitOps call) = go_bind (submitOps debug call c) (\<lambda>c. Inr (c, rs))"
| "cl_step debug cm sha256 (c, rs) (CSubmitReply op err) = go_bind (submitOps_reply debug c op err) (\<lambda>c. Inr (c, rs))"
| "cl_step debug cm sha256 (c, rs) (CAborter now) = go_bind (aborter debug cm now c) (\<lambda>(c, _). Inr (c, rs))"
| "cl_step debug cm sha256 (c, rs) (CSetActive b) = Inr (c\<lparr>cl_active := b\<rparr>, rs)"
| "cl_step debug cm sha256 (c, rs) CUpdateLeader = go_bind (updateLeader c) (\<lambda>c. Inr (c, rs))"
| "cl_step debug cm sha256 (c, rs) CLeave = Inr (c\<lparr>cl_leaving := True\<rparr>, rs)"
| "cl_step debug cm sha256 (c, rs) CKillEnd = Inr (Kill_end c, rs)"
| "cl_step debug cm sha256 (c, rs) CCreateResCh = go_bind (CreateResCh debug c) (\<lambda>c. Inr (c, rs))"
| "cl_step debug cm sha256 (c, rs) CDestroyResCh = go_bind (DestroyResCh debug c) (\<lambda>c. Inr (c, rs))"

definition leader_typed :: "'c Client \<Rightarrow> bool" where
  "leader_typed c \<longleftrightarrow> leader_ok c \<or> cl_currConf c = [] \<and> cl_lastKnownLeaderInd c = 0"

lemma pending_add_fields:
  "pending_add debug c op = Inr c' \<Longrightarrow>
     cl_currConf c' = cl_currConf c \<and> cl_lastKnownLeaderInd c' = cl_lastKnownLeaderInd c"
  by (auto simp: pending_add_def elim!: go_bindE split: prod.splits)

lemma sendRoundResult_fields:
  "sendRoundResult debug cm sha256 c sm round h hr b n = Inr c' \<Longrightarrow>
     cl_currConf c' = cl_currConf c \<and> cl_lastKnownLeaderInd c' = cl_lastKnownLeaderInd c"
  by (auto simp: sendRoundResult_def send_result_def elim!: go_bindE split: if_splits option.splits)

lemma run_task_fields:
  "run_task debug cm sha256 env c t = Inr c' \<Longrightarrow>
     cl_currConf c' = cl_currConf c \<and> cl_lastKnownLeaderInd c' = cl_lastKnownLeaderInd c"
  by (cases t) (auto elim!: go_bindE split: option.splits dest: pending_add_fields sendRoundResult_fields)

lemma aborter_fields:
  "aborter debug cm now c = Inr (c', sleep) \<Longrightarrow>
     cl_currConf c' = cl_currConf c \<and> cl_lastKnownLeaderInd c' = cl_lastKnownLeaderInd c"
  by (auto simp: aborter_def Let_def elim!: go_bindE split: Phase.splits if_splits dest!: pending_add_fields)

lemma updateLeader_typed: "updateLeader c = Inr c' \<Longrightarrow> leader_typed c'"
  by (auto simp: updateLeader_def leader_typed_def leader_ok_def split: if_splits)

lemma submitOps_reply_typed: "leader_typed c \<Longrightarrow> submitOps_reply debug c op err = Inr c' \<Longrightarrow> leader_typed c'"
  by (cases err) (auto simp: submitOps_reply_def leader_typed_def leader_ok_def elim!: go_bindE dest!: updateLeader_typed)

lemma submitOps_typed: "leader_typed c \<Longrightarrow> submitOps debug call c = Inr c' \<Longrightarrow> leader_typed c'"
  by (auto simp: submitOps_def elim!: go_bindE split: option.splits dest: submitOps_reply_typed)

lemma read_config_typed: "read_config debug c conf = Inr (c', ts) \<Longrightarrow> leader_typed c'"
  by (auto simp: read_config_def Let_def leader_typed_def leader_ok_def elim!: go_bindE)

lemma readUpdates_typed:
  "leader_typed c \<Longrightarrow> readUpdates debug cm c rs random msg = Inr (c', rest) \<Longrightarrow> leader_typed c'"
  by (auto simp: readUpdates_def elim!: go_bindE split: if_splits dest: read_config_typed)

lemma leader_typed_fields:
  "cl_currConf c' = cl_currConf c \<and> cl_lastKnownLeaderInd c' = cl_lastKnownLeaderInd c \<Longrightarrow>
     leader_typed c' = leader_typed c"
  by (simp add: leader_typed_def leader_ok_def)

lemma leader_typed_updates [simp]:
  "leader_typed (c\<lparr>cl_active := a\<rparr>) = leader_typed c"
  "leader_typed (c\<lparr>cl_leaving := l\<rparr>) = leader_typed c"
  "leader_typed (c\<lparr>cl_resCh := r\<rparr>) = leader_typed c"
  "leader_typed (Kill_end c) = leader_typed c"
  by (simp_all add: leader_typed_def leader_ok_def Kill_end_def)

lemma cl_step_typed:
  assumes "leader_typed c" and "cl_step debug cm sha256 (c, rs) e = Inr (c', rs')"
  shows "leader_typed c'"
  using assms
  by (cases e)
    (auto elim!: go_bindE dest: readUpdates_typed submitOps_typed submitOps_reply_typed updateLeader_typed
        leader_typed_fields [OF run_task_fields] leader_typed_fields [OF aborter_fields]
      simp: CreateResCh_def DestroyResCh_def split: option.splits)

lemma cl_step_typed_pair:
  "leader_typed (fst s) \<Longrightarrow> cl_step debug cm sha256 s e = Inr s' \<Longrightarrow> leader_typed (fst s')"
  by (cases s; cases s') (auto dest: cl_step_typed)

interpretation leader: safe_steps "cl_step debug cm sha256" "\<lambda>s. leader_typed (fst s)" for debug cm sha256
  by unfold_locales (rule cl_step_typed_pair)

lemma NewClient_typed: "NewClient debug cm pid now now' s seedConf conf = Inr (c, i, s') \<Longrightarrow> leader_typed c"
  by (cases "mapToSlice seedConf") (auto simp: NewClient_def leader_typed_def leader_ok_def elim!: go_bindE)

text \<open>C17: the presumed leader is always a server of the known configuration. From the creation of a client on, through any
  interleaving of its goroutines, the index of the leader stays within the configuration,
  unless an update carried an empty configuration; so the index expressions and the
  remainder that use it do not panic.\<close>

theorem leader_index_typed:
  assumes "NewClient debug cm pid now now' s seedConf conf = Inr (c, i, s')"
    and "go_run (cl_step debug cm sha256) (c, rs) es = Inr (c', rs')"
    and "cl_currConf c' \<noteq> []"
  shows "cl_lastKnownLeaderInd c' < length (cl_currConf c') \<and> (\<exists>c''. updateLeader c' = Inr c'') \<and>
    (\<forall>call op. \<exists>r. submitOp call c' op = Inr r)"
proof -
  have "leader_typed (fst (c', rs'))"
    by (rule leader.run_safe [OF _ assms(2)]) (simp add: NewClient_typed [OF assms(1)])
  with assms(3) have "leader_ok c'" by (simp add: leader_typed_def)
  then show ?thesis
    using updateLeader_ok [of c'] by (auto simp: leader_ok_def submitOp_def split: prod.split)
qed

lemma demo_init_copy:
  "StateMachine_DeepCopy False crypto_DeepCopy (sm_init :: masseyOmuraCrypto StateMachine) = Inr sm_init"
  by (subst StateMachine_DeepCopy_eq [OF sm_init_inv])
    (simp add: sm_init_def padded_def zero_RoundInfo_def numeral_eq_Suc)

definition demo_new_server :: "(masseyOmuraCrypto, unit) Server" where
  "demo_new_server = \<lparr>sv_Me = ''0'', sv_rf = (), sv_dead = False, sv_sm = sm_init, sv_updChs = [], sv_updChIndex = 0,
     sv_resps = NewRespChannels, sv_delivered = []\<rparr>"

lemma demo_new_client:
  "NewClient False (masseyOmura_methods is_prime) 7 0 0 demo_new_server [(''0'', True), (''1'', True)] (cl_Config demo_client) =
     Inr (demo_client\<lparr>cl_active := False, cl_resCh := None, cl_currConf := [''0'', ''1'']\<rparr>, 0,
       demo_new_server\<lparr>sv_updChs := [(0, [sm_update sm_init])], sv_updChIndex := 1\<rparr>)"
proof -
  have "initRound False zero_StateMachine 0 = Inr (sm_init :: masseyOmuraCrypto StateMachine)"
    using NewStateMachine_init [of False] by (simp add: NewStateMachine_def zero_StateMachine_def)
  then show ?thesis
    by (simp add: NewClient_def newLastStateMachine_def GetUpdCh_def demo_new_server_def masseyOmura_methods_def
      demo_init_copy demo_client_def mapToSlice_def)
qed

theorem leader_index_typed_witness:
  "\<exists>c i s' rs c' rs'. NewClient False (masseyOmura_methods is_prime) 7 0 0 demo_new_server
       [(''0'', True), (''1'', True)] (cl_Config demo_client) = Inr (c, i, s') \<and>
     go_run (cl_step False (masseyOmura_methods is_prime) (\<lambda>bs. bs)) (c, rs) [CUpdateLeader, CLeave, CUpdateLeader, CUpdateLeader] =
       Inr (c', rs') \<and> cl_lastKnownLeaderInd c' < length (cl_currConf c')"
proof -
  let ?c = "demo_client\<lparr>cl_active := False, cl_resCh := None, cl_currConf := [''0'', ''1'']\<rparr>"
  let ?c' = "?c\<lparr>cl_leaving := True, cl_lastKnownLeaderInd := 1\<rparr>"
  fix rs :: "masseyOmuraCrypto ReadState"
  have run: "go_run (cl_step False (masseyOmura_methods is_prime) (\<lambda>bs. bs)) (?c, rs) [CUpdateLeader, CLeave, CUpdateLeader, CUpdateLeader] =
      Inr (?c', rs)"
    by (simp add: updateLeader_def demo_client_def)
  have "cl_lastKnownLeaderInd ?c' < length (cl_currConf ?c')"
    using leader_index_typed [OF demo_new_client run] by simp
  with demo_new_client run show ?thesis by blast
qed

end
