(* ===== verification/Elgamal.thy ===== *)
theory Elgamal
  imports Massey_Omura Demo_Prime
begin

text \<open>
  The package \<open>elgamal\<close>: a commutative variant of ElGamal that the repository keeps for reference
  (\<open>basics.go\<close>, \<open>keygen.go\<close>, \<open>encrypt.go\<close>).

  \<^item> The key structs are records; the private key embeds the public one. As in \<open>masseyomura\<close>, the random
    reader is threaded through, and \<open>rand.Prime\<close> and \<open>ProbablyPrime\<close> are arguments. The loops of
    \<open>GenSysKey\<close> are partial functions, None where they do not return.
  \<^item> \<open>el_randHelp\<close> adds to the number it draws before it looks at the error: with an error the
    number is the nil pointer, so the call panics.
  \<^item> \<open>el_encrypt_chain\<close> and \<open>el_decrypt_chain\<close> compose the operations the way the comments of \<open>encrypt.go\<close>
    prescribe: each user keeps the value K and passes the ciphertext on.

  The theorems: what several users encrypt, they decrypt in any order; a message survives padding exactly
  when it is at least three bytes shorter than the limit that \<open>PrepareMsg\<close> checks; the generator
  of a system key has an order that divides twice the prime \<open>Q\<close>, and need not have order \<open>Q\<close>.
\<close>

record el_SystemKey =
  es_P :: nat
  es_Q :: nat
  es_G :: nat

record el_PublicKey =
  ek_P :: nat
  ek_Q :: nat
  ek_G :: nat
  ek_Y :: nat

record el_PrivateKey = el_PublicKey +
  ek_X :: nat

datatype el_error =
    ElMessageTooLong int int
  | ElInvalidPrivateKey

subsection \<open>basics.go and keygen.go\<close>

definition el_randHelp :: "reader \<Rightarrow> int \<Rightarrow> (nat \<times> reader) go" where
  "el_randHelp random Q =
     go_bind (rand_Int random (Q - 1)) (\<lambda>(r, random').
       case r of Inl err \<Rightarrow> Inl NilDereference | Inr n \<Rightarrow> Inr (n + 1, random'))"

text \<open>The loop that draws \<open>q\<close>, the loop that draws \<open>p\<close>, and the loop that draws the generator.\<close>

partial_function (option) el_draw_q ::
  "(reader \<Rightarrow> int \<Rightarrow> (rand_error + nat) \<times> reader) \<Rightarrow> (nat \<Rightarrow> bool) \<Rightarrow> reader \<Rightarrow> int \<Rightarrow> ((rand_error + nat) \<times> reader) option" where
  "el_draw_q rand_Prime probablyPrime random bitsq =
     (case rand_Prime random bitsq of
        (Inl err, random) \<Rightarrow> Some (Inl err, random)
      | (Inr q, random) \<Rightarrow>
          if probablyPrime q then Some (Inr q, random) else el_draw_q rand_Prime probablyPrime random bitsq)"

partial_function (option) el_draw_p ::
  "(reader \<Rightarrow> int \<Rightarrow> (rand_error + nat) \<times> reader) \<Rightarrow> (nat \<Rightarrow> bool) \<Rightarrow> reader \<Rightarrow> int \<Rightarrow>
   ((rand_error + nat \<times> nat \<times> nat) \<times> reader) go option" where
  "el_draw_p rand_Prime probablyPrime random bitsq =
     Option.bind (el_draw_q rand_Prime probablyPrime random bitsq) (\<lambda>(d, random).
       case d of
         Inl err \<Rightarrow> Some (Inr (Inl err, random))
       | Inr q \<Rightarrow>
           (case el_randHelp random 10 of
              Inl panic \<Rightarrow> Some (Inl panic)
            | Inr (r, random) \<Rightarrow>
                let p = r * q * 2 + 1
                in if probablyPrime p then Some (Inr (Inr (p, q, r), random))
                   else el_draw_p rand_Prime probablyPrime random bitsq))"

partial_function (option) el_draw_g :: "nat \<Rightarrow> nat \<Rightarrow> nat \<Rightarrow> reader \<Rightarrow> (nat \<times> reader) go option" where
  "el_draw_g p q r random =
     (case el_randHelp random (int q) of
        Inl panic \<Rightarrow> Some (Inl panic)
      | Inr (h, random) \<Rightarrow>
          let g = big_Exp h r p
          in if big_BitLen g > 1 then Some (Inr (g, random)) else el_draw_g p q r random)"

definition el_GenSysKey ::
  "(reader \<Rightarrow> int \<Rightarrow> (rand_error + nat) \<times> reader) \<Rightarrow> (nat \<Rightarrow> bool) \<Rightarrow> reader \<Rightarrow> int \<Rightarrow>
   ((rand_error + el_SystemKey) \<times> reader) go option" where
  "el_GenSysKey rand_Prime probablyPrime random bitsq =
     Option.bind (el_draw_p rand_Prime probablyPrime random bitsq) (\<lambda>d.
       case d of
         Inl panic \<Rightarrow> Some (Inl panic)
       | Inr (Inl err, random) \<Rightarrow> Some (Inr (Inl err, random))
       | Inr (Inr (p, q, r), random) \<Rightarrow>
           Option.bind (el_draw_g p q r random) (\<lambda>d.
             Some (go_bind d (\<lambda>(g, random). Inr (Inr \<lparr>es_P = p, es_Q = q, es_G = g\<rparr>, random)))))"

definition el_GenUserKey :: "reader \<Rightarrow> el_SystemKey \<Rightarrow> (el_PrivateKey \<times> reader) go" where
  "el_GenUserKey random syskey =
     go_bind (el_randHelp random (int (es_Q syskey))) (\<lambda>(x, random).
       Inr (\<lparr>ek_P = es_P syskey, ek_Q = es_Q syskey, ek_G = es_G syskey,
             ek_Y = big_Exp (es_G syskey) x (es_P syskey), ek_X = x\<rparr>, random))"

subsection \<open>encrypt.go\<close>

text \<open>\<open>pad\<close>: the index of the separator is negative when the message is one byte short of the limit.\<close>

definition el_pad :: "bytes \<Rightarrow> int \<Rightarrow> bytes go" where
  "el_pad msg targetlen =
     (let n = int (length msg)
      in if n > targetlen then Inl (Panic ''cannot make message shorter through padding'')
         else if n = targetlen then Inl (Panic ''message too long to encrypt'')
         else let padded = set_ones 0 (nat (targetlen - 2 - n)) (replicate (nat (targetlen - 1)) 0)
         in if targetlen - 2 - n < 0 then Inl IndexOutOfRange
            else go_bind (go_store padded (nat (targetlen - 2 - n)) 0) (\<lambda>padded.
              let s = nat (targetlen - n - 1) in Inr (take s padded @ go_copy (drop s padded) msg)))"

fun el_unpad :: "bytes \<Rightarrow> bytes go" where
  "el_unpad [] = Inl (Panic ''no 0 in message'')"
| "el_unpad (b # bs) = (if b = 0 then Inr bs else el_unpad bs)"

definition el_PrepareMsg :: "bytes \<Rightarrow> int \<Rightarrow> (el_error + nat) go" where
  "el_PrepareMsg msg plen =
     (let maxsize = (plen + 7) sdiv 8 - 2
      in if int (length msg) > maxsize then Inr (Inl (ElMessageTooLong (int (length msg)) plen))
         else go_bind (el_pad msg maxsize) (\<lambda>padded. Inr (Inr (bigInt padded))))"

definition el_Encrypt :: "reader \<Rightarrow> 'k el_PublicKey_scheme \<Rightarrow> nat \<Rightarrow> (nat \<times> nat \<times> reader) go" where
  "el_Encrypt random pubkey prevC =
     go_bind (el_randHelp random (int (ek_Q pubkey))) (\<lambda>(r, random).
       let K = big_Exp (ek_G pubkey) r (ek_P pubkey);
           C = big_Exp (ek_Y pubkey) r (ek_P pubkey) * prevC
       in Inr (K, C, random))"

definition el_Decrypt :: "el_PrivateKey \<Rightarrow> nat \<Rightarrow> nat \<Rightarrow> el_error + nat" where
  "el_Decrypt privkey K prevD =
     (case big_ModInverse (big_Exp K (ek_X privkey) (ek_P privkey)) (ek_P privkey) of
        None \<Rightarrow> Inl ElInvalidPrivateKey
      | Some denom \<Rightarrow> Inr (prevD * denom mod ek_P privkey))"

definition el_ExtractMsg :: "nat \<Rightarrow> bytes go" where
  "el_ExtractMsg D = el_unpad (big_Bytes D)"

text \<open>The users encrypt one after the other, each with a fresh random number, and keep their values K.\<close>

fun el_encrypt_chain :: "reader \<Rightarrow> el_PrivateKey list \<Rightarrow> nat \<Rightarrow> (nat list \<times> nat \<times> reader) go" where
  "el_encrypt_chain random [] C = Inr ([], C, random)"
| "el_encrypt_chain random (k # ks) C =
     go_bind (el_Encrypt random k C) (\<lambda>(K, C, random).
     go_bind (el_encrypt_chain random ks C) (\<lambda>(Ks, C, random). Inr (K # Ks, C, random)))"

fun el_decrypt_chain :: "(el_PrivateKey \<times> nat) list \<Rightarrow> nat \<Rightarrow> el_error + nat" where
  "el_decrypt_chain [] D = Inr D"
| "el_decrypt_chain ((k, K) # ks) D =
     (case el_Decrypt k K D of Inl err \<Rightarrow> Inl err | Inr D' \<Rightarrow> el_decrypt_chain ks D')"

subsection \<open>Messages\<close>

lemma el_unpad_unPad: "el_unpad bs = unPad bs"
  by (induction bs) auto

lemma el_pad_eq:
  assumes "int (length msg) + 2 \<le> targetlen"
  shows "el_pad msg targetlen = Inr (replicate (nat targetlen - 2 - length msg) 1 @ 0 # msg)"
proof -
  define a where "a = nat targetlen - 2 - length msg"
  have t: "targetlen = int (a + 2 + length msg)" using assms by (simp add: a_def)
  have "set_ones 0 a (replicate (Suc (a + length msg)) 0) = replicate a 1 @ 0 # replicate (length msg) 0"
    by (subst set_ones_eq) (simp_all add: drop_replicate flip: replicate_Suc)
  then show ?thesis
    by (simp add: el_pad_def t Let_def nat_diff_distrib nat_add_distrib go_store_def go_copy_def list_update_append)
qed

lemma el_pad_long:
  assumes "int (length msg) = targetlen \<or> int (length msg) = targetlen - 1"
  shows "\<exists>panic. el_pad msg targetlen = Inl panic"
  using assms by (auto simp: el_pad_def Let_def)

definition el_maxsize :: "int \<Rightarrow> int" where
  "el_maxsize plen = (plen + 7) div 8 - 2"

lemma el_PrepareMsg_maxsize:
  "0 \<le> plen \<Longrightarrow> el_PrepareMsg msg plen =
     (if int (length msg) > el_maxsize plen then Inr (Inl (ElMessageTooLong (int (length msg)) plen))
      else go_bind (el_pad msg (el_maxsize plen)) (\<lambda>padded. Inr (Inr (bigInt padded))))"
  by (simp add: el_PrepareMsg_def el_maxsize_def signed_divide_int_def sgn_if)

lemma el_Prepare_ok:
  assumes "0 \<le> plen" and "int (length msg) + 3 \<le> el_maxsize plen"
  shows "\<exists>m. el_PrepareMsg msg plen = Inr (Inr m) \<and> el_ExtractMsg m = Inr msg"
proof -
  define a where "a = nat (el_maxsize plen) - 3 - length msg"
  have "el_pad msg (el_maxsize plen) = Inr (replicate (Suc a) 1 @ 0 # msg)"
    using assms(2) by (subst el_pad_eq) (simp_all add: a_def Suc_diff_Suc flip: replicate_Suc)
  then have "el_PrepareMsg msg plen = Inr (Inr (bigInt (1 # replicate a 1 @ 0 # msg)))"
    using assms by (simp add: el_PrepareMsg_maxsize)
  moreover have "el_ExtractMsg (bigInt (1 # replicate a 1 @ 0 # msg)) = Inr msg"
    using unPad_append [of "1 # replicate a 1" msg]
    by (simp add: el_ExtractMsg_def big_Bytes_bigInt el_unpad_unPad)
  ultimately show ?thesis by blast
qed

lemma el_Prepare_small:
  assumes "int (length msg) + 3 \<le> el_maxsize (int (big_BitLen p))" and "el_PrepareMsg msg (int (big_BitLen p)) = Inr (Inr m)"
  shows "m < p"
proof -
  define a where "a = nat (el_maxsize (int (big_BitLen p))) - 2 - length msg"
  have "el_pad msg (el_maxsize (int (big_BitLen p))) = Inr (replicate a 1 @ 0 # msg)"
    using assms(1) by (subst el_pad_eq) (simp_all add: a_def)
  with assms have "m = bigInt (replicate a 1 @ 0 # msg)" by (simp add: el_PrepareMsg_maxsize)
  then have "m < 2 ^ (8 * (a + 1 + length msg))"
    using bigInt_less_bits [of "replicate a 1 @ 0 # msg"] by simp
  also have "\<dots> \<le> 2 ^ (big_BitLen p - 1)"
  proof (rule power_increasing)
    have "8 * int (a + 1 + length msg) \<le> int (big_BitLen p) - 1"
      using assms(1) by (simp add: a_def el_maxsize_def nat_diff_distrib)
    then show "8 * (a + 1 + length msg) \<le> big_BitLen p - 1" by simp
  qed simp
  also have "\<dots> \<le> p" using assms(1) by (intro BitLen_power_le) (auto simp: el_maxsize_def intro!: gr0I)
  finally show ?thesis .
qed

text \<open>C24: the limits of ElGamal messages. A message survives \<open>PrepareMsg\<close> and \<open>ExtractMsg\<close> exactly when it is at least three
  bytes shorter than the size that \<open>PrepareMsg\<close> checks; of the sizes the check lets through, the two
  largest panic, and for the next one the message is not recovered.\<close>

theorem el_message_limits:
  assumes "0 \<le> plen"
  shows "((\<exists>m. el_PrepareMsg msg plen = Inr (Inr m) \<and> el_ExtractMsg m = Inr msg) \<longleftrightarrow>
      int (length msg) + 3 \<le> el_maxsize plen) \<and>
    ((\<exists>panic. el_PrepareMsg msg plen = Inl panic) \<longleftrightarrow>
      int (length msg) = el_maxsize plen \<or> int (length msg) = el_maxsize plen - 1)"
proof -
  consider (error) "int (length msg) > el_maxsize plen"
    | (panic) "int (length msg) = el_maxsize plen \<or> int (length msg) = el_maxsize plen - 1"
    | (lost) "int (length msg) = el_maxsize plen - 2"
    | (ok) "int (length msg) + 3 \<le> el_maxsize plen" by linarith
  then show ?thesis
  proof cases
    case error
    then show ?thesis using assms by (auto simp: el_PrepareMsg_maxsize)
  next
    case panic
    then obtain e where "el_pad msg (el_maxsize plen) = Inl e" using el_pad_long by blast
    with panic show ?thesis using assms by (auto simp: el_PrepareMsg_maxsize)
  next
    case lost
    then have "nat (el_maxsize plen) - 2 - length msg = 0" by simp
    with lost have "el_pad msg (el_maxsize plen) = Inr (0 # msg)" by (subst el_pad_eq) simp_all
    then have "el_PrepareMsg msg plen = Inr (Inr (bigInt (0 # msg)))"
      using assms lost by (simp add: el_PrepareMsg_maxsize)
    moreover have "el_ExtractMsg (bigInt (0 # msg)) \<noteq> Inr msg"
      using unPad_dropWhile_not_same [of msg] by (simp add: el_ExtractMsg_def el_unpad_unPad big_Bytes_dropWhile)
    ultimately show ?thesis using lost by auto
  next
    case ok
    then show ?thesis using el_Prepare_ok [OF assms ok] by auto
  qed
qed

theorem el_message_limits_witness:
  "(\<exists>m. el_PrepareMsg [104, 105] 56 = Inr (Inr m) \<and> el_ExtractMsg m = Inr [104, 105]) \<and>
   (\<exists>panic. el_PrepareMsg [1, 2, 3, 4] 56 = Inl panic)"
  using el_message_limits [of 56 "[104, 105]"] el_message_limits [of 56 "[1, 2, 3, 4]"]
  by (simp add: el_maxsize_def)

subsection \<open>Encryption and decryption\<close>

definition el_key_ok :: "nat \<Rightarrow> nat \<Rightarrow> el_PrivateKey \<Rightarrow> bool" where
  "el_key_ok p g k \<longleftrightarrow> ek_P k = p \<and> ek_G k = g \<and> ek_Y k = big_Exp g (ek_X k) p"

text \<open>The factor that a user puts on the ciphertext.\<close>

definition el_factor :: "el_PrivateKey \<times> nat \<Rightarrow> nat" where
  "el_factor kK = big_Exp (snd kK) (ek_X (fst kK)) (ek_P (fst kK))"

definition el_K_ok :: "nat \<Rightarrow> el_PrivateKey \<times> nat \<Rightarrow> bool" where
  "el_K_ok p kK \<longleftrightarrow> ek_P (fst kK) = p \<and> 0 < snd kK \<and> snd kK < p"

lemma el_GenUserKey_ok: "el_GenUserKey random s = Inr (k, random') \<Longrightarrow> el_key_ok (es_P s) (es_G s) k"
  by (auto simp: el_GenUserKey_def el_key_ok_def elim!: go_bindE)

lemma el_Encrypt_factor:
  assumes "el_key_ok p g k" and "is_prime p" and "0 < g" and "g < p" and "el_Encrypt random k C = Inr (K, C', random')"
  shows "C' = el_factor (k, K) * C \<and> el_K_ok p (k, K)"
proof -
  from assms(5) obtain r where K: "K = big_Exp g r p" and C': "C' = big_Exp (ek_Y k) r p * C"
    using assms(1) by (auto simp: el_Encrypt_def el_key_ok_def Let_def elim!: go_bindE)
  have "0 < K" "K < p"
    using power_mod_pos [OF assms(2-4)] assms(3,4) by (simp_all add: K big_Exp_def)
  then show ?thesis
    using assms(1) big_Exp_commute [of g "ek_X k" p r] by (simp add: el_factor_def el_K_ok_def el_key_ok_def C' K)
qed

lemma el_encrypt_chain_factor:
  assumes "\<forall>k \<in> set ks. el_key_ok p g k" and "is_prime p" and "0 < g" and "g < p"
    and "el_encrypt_chain random ks C = Inr (Ks, C', random')"
  shows "length Ks = length ks \<and> C' = prod_list (map el_factor (zip ks Ks)) * C \<and> (\<forall>kK \<in> set (zip ks Ks). el_K_ok p kK)"
  using assms(1,5)
proof (induction ks arbitrary: random C Ks)
  case Nil
  then show ?case by simp
next
  case (Cons k ks)
  then obtain K C1 rnd Ks' where step: "el_Encrypt random k C = Inr (K, C1, rnd)"
    and rest: "el_encrypt_chain rnd ks C1 = Inr (Ks', C', random')" and Ks: "Ks = K # Ks'"
    by (auto elim!: go_bindE)
  have "C1 = el_factor (k, K) * C \<and> el_K_ok p (k, K)"
    using Cons.prems(1) by (intro el_Encrypt_factor [OF _ assms(2-4) step]) simp
  then show ?case using Cons.IH [OF _ rest] Cons.prems(1) by (simp add: Ks ac_simps)
qed

lemma el_Decrypt_factor:
  assumes "is_prime p" and "el_K_ok p kK" and "D mod p = (el_factor kK * m) mod p"
  shows "\<exists>D'. el_Decrypt (fst kK) (snd kK) D = Inr D' \<and> D' mod p = m mod p \<and> D' < p"
proof -
  let ?u = "el_factor kK"
  have p: "ek_P (fst kK) = p" and K: "0 < snd kK" "snd kK < p" using assms(2) by (auto simp: el_K_ok_def)
  have u: "0 < ?u" "?u < p"
    using power_mod_pos [OF assms(1) K] K by (simp_all add: el_factor_def big_Exp_def p)
  then have "\<not> p dvd ?u" by (auto dest: dvd_imp_le)
  then have "gcd ?u p = 1" using is_prime_coprime [OF assms(1)] by (metis coprime_commute coprime_imp_gcd_eq_1)
  then obtain d where d: "big_ModInverse ?u p = Some d" using big_ModInverse_exists [of ?u p] by auto
  have inv: "(?u * d) mod p = 1"
    using big_ModInverse_mult(1) [OF d] is_prime_gt_1 [OF assms(1)] by simp
  have "(D * d) mod p = (D mod p * d) mod p" by (simp add: mod_mult_left_eq)
  also have "\<dots> = ((?u * m) mod p * d) mod p" by (simp only: assms(3))
  also have "\<dots> = ((?u * d) mod p * m) mod p" by (simp add: mod_mult_left_eq mod_mult_right_eq ac_simps)
  also have "\<dots> = m mod p" by (simp add: inv)
  finally show ?thesis
    using d u by (simp add: el_Decrypt_def p el_factor_def [symmetric] split_beta) (simp add: el_factor_def p)
qed

lemma el_decrypt_chain_factors:
  assumes "is_prime p" and "\<forall>kK \<in> set steps. el_K_ok p kK" and "D mod p = (prod_list (map el_factor steps) * m) mod p"
    and "D < p \<or> steps \<noteq> []"
  shows "el_decrypt_chain steps D = Inr (m mod p)"
  using assms(2-4)
proof (induction steps arbitrary: D)
  case Nil
  then show ?case by simp
next
  case (Cons kK steps)
  then have "D mod p = (el_factor kK * (prod_list (map el_factor steps) * m)) mod p" by (simp add: ac_simps)
  with Cons.prems(1) obtain D' where step: "el_Decrypt (fst kK) (snd kK) D = Inr D'"
    and D': "D' mod p = (prod_list (map el_factor steps) * m) mod p" "D' < p"
    using el_Decrypt_factor [OF assms(1)] by fastforce
  have "el_decrypt_chain steps D' = Inr (m mod p)"
    using Cons.prems(1) D' by (intro Cons.IH) simp_all
  with step show ?case by (cases kK) simp
qed

text \<open>C21: the commutative ElGamal scheme is correct. When users with keys of one system encrypt a prepared message, at least three bytes shorter than the
  checked limit, one after the other, and then decrypt in any order, each with the value kept from its encryption, every
  decryption succeeds and the message is recovered.\<close>

theorem el_end_to_end:
  assumes "is_prime p" and "0 < g" and "g < p" and "\<forall>k \<in> set ks. el_key_ok p g k"
    and "int (length msg) + 3 \<le> el_maxsize (int (big_BitLen p))"
    and "el_PrepareMsg msg (int (big_BitLen p)) = Inr (Inr m)"
    and "el_encrypt_chain random ks m = Inr (Ks, C, random')"
    and "mset steps = mset (zip ks Ks)"
  shows "\<exists>D. el_decrypt_chain steps C = Inr D \<and> el_ExtractMsg D = Inr msg"
proof -
  have m: "m < p" by (rule el_Prepare_small [OF assms(5,6)])
  have C: "C = prod_list (map el_factor (zip ks Ks)) * m" and K: "\<forall>kK \<in> set (zip ks Ks). el_K_ok p kK"
    and len: "length Ks = length ks"
    using el_encrypt_chain_factor [OF assms(4,1,2,3,7)] by auto
  have "prod_list (map el_factor steps) = prod_list (map el_factor (zip ks Ks))"
    using assms(8) by (metis mset_map prod_mset_prod_list)
  moreover have "set steps = set (zip ks Ks)" using assms(8) by (rule mset_eq_setD)
  moreover have "C < p \<or> steps \<noteq> []" using C m assms(8) by (cases steps) auto
  ultimately have "el_decrypt_chain steps C = Inr m"
    using el_decrypt_chain_factors [OF assms(1), of steps C m] K C m by simp
  moreover have "el_ExtractMsg m = Inr msg"
    using el_Prepare_ok [OF _ assms(5)] assms(6) by auto
  ultimately show ?thesis by blast
qed

subsection \<open>System keys\<close>

lemma el_randHelp_range:
  assumes "el_randHelp random Q = Inr (n, random')"
  shows "0 < n" and "int n < Q"
  using assms by (auto simp: el_randHelp_def elim!: go_bindE split: sum.split_asm dest!: rand_Int_range)

lemma el_draw_p_ok:
  "el_draw_p rand_Prime probablyPrime random bitsq = Some d \<Longrightarrow>
     (\<forall>p q r rest. d = Inr (Inr (p, q, r), rest) \<longrightarrow> p = r * q * 2 + 1 \<and> 0 < r \<and> r < 10 \<and> probablyPrime p)"
proof (erule el_draw_p.raw_induct [where P = "\<lambda>rand_Prime probablyPrime random bitsq d.
    \<forall>p q r rest. d = Inr (Inr (p, q, r), rest) \<longrightarrow> p = r * q * 2 + 1 \<and> 0 < r \<and> r < 10 \<and> probablyPrime p", rotated])
  fix draw :: "(reader \<Rightarrow> int \<Rightarrow> (rand_error + nat) \<times> reader) \<Rightarrow> (nat \<Rightarrow> bool) \<Rightarrow> reader \<Rightarrow> int \<Rightarrow>
    ((rand_error + nat \<times> nat \<times> nat) \<times> reader) go option"
    and rand_Prime probablyPrime random bitsq d
  assume IH: "\<And>rand_Prime probablyPrime random bitsq d. draw rand_Prime probablyPrime random bitsq = Some d \<Longrightarrow>
      \<forall>p q r rest. d = Inr (Inr (p, q, r), rest) \<longrightarrow> p = r * q * 2 + 1 \<and> 0 < r \<and> r < 10 \<and> probablyPrime p"
    and body: "Option.bind (el_draw_q rand_Prime probablyPrime random bitsq) (\<lambda>(d, random).
       case d of
         Inl err \<Rightarrow> Some (Inr (Inl err, random))
       | Inr q \<Rightarrow>
           (case el_randHelp random 10 of
              Inl panic \<Rightarrow> Some (Inl panic)
            | Inr (r, random) \<Rightarrow>
                let p = r * q * 2 + 1
                in if probablyPrime p then Some (Inr (Inr (p, q, r), random))
                   else draw rand_Prime probablyPrime random bitsq)) = Some d"
  from body obtain dq rnd where "el_draw_q rand_Prime probablyPrime random bitsq = Some (dq, rnd)"
    by (cases "el_draw_q rand_Prime probablyPrime random bitsq") auto
  with body show "\<forall>p q r rest. d = Inr (Inr (p, q, r), rest) \<longrightarrow> p = r * q * 2 + 1 \<and> 0 < r \<and> r < 10 \<and> probablyPrime p"
    using el_randHelp_range [of rnd 10]
    by (cases dq; cases "el_randHelp rnd 10") (auto simp: Let_def split: if_splits dest!: IH [rule_format, OF _ refl])
qed

lemma el_draw_g_ok:
  "el_draw_g p q r random = Some d \<Longrightarrow>
     (\<forall>g rest. d = Inr (g, rest) \<longrightarrow> (\<exists>h. 0 < h \<and> h < q \<and> g = big_Exp h r p \<and> 1 < big_BitLen g))"
proof (erule el_draw_g.raw_induct [where P = "\<lambda>p q r random d.
    \<forall>g rest. d = Inr (g, rest) \<longrightarrow> (\<exists>h. 0 < h \<and> h < q \<and> g = big_Exp h r p \<and> 1 < big_BitLen g)", rotated])
  fix draw :: "nat \<Rightarrow> nat \<Rightarrow> nat \<Rightarrow> reader \<Rightarrow> (nat \<times> reader) go option" and p q r random d
  assume IH: "\<And>p q r random d. draw p q r random = Some d \<Longrightarrow>
      \<forall>g rest. d = Inr (g, rest) \<longrightarrow> (\<exists>h. 0 < h \<and> h < q \<and> g = big_Exp h r p \<and> 1 < big_BitLen g)"
    and body: "(case el_randHelp random (int q) of
        Inl panic \<Rightarrow> Some (Inl panic)
      | Inr (h, random) \<Rightarrow>
          let g = big_Exp h r p
          in if big_BitLen g > 1 then Some (Inr (g, random)) else draw p q r random) = Some d"
  from body IH show "\<forall>g rest. d = Inr (g, rest) \<longrightarrow> (\<exists>h. 0 < h \<and> h < q \<and> g = big_Exp h r p \<and> 1 < big_BitLen g)"
    using el_randHelp_range [of random "int q"]
    by (cases "el_randHelp random (int q)") (auto simp: Let_def split: if_splits)
qed

lemma el_GenSysKey_ok:
  assumes "el_GenSysKey rand_Prime probablyPrime random bitsq = Some (Inr (Inr k, random'))"
  shows "\<exists>r h. es_P k = r * es_Q k * 2 + 1 \<and> 0 < r \<and> r < 10 \<and> probablyPrime (es_P k) \<and>
    0 < h \<and> h < es_Q k \<and> es_G k = big_Exp h r (es_P k) \<and> 1 < big_BitLen (es_G k)"
proof -
  from assms obtain p q r rest g where dp: "el_draw_p rand_Prime probablyPrime random bitsq = Some (Inr (Inr (p, q, r), rest))"
    and dg: "el_draw_g p q r rest = Some (Inr (g, random'))" and k: "k = \<lparr>es_P = p, es_Q = q, es_G = g\<rparr>"
    by (auto simp: el_GenSysKey_def split: Option.bind_splits sum.splits elim!: go_bindE)
  from el_draw_p_ok [OF dp] el_draw_g_ok [OF dg] show ?thesis by (auto simp: k)
qed

text \<open>C25: the generator of an ElGamal system key is a residue other than 0 and 1 whose order divides twice the prime \<open>Q\<close>: it
  is drawn as an \<open>r\<close>-th power, and \<open>P\<close> is \<open>2 * r * Q + 1\<close>.\<close>

theorem el_generator_order:
  assumes "el_GenSysKey rand_Prime probablyPrime random bitsq = Some (Inr (Inr k, random'))" and "is_prime (es_P k)"
  shows "1 < es_G k \<and> es_G k < es_P k \<and> es_G k ^ (2 * es_Q k) mod es_P k = 1"
proof -
  let ?p = "es_P k" and ?q = "es_Q k"
  from el_GenSysKey_ok [OF assms(1)] obtain r h where p: "?p = r * ?q * 2 + 1" and r: "0 < r" and h: "0 < h" "h < ?q"
    and g: "es_G k = big_Exp h r ?p" and len: "1 < big_BitLen (es_G k)" by blast
  have "?q \<le> r * ?q" using r by simp
  then have "h < ?p" using h p by linarith
  then have "\<not> ?p dvd h" using h by (auto dest: dvd_imp_le)
  then have "h ^ (?p - 1) mod ?p = 1" by (rule fermat_little [OF assms(2)])
  moreover have "es_G k ^ (2 * ?q) mod ?p = h ^ (?p - 1) mod ?p"
    using is_prime_gt_1 [OF assms(2)] by (simp add: g big_Exp_def power_mod p flip: power_mult) (simp add: ac_simps)
  moreover have "es_G k < ?p" using is_prime_gt_1 [OF assms(2)] by (simp add: g big_Exp_def)
  moreover have "1 < es_G k" using len BitLen_1 [of "es_G k"] by (cases "es_G k = 0 \<or> es_G k = 1") auto
  ultimately show ?thesis by simp
qed

subsection \<open>Examples\<close>

text \<open>Two users of the system with generator 2 modulo the prime \<open>demo_P\<close>; the second one decrypts first.\<close>

definition el_demo_key :: el_PrivateKey where
  "el_demo_key = \<lparr>ek_P = demo_P, ek_Q = 3, ek_G = 2, ek_Y = 2, ek_X = 1\<rparr>"

definition el_demo_key2 :: el_PrivateKey where
  "el_demo_key2 = \<lparr>ek_P = demo_P, ek_Q = 3, ek_G = 2, ek_Y = 4, ek_X = 2\<rparr>"

lemma el_demo_BitLen: "big_BitLen demo_P = 153"
  using BitLen_unique [of 152 demo_P] by (simp add: demo_P_def)

lemma el_demo_draw: "el_randHelp (0 # random) 3 = Inr (1, random)"
  by (simp add: el_randHelp_def rand_Int_def big_BitLen.simps rand_Int_loop.simps top_mask_def Let_def bigInt_def)

lemma el_demo_encrypt: "el_encrypt_chain [0, 0] [el_demo_key, el_demo_key2] m = Inr ([2, 2], 4 * (2 * m), [])"
  by (simp add: el_Encrypt_def el_demo_key_def el_demo_key2_def el_demo_draw big_Exp_def demo_P_def)

theorem el_end_to_end_witness:
  "\<exists>m D. el_PrepareMsg [104, 105] 153 = Inr (Inr m) \<and>
     el_decrypt_chain [(el_demo_key2, 2), (el_demo_key, 2)] (4 * (2 * m)) = Inr D \<and> el_ExtractMsg D = Inr [104, 105]"
proof -
  obtain m where m: "el_PrepareMsg [104, 105] 153 = Inr (Inr m)"
    using el_Prepare_ok [of 153 "[104, 105]"] by (auto simp: el_maxsize_def)
  have "\<exists>D. el_decrypt_chain [(el_demo_key2, 2), (el_demo_key, 2)] (4 * (2 * m)) = Inr D \<and> el_ExtractMsg D = Inr [104, 105]"
  proof (rule el_end_to_end [OF prime_demo_P _ _ _ _ _ el_demo_encrypt])
    show "int (length [104, 105 :: byte]) + 3 \<le> el_maxsize (int (big_BitLen demo_P))"
      by (simp add: el_demo_BitLen el_maxsize_def)
    show "\<forall>k \<in> set [el_demo_key, el_demo_key2]. el_key_ok demo_P 2 k"
      by (simp add: el_key_ok_def el_demo_key_def el_demo_key2_def big_Exp_def demo_P_def)
    show "mset [(el_demo_key2, 2), (el_demo_key, 2)] = mset (zip [el_demo_key, el_demo_key2] [2, 2])"
      by simp
    show "el_PrepareMsg [104, 105] (int (big_BitLen demo_P)) = Inr (Inr m)" using m by (simp add: el_demo_BitLen)
  qed (simp_all add: demo_P_def)
  with m show ?thesis by blast
qed

text \<open>The generator 2 of the system with \<open>P = 11\<close> and \<open>Q = 5\<close> does not have order 5.\<close>

lemma el_demo_GenSysKey:
  "el_GenSysKey (\<lambda>random bits. (Inr 5, random)) is_prime [0, 1] 3 = Some (Inr (Inr \<lparr>es_P = 11, es_Q = 5, es_G = 2\<rparr>, []))"
proof -
  have prime: "is_prime 5" "is_prime 11" by code_simp+
  have "el_randHelp [0, 1] 10 = Inr (1, [1])" "el_randHelp [1] 5 = Inr (2, [])" "big_BitLen 2 = 2"
    by (code_simp)+
  then show ?thesis
    by (simp add: el_GenSysKey_def el_draw_p.simps [of _ _ "[0, 1]"] el_draw_q.simps [of _ _ "[0, 1]"]
      el_draw_g.simps [of _ _ _ "[1]"] prime Let_def big_Exp_def)
qed

theorem el_generator_order_witness:
  "\<exists>k. el_GenSysKey (\<lambda>random bits. (Inr 5, random)) is_prime [0, 1] 3 = Some (Inr (Inr k, [])) \<and>
     es_G k ^ (2 * es_Q k) mod es_P k = 1 \<and> es_G k ^ es_Q k mod es_P k \<noteq> 1"
proof -
  let ?k = "\<lparr>es_P = 11, es_Q = 5, es_G = 2\<rparr>"
  have "is_prime (es_P ?k)" by code_simp
  from el_generator_order [OF el_demo_GenSysKey this] show ?thesis
    using el_demo_GenSysKey by (intro exI [of _ ?k]) simp
qed

end
