(* ===== verification/Lab_Gob.thy ===== *)
theory Lab_Gob
  imports Egg_Prelude
begin

text \<open>
  \<open>labgob/labgob.go\<close>: the checks that the wrapper of \<open>encoding/gob\<close> makes before it encodes or decodes.

  \<^item> A \<open>reflect.Type\<close> is a number; the table \<open>types\<close> describes it, so that types may be recursive. The
    types that were checked and the number of errors are the global variables of the package,
    the pair that the checks thread through.
  \<^item> \<open>checkType\<close> recurses through the table and stops at a type that was checked before. The first argument bounds
    the depth of the recursion, None where it is too small: one more than the number of types
    in the table is enough, since every level checks a new type.
  \<^item> A \<open>reflect.Value\<close> is a tree of structs, pointers and basic values with a flag for the zero value. Names of fields
    are ASCII, as all names in the repository are.

  The lemmas: \<open>checkType\<close> returns, checks exactly the types that are reachable, and counts every lower-case field
  of them once; decoding into zero values gives no warning.
\<close>

datatype type_desc =
    TStruct string "(string \<times> nat) list"
  | TElem nat
  | TMap nat nat
  | TOther

type_synonym gob_state = "nat set \<times> int"

definition IsUpper_first :: "string \<Rightarrow> bool" where
  "IsUpper_first name =
     (case name of [] \<Rightarrow> False | ch # _ \<Rightarrow> 65 \<le> (of_char ch :: nat) \<and> (of_char ch :: nat) \<le> 90)"

fun checkType :: "nat \<Rightarrow> (nat \<Rightarrow> type_desc) \<Rightarrow> nat \<Rightarrow> gob_state \<Rightarrow> gob_state option"
and checkFields :: "nat \<Rightarrow> (nat \<Rightarrow> type_desc) \<Rightarrow> (string \<times> nat) list \<Rightarrow> gob_state \<Rightarrow> gob_state option" where
  "checkType 0 types t st = None"
| "checkType (Suc fuel) types t (checked, errorCount) =
     (if t \<in> checked then Some (checked, errorCount)
      else let checked = insert t checked
      in case types t of
           TStruct _ fields \<Rightarrow> checkFields fuel types fields (checked, errorCount)
         | TElem elem \<Rightarrow> checkType fuel types elem (checked, errorCount)
         | TMap key elem \<Rightarrow> Option.bind (checkType fuel types elem (checked, errorCount)) (checkType fuel types key)
         | TOther \<Rightarrow> Some (checked, errorCount))"
| "checkFields fuel types [] st = Some st"
| "checkFields fuel types ((name, t) # fields) (checked, errorCount) =
     Option.bind (checkType fuel types t (checked, if \<not> IsUpper_first name then errorCount + 1 else errorCount))
       (checkFields fuel types fields)"

definition checkValue :: "nat \<Rightarrow> (nat \<Rightarrow> type_desc) \<Rightarrow> ('v \<Rightarrow> nat) \<Rightarrow> 'v \<Rightarrow> gob_state \<Rightarrow> gob_state option" where
  "checkValue fuel types TypeOf v st = checkType fuel types (TypeOf v) st"

datatype gvalue =
    VStruct "(string \<times> gvalue) list"
  | VPtr "gvalue option"
  | VBasic string bool
  | VOther

text \<open>The number of errors and the warnings printed: only the first error prints one.\<close>

fun checkDefault1 :: "gvalue \<Rightarrow> nat \<Rightarrow> string \<Rightarrow> int \<times> string list \<Rightarrow> int \<times> string list"
and checkDefault_fields :: "(string \<times> gvalue) list \<Rightarrow> nat \<Rightarrow> string \<Rightarrow> int \<times> string list \<Rightarrow> int \<times> string list" where
  "checkDefault1 v depth name st =
     (if depth > 3 then st
      else case v of
        VStruct fields \<Rightarrow> checkDefault_fields fields depth name st
      | VPtr None \<Rightarrow> st
      | VPtr (Some e) \<Rightarrow> checkDefault1 e (depth + 1) name st
      | VBasic typeName zero \<Rightarrow>
          if zero then st
          else (fst st + 1, if fst st < 1 then snd st @ [if name = '''' then typeName else name] else snd st)
      | VOther \<Rightarrow> st)"
| "checkDefault_fields [] depth name st = st"
| "checkDefault_fields ((f, v) # fields) depth name st =
     checkDefault_fields fields depth name
       (checkDefault1 v (depth + 1) (if name \<noteq> '''' then name @ ''.'' @ f else f) st)"

definition checkDefault :: "gvalue option \<Rightarrow> int \<times> string list \<Rightarrow> int \<times> string list" where
  "checkDefault v st = (case v of None \<Rightarrow> st | Some v \<Rightarrow> checkDefault1 v 1 '''' st)"

text \<open>
  The operations of the package. The codec of \<open>encoding/gob\<close> is an argument, a function on its own state; the global variables are
  the checked types, the error count and the warnings printed by \<open>checkDefault\<close>.
\<close>

type_synonym gob_globals = "gob_state \<times> string list"

definition lab_check :: "nat \<Rightarrow> (nat \<Rightarrow> type_desc) \<Rightarrow> ('v \<Rightarrow> nat) \<Rightarrow> 'v \<Rightarrow> gob_globals \<Rightarrow> gob_globals option" where
  "lab_check fuel types TypeOf e gs = map_option (\<lambda>st. (st, snd gs)) (checkValue fuel types TypeOf e (fst gs))"

definition lab_Encode :: "nat \<Rightarrow> (nat \<Rightarrow> type_desc) \<Rightarrow> ('v \<Rightarrow> nat) \<Rightarrow> ('v \<Rightarrow> 's \<Rightarrow> 'e \<times> 's) \<Rightarrow> 'v \<Rightarrow> gob_globals \<times> 's \<Rightarrow>
    ('e \<times> gob_globals \<times> 's) option" where
  "lab_Encode fuel types TypeOf gob_Encode e st =
     map_option (\<lambda>gs. let (err, s) = gob_Encode e (snd st) in (err, gs, s)) (lab_check fuel types TypeOf e (fst st))"

definition lab_Decode :: "nat \<Rightarrow> (nat \<Rightarrow> type_desc) \<Rightarrow> ('v \<Rightarrow> nat) \<Rightarrow> ('v \<Rightarrow> gvalue option) \<Rightarrow> ('v \<Rightarrow> 's \<Rightarrow> 'e \<times> 's) \<Rightarrow> 'v \<Rightarrow> gob_globals \<times> 's \<Rightarrow>
    ('e \<times> gob_globals \<times> 's) option" where
  "lab_Decode fuel types TypeOf ValueOf gob_Decode e st =
     map_option (\<lambda>gs.
         let (n, warnings) = checkDefault (ValueOf e) (snd (fst gs), snd gs); (err, s) = gob_Decode e (snd st)
         in (err, ((fst (fst gs), n), warnings), s))
       (lab_check fuel types TypeOf e (fst st))"

definition lab_Register :: "nat \<Rightarrow> (nat \<Rightarrow> type_desc) \<Rightarrow> ('v \<Rightarrow> nat) \<Rightarrow> ('v \<Rightarrow> 's \<Rightarrow> 's) \<Rightarrow> 'v \<Rightarrow> gob_globals \<times> 's \<Rightarrow> (gob_globals \<times> 's) option" where
  "lab_Register fuel types TypeOf gob_Register e st =
     map_option (\<lambda>gs. (gs, gob_Register e (snd st))) (lab_check fuel types TypeOf e (fst st))"

definition lab_EncodeValue :: "nat \<Rightarrow> (nat \<Rightarrow> type_desc) \<Rightarrow> ('v \<Rightarrow> nat) \<Rightarrow> ('x \<Rightarrow> 'v) \<Rightarrow> ('x \<Rightarrow> 's \<Rightarrow> 'e \<times> 's) \<Rightarrow> 'x \<Rightarrow> gob_globals \<times> 's \<Rightarrow>
    ('e \<times> gob_globals \<times> 's) option" where
  "lab_EncodeValue fuel types TypeOf Interface gob_EncodeValue value st =
     map_option (\<lambda>gs. let (err, s) = gob_EncodeValue value (snd st) in (err, gs, s)) (lab_check fuel types TypeOf (Interface value) (fst st))"

definition lab_RegisterName :: "nat \<Rightarrow> (nat \<Rightarrow> type_desc) \<Rightarrow> ('v \<Rightarrow> nat) \<Rightarrow> (string \<Rightarrow> 'v \<Rightarrow> 's \<Rightarrow> 's) \<Rightarrow> string \<Rightarrow> 'v \<Rightarrow> gob_globals \<times> 's \<Rightarrow>
    (gob_globals \<times> 's) option" where
  "lab_RegisterName fuel types TypeOf gob_RegisterName name e st =
     map_option (\<lambda>gs. (gs, gob_RegisterName name e (snd st))) (lab_check fuel types TypeOf e (fst st))"

subsection \<open>The types that are checked\<close>

definition children :: "(nat \<Rightarrow> type_desc) \<Rightarrow> nat \<Rightarrow> nat set" where
  "children types t = (case types t of TStruct _ fields \<Rightarrow> snd ` set fields | TElem e \<Rightarrow> {e} | TMap k e \<Rightarrow> {e, k} | TOther \<Rightarrow> {})"

definition lower_in :: "(string \<times> nat) list \<Rightarrow> int" where
  "lower_in fields = int (length (filter (\<lambda>f. \<not> IsUpper_first (fst f)) fields))"

definition lower :: "(nat \<Rightarrow> type_desc) \<Rightarrow> nat \<Rightarrow> int" where
  "lower types t = (case types t of TStruct _ fields \<Rightarrow> lower_in fields | _ \<Rightarrow> 0)"

definition contains :: "(nat \<Rightarrow> type_desc) \<Rightarrow> (nat \<times> nat) set" where
  "contains types = {(t, u). u \<in> children types t}"

text \<open>
  The result of checking the types \<open>starts\<close>, with \<open>k\<close> errors of its own: the new types are closed under
  containment, come from \<open>starts\<close>, and their lower-case fields are counted.
\<close>

definition checks :: "(nat \<Rightarrow> type_desc) \<Rightarrow> nat set \<Rightarrow> nat set \<Rightarrow> int \<Rightarrow> gob_state \<Rightarrow> gob_state \<Rightarrow> bool" where
  "checks types U starts k st st' \<longleftrightarrow>
     fst st \<subseteq> fst st' \<and> starts \<subseteq> fst st' \<and> fst st' \<subseteq> fst st \<union> U \<and>
     (\<forall>u \<in> fst st' - fst st. children types u \<subseteq> fst st' \<and> (\<exists>v \<in> starts. (v, u) \<in> (contains types)\<^sup>*)) \<and>
     snd st' = snd st + k + (\<Sum>u \<in> fst st' - fst st. lower types u)"

lemma checks_trans:
  assumes "finite U" and ab: "checks types U A k a b" and bc: "checks types U B l b c"
  shows "checks types U (A \<union> B) (k + l) a c"
proof -
  have sub: "fst a \<subseteq> fst b" "fst b \<subseteq> fst c" "fst b \<subseteq> fst a \<union> U" "fst c \<subseteq> fst b \<union> U"
    using ab bc by (simp_all add: checks_def)
  have split: "fst c - fst a = (fst b - fst a) \<union> (fst c - fst b)" using sub by blast
  have "finite (fst b - fst a)" "finite (fst c - fst b)"
    using sub finite_subset [OF _ assms(1)] by (metis Diff_subset_conv)+
  then have "(\<Sum>u \<in> fst c - fst a. lower types u) = (\<Sum>u \<in> fst b - fst a. lower types u) + (\<Sum>u \<in> fst c - fst b. lower types u)"
    unfolding split by (rule sum.union_disjoint) blast
  moreover have "children types u \<subseteq> fst c \<and> (\<exists>v \<in> A \<union> B. (v, u) \<in> (contains types)\<^sup>*)" if "u \<in> fst c - fst a" for u
  proof (cases "u \<in> fst b")
    case True
    with that ab have "children types u \<subseteq> fst b" "\<exists>v \<in> A. (v, u) \<in> (contains types)\<^sup>*" by (simp_all add: checks_def)
    with sub show ?thesis by blast
  next
    case False
    with that bc have "children types u \<subseteq> fst c" "\<exists>v \<in> B. (v, u) \<in> (contains types)\<^sup>*" by (simp_all add: checks_def)
    then show ?thesis by blast
  qed
  moreover have "A \<union> B \<subseteq> fst c" "fst c \<subseteq> fst a \<union> U"
    using ab bc sub unfolding checks_def by blast+
  moreover have "snd c = snd a + k + l + ((\<Sum>u \<in> fst b - fst a. lower types u) + (\<Sum>u \<in> fst c - fst b. lower types u))"
    using ab bc by (simp add: checks_def)
  ultimately show ?thesis using sub unfolding checks_def by (simp add: subset_trans [OF sub(1,2)])
qed

lemma checks_node:
  assumes "finite U" and t: "t \<notin> ck" "t \<in> U" and "checks types U (children types t) (lower types t) (insert t ck, n) st"
  shows "checks types U {t} 0 (ck, n) st"
proof -
  let ?C = "fst st"
  have sub: "insert t ck \<subseteq> ?C" "?C \<subseteq> insert t ck \<union> U" and cl: "children types t \<subseteq> ?C"
    and below: "\<forall>u \<in> ?C - insert t ck. children types u \<subseteq> ?C \<and> (\<exists>v \<in> children types t. (v, u) \<in> (contains types)\<^sup>*)"
    and n: "snd st = n + lower types t + (\<Sum>u \<in> ?C - insert t ck. lower types u)"
    using assms(4) by (simp_all add: checks_def)
  have eq: "?C - ck = insert t (?C - insert t ck)" using sub t by blast
  have fin: "finite (?C - insert t ck)" using sub finite_subset [OF _ assms(1)] by (metis Diff_subset_conv)
  have "(\<Sum>u \<in> ?C - ck. lower types u) = lower types t + (\<Sum>u \<in> ?C - insert t ck. lower types u)"
    by (subst eq, subst sum.insert [OF fin]) simp_all
  moreover have "children types u \<subseteq> ?C \<and> (t, u) \<in> (contains types)\<^sup>*" if "u \<in> ?C - ck" for u
  proof (cases "u = t")
    case False
    with that below obtain v where "v \<in> children types t" "(v, u) \<in> (contains types)\<^sup>*" "children types u \<subseteq> ?C" by blast
    then show ?thesis by (auto simp: contains_def intro: converse_rtrancl_into_rtrancl)
  qed (use cl in simp)
  moreover have "ck \<subseteq> ?C" "{t} \<subseteq> ?C" "?C \<subseteq> ck \<union> U" using sub t by blast+
  ultimately show ?thesis using n unfolding checks_def by simp
qed

lemma checks_refl: "starts \<subseteq> fst st \<Longrightarrow> checks types U starts 0 st st"
  by (simp add: checks_def)

lemma checks_count: "checks types U starts k (ck, n + d) st \<Longrightarrow> checks types U starts (k + d) (ck, n) st"
  by (simp add: checks_def)

text \<open>Enough fuel: one more than the number of types not yet checked.\<close>

definition type_checks :: "(nat \<Rightarrow> type_desc) \<Rightarrow> nat set \<Rightarrow> nat \<Rightarrow> bool" where
  "type_checks types U fuel \<longleftrightarrow> (\<forall>t ck n. card (U - ck) < fuel \<longrightarrow> t \<in> U \<longrightarrow>
     (\<exists>st. checkType fuel types t (ck, n) = Some st \<and> checks types U {t} 0 (ck, n) st))"

lemma card_unchecked: "finite U \<Longrightarrow> checks types U A k (ck, n) (ck', n') \<Longrightarrow> card (U - ck') \<le> card (U - ck)"
  by (intro card_mono) (auto simp: checks_def)

lemma checkFields_checks:
  assumes "type_checks types U fuel" and "finite U" and "card (U - ck) < fuel" and "snd ` set fields \<subseteq> U"
  shows "\<exists>st. checkFields fuel types fields (ck, n) = Some st \<and>
    checks types U (snd ` set fields) (lower_in fields) (ck, n) st"
  using assms(3,4)
proof (induction fields arbitrary: ck n)
  case Nil
  then show ?case by (simp add: checks_refl lower_in_def)
next
  case (Cons f fields)
  obtain name t where f: "f = (name, t)" by fastforce
  define d where "d = (if IsUpper_first name then 0 else 1 :: int)"
  have t: "t \<in> U" and sub: "snd ` set fields \<subseteq> U" using Cons.prems(2) by (simp_all add: f)
  obtain ck1 n1 where one: "checkType fuel types t (ck, n + d) = Some (ck1, n1)"
    and c1: "checks types U {t} 0 (ck, n + d) (ck1, n1)"
    using assms(1) Cons.prems(1) t unfolding type_checks_def by fastforce
  from checks_count [OF c1] have c1': "checks types U {t} d (ck, n) (ck1, n1)" by simp
  have "card (U - ck1) < fuel" using card_unchecked [OF assms(2) c1] Cons.prems(1) by simp
  from Cons.IH [OF this sub] obtain st where "checkFields fuel types fields (ck1, n1) = Some st"
    and "checks types U (snd ` set fields) (lower_in fields) (ck1, n1) st" by blast
  with one checks_trans [OF assms(2) c1'] show ?case
    by (cases "IsUpper_first name") (auto simp: f d_def lower_in_def)
qed

lemma checkType_checks:
  assumes "finite U" and "\<forall>u \<in> U. children types u \<subseteq> U"
  shows "type_checks types U fuel"
proof (induction fuel)
  case 0
  then show ?case by (simp add: type_checks_def)
next
  case (Suc fuel)
  have "\<exists>st. checkType (Suc fuel) types t (ck, n) = Some st \<and> checks types U {t} 0 (ck, n) st"
    if card: "card (U - ck) < Suc fuel" and t: "t \<in> U" for t ck n
  proof (cases "t \<in> ck")
    case True
    then show ?thesis by (simp add: checks_refl)
  next
    case False
    let ?st = "(insert t ck, n)"
    have "card (U - insert t ck) < card (U - ck)"
      using assms(1) t False by (intro psubset_card_mono) auto
    then have less: "card (U - insert t ck) < fuel" using card by simp
    have sub: "children types t \<subseteq> U" using assms(2) t by blast
    have rec: "\<exists>st. checkType fuel types u (c, m) = Some st \<and> checks types U {u} 0 (c, m) st"
      if "card (U - c) < fuel" and "u \<in> U" for u c m
      using Suc.IH that by (simp add: type_checks_def)
    have "\<exists>st. checkType (Suc fuel) types t (ck, n) = Some st \<and> checks types U (children types t) (lower types t) ?st st"
    proof (cases "types t")
      case (TStruct name fields)
      with checkFields_checks [OF Suc.IH assms(1) less, of fields n] sub False show ?thesis
        by (simp add: children_def lower_def)
    next
      case (TElem u)
      with rec [OF less, of u n] sub False show ?thesis by (simp add: children_def lower_def)
    next
      case (TMap k e)
      with sub have ke: "k \<in> U" "e \<in> U" by (simp_all add: children_def)
      from rec [OF less ke(2), of n] obtain c m where e: "checkType fuel types e ?st = Some (c, m)"
        and ce: "checks types U {e} 0 ?st (c, m)" by fastforce
      have "card (U - c) < fuel" using card_unchecked [OF assms(1) ce] less by simp
      from rec [OF this ke(1), of m] obtain st where "checkType fuel types k (c, m) = Some st"
        and "checks types U {k} 0 (c, m) st" by blast
      with e checks_trans [OF assms(1) ce] TMap False show ?thesis by (auto simp: children_def lower_def)
    next
      case TOther
      with False show ?thesis by (simp add: children_def lower_def checks_refl)
    qed
    with checks_node [OF assms(1) False t] show ?thesis by blast
  qed
  then show ?case by (simp add: type_checks_def)
qed

text \<open>C26: \<open>labgob\<close> checks every type once. For a finite table of types, recursive or not, \<open>checkType\<close> ends;
  starting afresh it checks exactly the types that the given type contains, directly or not, and adds
  to the error count the number of their lower-case fields.\<close>

theorem checkType_complete:
  assumes "finite U" and "\<forall>u \<in> U. children types u \<subseteq> U" and "t \<in> U"
  shows "checkType (Suc (card U)) types t ({}, n) =
    Some ({u. (t, u) \<in> (contains types)\<^sup>*}, n + (\<Sum>u | (t, u) \<in> (contains types)\<^sup>*. lower types u))"
proof -
  obtain C m where run: "checkType (Suc (card U)) types t ({}, n) = Some (C, m)" and c: "checks types U {t} 0 ({}, n) (C, m)"
    using checkType_checks [OF assms(1,2), of "Suc (card U)"] assms(3) unfolding type_checks_def
    by (metis Diff_empty lessI surj_pair)
  have "u \<in> C" if "(t, u) \<in> (contains types)\<^sup>*" for u
    using that
  proof (induction rule: rtrancl_induct)
    case base
    then show ?case using c by (simp add: checks_def)
  next
    case (step u v)
    then show ?case using c unfolding checks_def contains_def by fastforce
  qed
  then have "C = {u. (t, u) \<in> (contains types)\<^sup>*}" using c unfolding checks_def by auto
  then show ?thesis using run c by (simp add: checks_def)
qed

text \<open>A recursive type with one lower-case field.\<close>

definition demo_types :: "nat \<Rightarrow> type_desc" where
  "demo_types t = (if t = 0 then TStruct ''Node'' [(''Next'', 1), (''val'', 2)] else if t = 1 then TElem 0 else TOther)"

theorem checkType_complete_witness:
  "{u. (0, u) \<in> (contains demo_types)\<^sup>*} = {0, 1, 2} \<and> (\<Sum>u | (0, u) \<in> (contains demo_types)\<^sup>*. lower demo_types u) = 1"
proof -
  have a: "checkType (Suc (card {0, 1, 2 :: nat})) demo_types 0 ({}, 0) =
      Some ({u. (0, u) \<in> (contains demo_types)\<^sup>*}, 0 + (\<Sum>u | (0, u) \<in> (contains demo_types)\<^sup>*. lower demo_types u))"
    by (rule checkType_complete) (auto simp: children_def demo_types_def)
  have b: "checkType (Suc (card {0, 1, 2 :: nat})) demo_types 0 ({}, 0) = Some ({0, 1, 2}, 1)"
    by (simp add: demo_types_def IsUpper_first_def numeral_eq_Suc insert_commute)
  from trans [OF a [symmetric] b] show ?thesis unfolding option.inject prod.inject add_0_left .
qed

subsection \<open>Zero values\<close>

fun all_zero :: "gvalue \<Rightarrow> bool"
and all_zero_fields :: "(string \<times> gvalue) list \<Rightarrow> bool" where
  "all_zero (VStruct fields) = all_zero_fields fields"
| "all_zero (VPtr None) = True"
| "all_zero (VPtr (Some v)) = all_zero v"
| "all_zero (VBasic typeName zero) = zero"
| "all_zero VOther = True"
| "all_zero_fields [] = True"
| "all_zero_fields ((f, v) # fields) = (all_zero v \<and> all_zero_fields fields)"

lemma checkDefault1_zero:
  "all_zero v \<Longrightarrow> checkDefault1 v depth name st = st"
  "all_zero_fields fields \<Longrightarrow> checkDefault_fields fields depth name st = st"
  by (induction v depth name st and fields depth name st rule: checkDefault1_checkDefault_fields.induct)
    (auto split: gvalue.splits option.splits)

text \<open>
  The wrapper is transparent: for a type that was checked before, encoding, and decoding into zero values, change no global variable
  and return what the codec returns.
\<close>

lemma lab_gob_transparent:
  assumes "TypeOf e \<in> fst (fst gs)" and "\<And>v. ValueOf e = Some v \<Longrightarrow> all_zero v"
  shows "lab_Encode (Suc fuel) types TypeOf codec e (gs, s) = Some (fst (codec e s), gs, snd (codec e s))"
    and "lab_Decode (Suc fuel) types TypeOf ValueOf codec e (gs, s) = Some (fst (codec e s), gs, snd (codec e s))"
proof -
  have check: "lab_check (Suc fuel) types TypeOf e gs = Some gs"
    using assms(1) by (cases gs; cases "fst gs") (auto simp: lab_check_def checkValue_def)
  show "lab_Encode (Suc fuel) types TypeOf codec e (gs, s) = Some (fst (codec e s), gs, snd (codec e s))"
    by (simp add: lab_Encode_def check split: prod.split)
  have "checkDefault (ValueOf e) st = st" for st
    using assms(2) by (auto simp: checkDefault_def checkDefault1_zero simp del: checkDefault1.simps split: option.split)
  then show "lab_Decode (Suc fuel) types TypeOf ValueOf codec e (gs, s) = Some (fst (codec e s), gs, snd (codec e s))"
    by (simp add: lab_Decode_def check split: prod.split)
qed

end
