(* ===== verification/Confessions.thy ===== *)
theory Confessions
  imports Client_Props
begin

text \<open>
  The two programs that broadcast confessions: \<open>localconfessions/confessions.go\<close> and \<open>confessions/confessions.go\<close>.

  \<^item> \<open>resultOrderer\<close> of the local program (and its copy \<open>resultOrderer.order\<close> in \<open>anonbcast/config.go\<close>) puts the results of a
    client in the order of their rounds. \<open>order_receive\<close> is one turn of its loop: the slice of
    results received, the next index to apply, and the results it sends.
  \<^item> \<open>local_main\<close> is the loop of the local \<open>main\<close>, on the answers of \<open>Start\<close> and the ordered results. \<open>main_loop\<close> is the loop of
    the other program; what it reads from the client, the terminal, the timers and the channels
    is a list of inputs. Printing is the list of lines printed.
  \<^item> Flags, the terminal and the wiring of server, network and client are not modelled.

  The lemmas: results come out in the order of their rounds, as soon as all earlier ones have arrived, so that
  the local program never stops because of a wrong round; the other one does, when a round ends
  before its result arrives.
\<close>

subsection \<open>Ordering results\<close>

definition no_result :: RoundResult where
  "no_result = \<lparr>rr_Round = - 1, rr_Succeeded = False, rr_Messages = [], rr_MaliciousError = None\<rparr>"

text \<open>The loop that makes room for a round: \<open>n\<close> more results are missing.\<close>

fun make_room :: "nat \<Rightarrow> RoundResult list \<Rightarrow> RoundResult list" where
  "make_room 0 results = results"
| "make_room (Suc n) results = make_room n (results @ [no_result])"

function send_ready :: "RoundResult list \<Rightarrow> nat \<Rightarrow> RoundResult list \<times> nat" where
  "send_ready results applyIndex =
     (if applyIndex < length results \<and> rr_Round (results ! applyIndex) \<noteq> - 1
      then let (sent, i) = send_ready results (applyIndex + 1) in (results ! applyIndex # sent, i)
      else ([], applyIndex))"
  by pat_completeness auto
termination
  by (relation "measure (\<lambda>(results, i). length results - i)") auto

declare send_ready.simps [simp del]

definition order_receive :: "RoundResult list \<times> nat \<Rightarrow> RoundResult \<Rightarrow> (RoundResult list \<times> RoundResult list \<times> nat) go" where
  "order_receive st r =
     (let results = make_room (nat (rr_Round r + 1) - length (fst st)) (fst st)
      in if rr_Round r < 0 then Inl IndexOutOfRange
         else go_bind (go_store results (nat (rr_Round r)) r) (\<lambda>results.
           let (sent, i) = send_ready results (snd st) in Inr (sent, results, i)))"

fun resultOrderer :: "RoundResult list \<times> nat \<Rightarrow> RoundResult list \<Rightarrow> RoundResult list go" where
  "resultOrderer st [] = Inr []"
| "resultOrderer st (r # rs) =
     go_bind (order_receive st r) (\<lambda>(sent, st). go_bind (resultOrderer st rs) (\<lambda>rest. Inr (sent @ rest)))"

text \<open>
  The invariant, for the results \<open>got\<close> so far and the starting index \<open>k\<close>: the slot of a round holds a result of that
  round if one was received, and everything from \<open>k\<close> up to the next index was received, that index not.
\<close>

definition order_inv :: "nat \<Rightarrow> RoundResult set \<Rightarrow> RoundResult list \<times> nat \<Rightarrow> bool" where
  "order_inv k got st \<longleftrightarrow>
     (\<forall>j < length (fst st). fst st ! j = no_result \<or> fst st ! j \<in> got \<and> rr_Round (fst st ! j) = int j) \<and>
     (\<forall>r \<in> got. 0 \<le> rr_Round r \<and> nat (rr_Round r) < length (fst st) \<and> fst st ! nat (rr_Round r) \<noteq> no_result) \<and>
     k \<le> snd st \<and> (\<forall>j \<in> {k..<snd st}. int j \<in> rr_Round ` got) \<and> int (snd st) \<notin> rr_Round ` got"

lemma make_room_eq: "make_room n results = results @ replicate n no_result"
  by (induction n arbitrary: results) (auto simp: replicate_append_same)

lemma send_ready_spec:
  assumes "send_ready results i = (sent, i')"
  shows "i \<le> i' \<and> sent = map ((!) results) [i..<i'] \<and> (\<forall>j \<in> {i..<i'}. j < length results \<and> rr_Round (results ! j) \<noteq> - 1) \<and>
    (i' < length results \<longrightarrow> rr_Round (results ! i') = - 1)"
  using assms
proof (induction results i arbitrary: sent rule: send_ready.induct)
  case (1 results i)
  show ?case
  proof (cases "i < length results \<and> rr_Round (results ! i) \<noteq> - 1")
    case True
    with "1.prems" obtain rest where rest: "send_ready results (i + 1) = (rest, i')" and sent: "sent = results ! i # rest"
      by (subst (asm) send_ready.simps) (auto split: prod.splits)
    from "1.IH" [OF True rest] have IH: "Suc i \<le> i'" "rest = map ((!) results) [Suc i..<i']"
      "\<forall>j \<in> {Suc i..<i'}. j < length results \<and> rr_Round (results ! j) \<noteq> - 1"
      "i' < length results \<longrightarrow> rr_Round (results ! i') = - 1" by auto
    then have "[i..<i'] = i # [Suc i..<i']" by (simp add: upt_rec)
    moreover have "{i..<i'} = insert i {Suc i..<i'}" using IH(1) by auto
    ultimately show ?thesis using IH True sent by auto
  next
    case False
    with "1.prems" show ?thesis by (subst (asm) send_ready.simps) auto
  qed
qed

lemma order_receive_inv:
  assumes inv: "order_inv k got st" and r: "0 \<le> rr_Round r"
  shows "\<exists>sent st'. order_receive st r = Inr (sent, st') \<and> order_inv k (insert r got) st' \<and>
    map rr_Round sent = map int [snd st..<snd st'] \<and> snd st \<le> snd st' \<and> set sent \<subseteq> insert r got"
proof -
  obtain results i where st: "st = (results, i)" by fastforce
  let ?n = "nat (rr_Round r)"
  define room where "room = make_room (nat (rr_Round r + 1) - length results) results"
  define new where "new = room[?n := r]"
  have room: "room = results @ replicate (nat (rr_Round r + 1) - length results) no_result" "?n < length room"
    using r by (auto simp: room_def make_room_eq)
  obtain sent i' where ready: "send_ready new i = (sent, i')" by fastforce
  have run: "order_receive st r = Inr (sent, new, i')"
    using r ready room(2) by (simp add: order_receive_def st new_def room_def [symmetric])
  have slot: "new ! j = no_result \<or> new ! j \<in> insert r got \<and> rr_Round (new ! j) = int j" if "j < length new" for j
    using that inv r room by (cases "j = ?n") (auto simp: new_def order_inv_def st nth_append)
  have full: "0 \<le> rr_Round x \<and> nat (rr_Round x) < length new \<and> new ! nat (rr_Round x) \<noteq> no_result" if "x \<in> insert r got" for x
  proof (cases "nat (rr_Round x) = ?n")
    case True
    with that inv r room(2) show ?thesis by (auto simp: new_def order_inv_def st no_result_def)
  next
    case False
    with that inv r room show ?thesis by (auto simp: new_def order_inv_def st nth_append)
  qed
  have got: "int j \<in> rr_Round ` insert r got \<longleftrightarrow> j < length new \<and> rr_Round (new ! j) \<noteq> - 1" for j
  proof
    assume "int j \<in> rr_Round ` insert r got"
    then obtain x where x: "x \<in> insert r got" "rr_Round x = int j" by (metis imageE)
    from full [OF x(1)] slot [of j] show "j < length new \<and> rr_Round (new ! j) \<noteq> - 1" by (auto simp: x(2))
  next
    assume "j < length new \<and> rr_Round (new ! j) \<noteq> - 1"
    with slot [of j] have "new ! j \<in> insert r got" "int j = rr_Round (new ! j)" by (auto simp: no_result_def)
    then show "int j \<in> rr_Round ` insert r got" by blast
  qed
  from send_ready_spec [OF ready] have ready': "i \<le> i'" "sent = map ((!) new) [i..<i']"
    and each: "\<And>j. j \<in> {i..<i'} \<Longrightarrow> j < length new \<and> rr_Round (new ! j) \<noteq> - 1"
    and stop: "\<not> (i' < length new \<and> rr_Round (new ! i') \<noteq> - 1)" by auto
  have sent: "new ! j \<in> insert r got \<and> rr_Round (new ! j) = int j" if "j \<in> {i..<i'}" for j
    using slot [of j] each [OF that] by (auto simp: no_result_def)
  have "int j \<in> rr_Round ` insert r got" if "j \<in> {k..<i'}" for j
  proof (cases "j < i")
    case True
    with that inv show ?thesis by (auto simp: order_inv_def st)
  next
    case False
    with that each [of j] got [of j] show ?thesis by simp
  qed
  moreover have "k \<le> i'" using inv ready'(1) by (simp add: order_inv_def st)
  moreover have "int i' \<notin> rr_Round ` insert r got" using stop got [of i'] by simp
  ultimately have "order_inv k (insert r got) (new, i')"
    using slot full by (simp add: order_inv_def)
  moreover have "map rr_Round sent = map int [i..<i']" using sent by (simp add: ready'(2))
  moreover have "set sent \<subseteq> insert r got"
  proof
    fix x
    assume "x \<in> set sent"
    then obtain j where "j \<in> {i..<i'}" and "x = new ! j" by (auto simp: ready'(2))
    with sent show "x \<in> insert r got" by blast
  qed
  ultimately show ?thesis using run ready'(1) by (auto simp: st)
qed

lemma resultOrderer_inv:
  assumes "order_inv k got st" and "\<forall>r \<in> set rs. 0 \<le> rr_Round r"
  shows "\<exists>sent st'. resultOrderer st rs = Inr sent \<and> order_inv k (got \<union> set rs) st' \<and>
    map rr_Round sent = map int [snd st..<snd st'] \<and> snd st \<le> snd st' \<and> set sent \<subseteq> got \<union> set rs"
  using assms
proof (induction rs arbitrary: got st)
  case Nil
  then show ?case by (intro exI [of _ "[]"] exI [of _ st]) simp
next
  case (Cons r rs)
  from order_receive_inv [OF Cons.prems(1), of r] Cons.prems(2) obtain sent1 st1
    where one: "order_receive st r = Inr (sent1, st1)" "order_inv k (insert r got) st1"
      "map rr_Round sent1 = map int [snd st..<snd st1]" "snd st \<le> snd st1" "set sent1 \<subseteq> insert r got" by auto
  from Cons.IH [OF one(2)] Cons.prems(2) obtain sent2 st2
    where two: "resultOrderer st1 rs = Inr sent2" "order_inv k (insert r got \<union> set rs) st2"
      "map rr_Round sent2 = map int [snd st1..<snd st2]" "snd st1 \<le> snd st2" "set sent2 \<subseteq> insert r got \<union> set rs" by auto
  have "[snd st..<snd st2] = [snd st..<snd st1] @ [snd st1..<snd st2]"
    using one(4) two(4) upt_add_eq_append [of "snd st" "snd st1" "snd st2 - snd st1"] by simp
  with one two show ?case by (intro exI [of _ "sent1 @ sent2"] exI [of _ st2]) auto
qed

text \<open>C22: results are put in order. For results that arrive in any order, \<open>resultOrderer\<close> sends on results of the
  consecutive rounds from its starting index on, each of them one that it received, and it has
  stopped at a round for which no result has arrived: nothing that could be sent is held back.\<close>

theorem results_in_order:
  assumes "\<forall>r \<in> set rs. 0 \<le> rr_Round r"
  shows "\<exists>sent. resultOrderer ([], k) rs = Inr sent \<and> map rr_Round sent = map int [k..<k + length sent] \<and>
    set sent \<subseteq> set rs \<and> int (k + length sent) \<notin> rr_Round ` set rs"
proof -
  have "order_inv k {} ([], k)" by (simp add: order_inv_def)
  from resultOrderer_inv [OF this assms] obtain sent st' where run: "resultOrderer ([], k) rs = Inr sent"
    and inv: "order_inv k (set rs) st'" and sent: "map rr_Round sent = map int [k..<snd st']" "k \<le> snd st'" "set sent \<subseteq> set rs"
    by auto
  from sent(1) have "length sent = snd st' - k" by (metis length_map length_upt)
  with sent have "snd st' = k + length sent" by simp
  with run sent inv show ?thesis by (auto simp: order_inv_def)
qed

definition demo_round_result :: "int \<Rightarrow> RoundResult" where
  "demo_round_result round = \<lparr>rr_Round = round, rr_Succeeded = True, rr_Messages = [], rr_MaliciousError = None\<rparr>"

theorem results_in_order_witness:
  "\<exists>sent. resultOrderer ([], 0) (map demo_round_result [1, 0, 3]) = Inr sent \<and> map rr_Round sent = map int [0..<0 + length sent] \<and>
    int (0 + length sent) \<notin> {0, 1, 3}"
  using results_in_order [of "map demo_round_result [1, 0, 3]" 0] by (auto simp: demo_round_result_def)

subsection \<open>The local program\<close>

datatype line =
    Starting int
  | RoundSucceeded int "bytes list"
  | RoundFailed int

text \<open>\<open>strings.TrimSuffix\<close> with a newline: the message of the user is the line without it.\<close>

definition TrimSuffix_newline :: "bytes \<Rightarrow> bytes" where
  "TrimSuffix_newline msg = (if msg \<noteq> [] \<and> last msg = 10 then butlast msg else msg)"

definition print_result :: "RoundResult \<Rightarrow> line" where
  "print_result r = (if rr_Succeeded r then RoundSucceeded (rr_Round r) (rr_Messages r) else RoundFailed (rr_Round r))"

text \<open>
  The loop of \<open>main\<close>, in round \<open>i\<close>: \<open>Start\<close> is repeated until it gives no error (\<open>started\<close>), then a result is awaited.
  The inputs are the answers of \<open>Start\<close> and the results received; at the end of the list, or where it is
  not what the loop waits for, the program waits.
\<close>

datatype local_input =
    StartGives "start_error option"
  | OrderedResult RoundResult

fun local_main :: "int \<Rightarrow> bool \<Rightarrow> local_input list \<Rightarrow> line list go" where
  "local_main i False (StartGives (Some err) # xs) = local_main i False xs"
| "local_main i False (StartGives None # xs) = go_bind (local_main i True xs) (\<lambda>lines. Inr (Starting i # lines))"
| "local_main i True (OrderedResult r # xs) =
     (if rr_Round r \<noteq> i then Inl (Fatal ''round not equal to index'')
      else go_bind (local_main (i + 1) False xs) (\<lambda>lines. Inr (print_result r # lines)))"
| "local_main i started _ = Inr []"

fun results_of :: "local_input list \<Rightarrow> RoundResult list" where
  "results_of [] = []"
| "results_of (OrderedResult r # xs) = r # results_of xs"
| "results_of (StartGives e # xs) = results_of xs"

lemma local_main_in_order:
  "map rr_Round (results_of xs) = map int [n..<n + length (results_of xs)] \<Longrightarrow> \<exists>lines. local_main (int n) started xs = Inr lines"
proof (induction "int n" started xs arbitrary: n rule: local_main.induct)
  case (2 xs)
  then show ?case by auto
next
  case (3 r xs)
  let ?rs = "results_of xs"
  have "[n..<n + length (r # ?rs)] = n # [Suc n..<Suc n + length ?rs]" by (simp add: upt_rec)
  moreover have "map rr_Round (r # ?rs) = map int [n..<n + length (r # ?rs)]" using "3.prems" by simp
  ultimately have "map rr_Round (r # ?rs) = map int (n # [Suc n..<Suc n + length ?rs])" by (simp only:)
  then have *: "rr_Round r = int n \<and> map rr_Round ?rs = map int [Suc n..<Suc n + length ?rs]"
    unfolding list.map list.inject .
  then obtain lines where "local_main (int (Suc n)) False xs = Inr lines" using "3.hyps" [of "Suc n"] by auto
  with * show ?case by (simp add: add.commute)
qed auto

text \<open>C23: the local program never meets a wrong round. Whatever results its client produces and in whatever order, and however
  often \<open>Start\<close> fails, the main loop that reads the output of \<open>resultOrderer\<close> never takes the branch
  that ends the program.\<close>

theorem local_main_never_fatal:
  assumes "\<forall>r \<in> set rs. 0 \<le> rr_Round r" and "resultOrderer ([], 0) rs = Inr (results_of xs)"
  shows "\<exists>lines. local_main 0 False xs = Inr lines"
proof -
  have "order_inv 0 {} ([], 0)" by (simp add: order_inv_def)
  from resultOrderer_inv [OF this assms(1)] assms(2) obtain n where rounds: "map rr_Round (results_of xs) = map int [0..<n]" by auto
  moreover have "length (results_of xs) = n" using rounds by (metis length_map length_upt minus_nat.diff_0)
  ultimately show ?thesis using local_main_in_order [of xs 0 False] by simp
qed

theorem local_main_never_fatal_witness:
  "\<exists>lines. local_main 0 False [StartGives (Some NotParticipant), StartGives None, OrderedResult (demo_round_result 0),
     StartGives None, OrderedResult (demo_round_result 1)] = Inr lines"
  by (rule local_main_never_fatal [of "map demo_round_result [1, 0, 3]"])
    (simp_all add: demo_round_result_def order_receive_def send_ready.simps [of "_ # _"] no_result_def numeral_eq_Suc)

subsection \<open>The program over libp2p\<close>

text \<open>
  \<open>Message\<close>: the first line that comes before the timeout, unless it is the poison that another call or the main loop
  sends to take the terminal over; the local program has no timeout.
\<close>

datatype message_event =
    UserLine bytes
  | MessageTimeout

definition poison :: bytes where
  "poison = [112, 111, 105, 115, 111, 110]"

definition confessions_Message :: "message_event \<Rightarrow> bytes" where
  "confessions_Message e =
     (case e of
        UserLine msg \<Rightarrow> if msg = poison then [] else TrimSuffix_newline msg
      | MessageTimeout \<Rightarrow> TrimSuffix_newline [])"

definition local_Message :: "bytes \<Rightarrow> bytes" where
  "local_Message msg = TrimSuffix_newline msg"

text \<open>
  The main loop as a machine: where it stands, and what it reads there. \<open>Joining\<close> is the inner loop that waits until the
  client takes part, \<open>Pressing\<close> the \<open>select\<close> after the prompt, \<open>Awaiting\<close> the \<open>select\<close> that waits for the result. An input that
  the program does not read where it stands changes nothing.
\<close>

datatype main_at = Top | Joining | Rejoining | Pressing | Launching | LaunchFailed | Awaiting | Ticked

datatype 'c main_input =
    LastSM "'c StateMachine"
  | TimerFires
  | TickerFires
  | SignalComes
  | LineComes bytes
  | ResultComes RoundResult
  | LaunchGives "start_error option"

datatype main_next =
    Continue main_at int
  | Quits
  | Dies go_panic

definition zero_RoundResult :: RoundResult where
  "zero_RoundResult = \<lparr>rr_Round = 0, rr_Succeeded = False, rr_Messages = [], rr_MaliciousError = None\<rparr>"

definition conclude :: "int \<Rightarrow> RoundResult \<Rightarrow> line list \<times> main_next" where
  "conclude i r =
     (if rr_Round r \<noteq> i then ([], Dies (Fatal ''round not equal to index''))
      else ([print_result r], Continue Top (i + 1)))"

definition look :: "uuid \<Rightarrow> int \<Rightarrow> 'c StateMachine \<Rightarrow> line list \<times> main_next" where
  "look pid i sm =
     (if sm_Round sm > i then ([], Continue Top (i + 1))
      else case CurrentRoundInfo False sm of
        Inl panic \<Rightarrow> ([], Dies panic)
      | Inr ri \<Rightarrow> ([], Continue (if participated pid ri then Pressing else Joining) i))"

definition main_step :: "uuid \<Rightarrow> main_at \<Rightarrow> int \<Rightarrow> 'c main_input \<Rightarrow> line list \<times> main_next" where
  "main_step pid at i x =
     (case at of
        Top \<Rightarrow> (case x of LastSM sm \<Rightarrow> look pid i sm | _ \<Rightarrow> ([], Continue at i))
      | Joining \<Rightarrow> (case x of TimerFires \<Rightarrow> ([], Continue Rejoining i) | SignalComes \<Rightarrow> ([], Quits) | _ \<Rightarrow> ([], Continue at i))
      | Rejoining \<Rightarrow> (case x of LastSM sm \<Rightarrow> look pid i sm | _ \<Rightarrow> ([], Continue at i))
      | Pressing \<Rightarrow>
          (case x of
             LineComes msg \<Rightarrow> (if msg \<noteq> poison then [Starting i] else [], Continue Launching i)
           | ResultComes r \<Rightarrow> conclude i r
           | SignalComes \<Rightarrow> ([], Quits)
           | _ \<Rightarrow> ([], Continue at i))
      | Launching \<Rightarrow>
          (case x of
             LaunchGives None \<Rightarrow> ([], Continue Awaiting i)
           | LaunchGives (Some err) \<Rightarrow> ([], Continue LaunchFailed i)
           | _ \<Rightarrow> ([], Continue at i))
      | LaunchFailed \<Rightarrow>
          (case x of LastSM sm \<Rightarrow> ([], Continue Top (if sm_Round sm > i then i + 1 else i)) | _ \<Rightarrow> ([], Continue at i))
      | Awaiting \<Rightarrow>
          (case x of
             ResultComes r \<Rightarrow> conclude i r
           | SignalComes \<Rightarrow> ([], Quits)
           | TickerFires \<Rightarrow> ([], Continue Ticked i)
           | _ \<Rightarrow> ([], Continue at i))
      | Ticked \<Rightarrow>
          (case x of
             LastSM sm \<Rightarrow> if sm_Round sm > i then conclude i zero_RoundResult else ([], Continue Awaiting i)
           | _ \<Rightarrow> ([], Continue at i)))"

fun main_loop :: "uuid \<Rightarrow> main_next \<Rightarrow> 'c main_input list \<Rightarrow> line list \<times> main_next" where
  "main_loop pid (Continue at i) (x # xs) =
     (case main_step pid at i x of (lines, next) \<Rightarrow>
       (case main_loop pid next xs of (lines', next') \<Rightarrow> (lines @ lines', next')))"
| "main_loop pid next _ = ([], next)"

text \<open>
  When a round ends and the ticker notices it before the result has come over the channel, the program goes on with
  the zero result: it dies in every round but the first, and reports the first as failed.
\<close>

lemma round_end_without_result:
  assumes "sm_Round sm > i"
  shows "main_loop pid (Continue Awaiting i) [TickerFires, LastSM sm] =
    (if i = 0 then ([RoundFailed 0], Continue Top 1) else ([], Dies (Fatal ''round not equal to index'')))"
  using assms by (simp add: main_step_def conclude_def zero_RoundResult_def print_result_def)

text \<open>A result that was not read in its own round ends the program in a later one.\<close>

lemma late_result: "rr_Round r \<noteq> i \<Longrightarrow> snd (main_step pid Pressing i (ResultComes r)) = Dies (Fatal ''round not equal to index'')"
  by (simp add: main_step_def conclude_def)

end
