(* ===== verification/Lab_Rpc.thy ===== *)
theory Lab_Rpc
  imports Egg_Prelude
begin

text \<open>
  \<open>labrpc/labrpc.go\<close>, the simulated network, and \<open>network/labrpc_connection_provider.go\<close>, which hides it behind the
  interface of \<open>network/connection_provider.go\<close>.

  \<^item> Go maps are functions, a missing entry being the zero value. A server is a pointer that the
    network compares with other pointers, so servers live in a store \<open>nw_objs\<close> and maps hold their addresses.
  \<^item> The package \<open>encoding/gob\<close> behind \<open>labgob\<close> and the types of \<open>reflect\<close> are the record \<open>gob\<close>: the type of a
    value, its encoding with a flag for success, decoding into a fresh variable of a
    type, and the zero value of a type. A method takes the state \<open>'w\<close> of the program and the arguments to the reply.
  \<^item> \<open>processReq\<close> runs concurrently with everything else: a \<open>call\<close> is one activation of it. The events of
    \<open>net_step\<close> are its sections between two accesses to shared state, the turn of the goroutine that
    runs the handler, and the calls of the administration. \<open>ca_runs\<close> records the executions of
    the handler, with arguments and reply. The body of a handler is one turn, on the state as it is then. Delays, that
    of a long reordering included, have no effect but on the order of events.

  The lemmas: a request is executed at most once, a positive answer carries the reply of that
  execution, and over a reliable network a call to a connected server succeeds.
\<close>

datatype name = IntName int | StrName string

record 'v gob =
  gob_type :: "'v \<Rightarrow> string"
  gob_encode :: "'v \<Rightarrow> bool \<times> bytes"
  gob_decode :: "string \<Rightarrow> bytes \<Rightarrow> 'v option"
  gob_zero :: "string \<Rightarrow> 'v"

record reqMsg =
  rq_endname :: name
  rq_svcMeth :: string
  rq_argsType :: string
  rq_args :: bytes

record replyMsg =
  rp_ok :: bool
  rp_reply :: bytes

record ClientEnd =
  ce_endname :: name

subsection \<open>Services and servers\<close>

text \<open>What \<open>MakeService\<close> reads of a method by reflection: its package path, its parameters and its results.\<close>

record ('w, 'v) labMethod =
  lm_Name :: string
  lm_PkgPath :: string
  lm_In :: "(string \<times> bool) list"
  lm_Out :: "string list"
  lm_replyType :: string
  lm_call :: "'w \<Rightarrow> 'v \<Rightarrow> 'v \<times> 'w"

record ('w, 'v) Service =
  svc_name :: string
  svc_methods :: "string \<Rightarrow> ('w, 'v) labMethod option"

record ('w, 'v) labServer =
  rs_services :: "string \<Rightarrow> ('w, 'v) Service option"
  rs_count :: int

text \<open>
  The name of a parameter type and whether it is a pointer are the pairs of \<open>lm_In\<close>, the receiver first.
\<close>

definition suitable :: "('w, 'v) labMethod \<Rightarrow> bool" where
  "suitable m \<longleftrightarrow> \<not> (lm_PkgPath m \<noteq> '''' \<or> length (lm_In m) \<noteq> 4 \<or> fst (lm_In m ! 1) \<noteq> ''Context'' \<or>
     \<not> snd (lm_In m ! 3) \<or> length (lm_Out m) \<noteq> 1 \<or> lm_Out m ! 0 \<noteq> ''error'')"

fun add_methods :: "('w, 'v) labMethod list \<Rightarrow> (string \<Rightarrow> ('w, 'v) labMethod option) \<Rightarrow>
    (string \<Rightarrow> ('w, 'v) labMethod option)" where
  "add_methods [] methods = methods"
| "add_methods (m # ms) methods = add_methods ms (if suitable m then methods(lm_Name m \<mapsto> m) else methods)"

definition MakeService :: "string \<Rightarrow> ('w, 'v) labMethod list \<Rightarrow> ('w, 'v) Service" where
  "MakeService typeName typMethods = \<lparr>svc_name = typeName, svc_methods = add_methods typMethods Map.empty\<rparr>"

definition svc_dispatch :: "'v gob \<Rightarrow> ('w, 'v) Service \<Rightarrow> string \<Rightarrow> reqMsg \<Rightarrow> 'w \<Rightarrow> (replyMsg \<times> ('v \<times> 'v) \<times> 'w) go" where
  "svc_dispatch g svc methname req w =
     (case svc_methods svc methname of
        None \<Rightarrow> Inl (Fatal ''labrpc.Service.dispatch(): unknown method'')
      | Some method \<Rightarrow>
          let args = (case gob_decode g (rq_argsType req) (rq_args req) of
                        None \<Rightarrow> gob_zero g (rq_argsType req) | Some v \<Rightarrow> v);
              (replyv, w) = lm_call method w args
          in Inr (\<lparr>rp_ok = True, rp_reply = snd (gob_encode g replyv)\<rparr>, (args, replyv), w))"

definition lab_MakeServer :: "('w, 'v) labServer" where
  "lab_MakeServer = \<lparr>rs_services = Map.empty, rs_count = 0\<rparr>"

definition AddService :: "('w, 'v) labServer \<Rightarrow> ('w, 'v) Service \<Rightarrow> ('w, 'v) labServer" where
  "AddService rs svc = rs\<lparr>rs_services := (rs_services rs)(svc_name svc \<mapsto> svc)\<rparr>"

text \<open>\<open>strings.LastIndex\<close> of a dot: \<open>None\<close> for -1.\<close>

fun LastIndex_dot :: "string \<Rightarrow> nat option" where
  "LastIndex_dot [] = None"
| "LastIndex_dot (ch # s) =
     (case LastIndex_dot s of Some i \<Rightarrow> Some (Suc i) | None \<Rightarrow> if ch = CHR ''.'' then Some 0 else None)"

definition lab_dispatch :: "'v gob \<Rightarrow> ('w, 'v) labServer \<Rightarrow> reqMsg \<Rightarrow> 'w \<Rightarrow>
    (replyMsg \<times> ('v \<times> 'v) \<times> 'w \<times> ('w, 'v) labServer) go" where
  "lab_dispatch g rs req w =
     (let rs = rs\<lparr>rs_count := rs_count rs + 1\<rparr>
      in case LastIndex_dot (rq_svcMeth req) of
           None \<Rightarrow> Inl SliceBoundsOutOfRange
         | Some dot \<Rightarrow>
             (case rs_services rs (take dot (rq_svcMeth req)) of
                None \<Rightarrow> Inl (Fatal ''labrpc.Server.dispatch(): unknown service'')
              | Some service \<Rightarrow>
                  go_bind (svc_dispatch g service (drop (dot + 1) (rq_svcMeth req)) req w) (\<lambda>(reply, run, w).
                    Inr (reply, run, w, rs))))"

definition server_GetCount :: "('w, 'v) labServer \<Rightarrow> int" where
  "server_GetCount rs = rs_count rs"

subsection \<open>The network\<close>

record ('w, 'v) Network =
  nw_reliable :: bool
  nw_longDelays :: bool
  nw_longReordering :: bool
  nw_ends :: "name \<Rightarrow> ClientEnd option"
  nw_enabled :: "name \<Rightarrow> bool"
  nw_servers :: "name \<Rightarrow> nat option"
  nw_connections :: "name \<Rightarrow> name option"
  nw_done :: bool
  nw_count :: "32 word"
  nw_bytes :: "64 word"
  nw_objs :: "nat \<Rightarrow> ('w, 'v) labServer"

definition MakeNetwork :: "('w, 'v) Network" where
  "MakeNetwork = \<lparr>nw_reliable = True, nw_longDelays = False, nw_longReordering = False, nw_ends = Map.empty,
     nw_enabled = (\<lambda>_. False), nw_servers = Map.empty, nw_connections = Map.empty, nw_done = False, nw_count = 0,
     nw_bytes = 0, nw_objs = (\<lambda>_. lab_MakeServer)\<rparr>"

definition Cleanup :: "('w, 'v) Network \<Rightarrow> ('w, 'v) Network go" where
  "Cleanup rn = (if nw_done rn then Inl ClosedChannel else Inr (rn\<lparr>nw_done := True\<rparr>))"

definition Reliable :: "bool \<Rightarrow> ('w, 'v) Network \<Rightarrow> ('w, 'v) Network" where
  "Reliable yes rn = rn\<lparr>nw_reliable := yes\<rparr>"

definition LongReordering :: "bool \<Rightarrow> ('w, 'v) Network \<Rightarrow> ('w, 'v) Network" where
  "LongReordering yes rn = rn\<lparr>nw_longReordering := yes\<rparr>"

definition LongDelays :: "bool \<Rightarrow> ('w, 'v) Network \<Rightarrow> ('w, 'v) Network" where
  "LongDelays yes rn = rn\<lparr>nw_longDelays := yes\<rparr>"

definition readEndnameInfo :: "('w, 'v) Network \<Rightarrow> name \<Rightarrow> bool \<times> name option \<times> nat option \<times> bool \<times> bool" where
  "readEndnameInfo rn endname =
     (let servername = nw_connections rn endname
      in (nw_enabled rn endname, servername,
          case servername of None \<Rightarrow> None | Some sn \<Rightarrow> nw_servers rn sn, nw_reliable rn, nw_longReordering rn))"

definition isServerDead :: "('w, 'v) Network \<Rightarrow> name \<Rightarrow> name \<Rightarrow> nat \<Rightarrow> bool" where
  "isServerDead rn endname servername server \<longleftrightarrow>
     \<not> nw_enabled rn endname \<or> nw_servers rn servername \<noteq> Some server"

definition MakeEnd :: "('w, 'v) Network \<Rightarrow> name \<Rightarrow> (ClientEnd \<times> ('w, 'v) Network) go" where
  "MakeEnd rn endname =
     (if nw_ends rn endname \<noteq> None then Inl (Fatal ''MakeEnd: already exists'')
      else let e = \<lparr>ce_endname = endname\<rparr>
      in Inr (e, rn\<lparr>nw_ends := (nw_ends rn)(endname \<mapsto> e), nw_enabled := (nw_enabled rn)(endname := False),
           nw_connections := (nw_connections rn)(endname := None)\<rparr>))"

definition AddServer :: "name \<Rightarrow> nat \<Rightarrow> ('w, 'v) Network \<Rightarrow> ('w, 'v) Network" where
  "AddServer servername rs rn = rn\<lparr>nw_servers := (nw_servers rn)(servername \<mapsto> rs)\<rparr>"

definition DeleteServer :: "name \<Rightarrow> ('w, 'v) Network \<Rightarrow> ('w, 'v) Network" where
  "DeleteServer servername rn = rn\<lparr>nw_servers := (nw_servers rn)(servername := None)\<rparr>"

definition Connect :: "name \<Rightarrow> name \<Rightarrow> ('w, 'v) Network \<Rightarrow> ('w, 'v) Network" where
  "Connect endname servername rn = rn\<lparr>nw_connections := (nw_connections rn)(endname \<mapsto> servername)\<rparr>"

definition Enable :: "name \<Rightarrow> bool \<Rightarrow> ('w, 'v) Network \<Rightarrow> ('w, 'v) Network" where
  "Enable endname enabled rn = rn\<lparr>nw_enabled := (nw_enabled rn)(endname := enabled)\<rparr>"

definition GetCount :: "('w, 'v) Network \<Rightarrow> name \<Rightarrow> int go" where
  "GetCount rn servername =
     (case nw_servers rn servername of None \<Rightarrow> Inl NilDereference | Some svr \<Rightarrow> Inr (server_GetCount (nw_objs rn svr)))"

definition GetTotalCount :: "('w, 'v) Network \<Rightarrow> int" where
  "GetTotalCount rn = sint (nw_count rn)"

definition GetTotalBytes :: "('w, 'v) Network \<Rightarrow> int" where
  "GetTotalBytes rn = sint (nw_bytes rn)"

subsection \<open>Calls\<close>

text \<open>
  \<open>Call\<close> up to the point where it sends its request; \<open>call_result\<close> is the rest, from the reply on: \<open>Some v\<close> when it returns
  true with the reply \<open>v\<close>, \<open>None\<close> when it returns false.
\<close>

definition call_request :: "'v gob \<Rightarrow> ClientEnd \<Rightarrow> string \<Rightarrow> 'v \<Rightarrow> reqMsg go" where
  "call_request g e svcMeth args =
     (let (ok, qb) = gob_encode g args
      in if \<not> ok then Inl (Panic ''gob'')
         else Inr \<lparr>rq_endname = ce_endname e, rq_svcMeth = svcMeth, rq_argsType = gob_type g args, rq_args = qb\<rparr>)"

definition call_result :: "'v gob \<Rightarrow> string \<Rightarrow> replyMsg \<Rightarrow> 'v option go" where
  "call_result g replyType rep =
     (if rp_ok rep then
        case gob_decode g replyType (rp_reply rep) of
          None \<Rightarrow> Inl (Fatal ''ClientEnd.Call(): decode reply'')
        | Some reply \<Rightarrow> Inr (Some reply)
      else Inr None)"

text \<open>
  Where an activation of \<open>processReq\<close> stands: before its first look at the network, in the loop that waits for
  the handler (with the server name, the server and the two flags it read), after the
  loop, or answered. The goroutine it starts for the handler has not run, has a reply for the
  channel \<open>ech\<close>, or is done.
\<close>

datatype waiting_at =
    Begin
  | Loop name nat bool bool
  | AfterLoop name nat bool bool "replyMsg option"
  | Ended

datatype handler_at =
    NotStarted
  | Started nat
  | Replying replyMsg
  | Drained

record 'v call =
  ca_req :: reqMsg
  ca_at :: waiting_at
  ca_handler :: handler_at
  ca_answer :: "replyMsg option"
  ca_runs :: "('v \<times> 'v) list"

record ('w, 'v) NetState =
  ns_net :: "('w, 'v) Network"
  ns_world :: 'w
  ns_calls :: "'v call list"

definition no_reply :: replyMsg where
  "no_reply = \<lparr>rp_ok = False, rp_reply = []\<rparr>"

definition answer :: "replyMsg \<Rightarrow> 'v call \<Rightarrow> 'v call" where
  "answer rep ca = ca\<lparr>ca_at := Ended, ca_answer := Some rep\<rparr>"

text \<open>The goroutine of \<open>MakeNetwork\<close> receives a request, counts it and starts \<open>processReq\<close>.\<close>

definition accept :: "('w, 'v) NetState \<Rightarrow> reqMsg \<Rightarrow> ('w, 'v) NetState" where
  "accept ns req =
     (if nw_done (ns_net ns) then ns
      else ns\<lparr>ns_net := (ns_net ns)\<lparr>nw_count := nw_count (ns_net ns) + 1,
                nw_bytes := nw_bytes (ns_net ns) + of_nat (length (rq_args req))\<rparr>,
              ns_calls := ns_calls ns @ [\<lparr>ca_req = req, ca_at = Begin, ca_handler = NotStarted, ca_answer = None, ca_runs = []\<rparr>]\<rparr>)"

text \<open>
  The sections of \<open>processReq\<close>. The arguments \<open>lose\<close> are the tests of the random numbers: whether an
  unreliable network loses this message.
\<close>

definition process_begin :: "('w, 'v) Network \<Rightarrow> bool \<Rightarrow> 'v call \<Rightarrow> 'v call" where
  "process_begin rn lose ca =
     (case readEndnameInfo rn (rq_endname (ca_req ca)) of
        (True, Some servername, Some server, reliable, longreordering) \<Rightarrow>
          if \<not> reliable \<and> lose then answer no_reply ca
          else ca\<lparr>ca_at := Loop servername server reliable longreordering, ca_handler := Started server\<rparr>
      | _ \<Rightarrow> answer no_reply ca)"

definition process_poll :: "('w, 'v) Network \<Rightarrow> name \<Rightarrow> nat \<Rightarrow> bool \<Rightarrow> bool \<Rightarrow> 'v call \<Rightarrow> 'v call" where
  "process_poll rn servername server reliable longreordering ca =
     (if isServerDead rn (rq_endname (ca_req ca)) servername server
      then ca\<lparr>ca_at := AfterLoop servername server reliable longreordering None\<rparr> else ca)"

definition process_receive :: "name \<Rightarrow> nat \<Rightarrow> bool \<Rightarrow> bool \<Rightarrow> 'v call \<Rightarrow> 'v call" where
  "process_receive servername server reliable longreordering ca =
     (case ca_handler ca of
        Replying reply \<Rightarrow> ca\<lparr>ca_at := AfterLoop servername server reliable longreordering (Some reply), ca_handler := Drained\<rparr>
      | _ \<Rightarrow> ca)"

definition process_finish :: "('w, 'v) Network \<Rightarrow> bool \<Rightarrow> name \<Rightarrow> nat \<Rightarrow> bool \<Rightarrow> replyMsg option \<Rightarrow> 'v call \<Rightarrow>
    'v call \<times> ('w, 'v) Network" where
  "process_finish rn lose servername server reliable reply ca =
     (case reply of
        None \<Rightarrow> (answer no_reply ca, rn)
      | Some rep \<Rightarrow>
          if isServerDead rn (rq_endname (ca_req ca)) servername server then (answer no_reply ca, rn)
          else if \<not> reliable \<and> lose then (answer no_reply ca, rn)
          else (answer rep ca, rn\<lparr>nw_bytes := nw_bytes rn + of_nat (length (rp_reply rep))\<rparr>))"

text \<open>The goroutine of the handler.\<close>

definition handle :: "'v gob \<Rightarrow> ('w, 'v) NetState \<Rightarrow> nat \<Rightarrow> nat \<Rightarrow> 'v call \<Rightarrow> ('w, 'v) NetState go" where
  "handle g ns i server ca =
     go_bind (lab_dispatch g (nw_objs (ns_net ns) server) (ca_req ca) (ns_world ns)) (\<lambda>(reply, run, w, rs).
       Inr (ns\<lparr>ns_net := (ns_net ns)\<lparr>nw_objs := (nw_objs (ns_net ns))(server := rs)\<rparr>, ns_world := w,
            ns_calls := (ns_calls ns)[i := ca\<lparr>ca_handler := Replying reply, ca_runs := ca_runs ca @ [run]\<rparr>]\<rparr>))"

datatype ('w, 'v) net_event =
    NAccept reqMsg
  | NBegin nat bool
  | NHandle nat
  | NReceive nat
  | NPoll nat
  | NFinish nat bool
  | NAdmin "('w, 'v) Network \<Rightarrow> ('w, 'v) Network"

definition put_call :: "('w, 'v) NetState \<Rightarrow> nat \<Rightarrow> 'v call \<Rightarrow> ('w, 'v) NetState" where
  "put_call ns i ca = ns\<lparr>ns_calls := (ns_calls ns)[i := ca]\<rparr>"

text \<open>One event; an event that does not apply changes nothing.\<close>

fun call_step :: "'v gob \<Rightarrow> ('w, 'v) NetState \<Rightarrow> nat \<Rightarrow> 'v call \<Rightarrow> ('w, 'v) net_event \<Rightarrow> ('w, 'v) NetState go" where
  "call_step g ns i ca (NBegin _ lose) =
     (case ca_at ca of Begin \<Rightarrow> Inr (put_call ns i (process_begin (ns_net ns) lose ca)) | _ \<Rightarrow> Inr ns)"
| "call_step g ns i ca (NHandle _) = (case ca_handler ca of Started server \<Rightarrow> handle g ns i server ca | _ \<Rightarrow> Inr ns)"
| "call_step g ns i ca (NReceive _) =
     (case ca_at ca of Loop sn server rel lo \<Rightarrow> Inr (put_call ns i (process_receive sn server rel lo ca)) | _ \<Rightarrow> Inr ns)"
| "call_step g ns i ca (NPoll _) =
     (case ca_at ca of Loop sn server rel lo \<Rightarrow> Inr (put_call ns i (process_poll (ns_net ns) sn server rel lo ca)) | _ \<Rightarrow> Inr ns)"
| "call_step g ns i ca (NFinish _ lose) =
     (case ca_at ca of
        AfterLoop sn server rel lo reply \<Rightarrow>
          (case process_finish (ns_net ns) lose sn server rel reply ca of
             (ca, rn) \<Rightarrow> Inr ((put_call ns i ca)\<lparr>ns_net := rn\<rparr>))
      | _ \<Rightarrow> Inr ns)"
| "call_step g ns i ca _ = Inr ns"

fun event_call :: "('w, 'v) net_event \<Rightarrow> nat option" where
  "event_call (NBegin i _) = Some i"
| "event_call (NHandle i) = Some i"
| "event_call (NReceive i) = Some i"
| "event_call (NPoll i) = Some i"
| "event_call (NFinish i _) = Some i"
| "event_call _ = None"

definition net_step :: "'v gob \<Rightarrow> ('w, 'v) NetState \<Rightarrow> ('w, 'v) net_event \<Rightarrow> ('w, 'v) NetState go" where
  "net_step g ns e =
     (case e of
        NAccept req \<Rightarrow> Inr (accept ns req)
      | NAdmin f \<Rightarrow> Inr (ns\<lparr>ns_net := f (ns_net ns)\<rparr>)
      | _ \<Rightarrow> (case event_call e of
                Some i \<Rightarrow> if i < length (ns_calls ns) then call_step g ns i (ns_calls ns ! i) e else Inr ns
              | None \<Rightarrow> Inr ns))"

subsection \<open>At most one execution\<close>

definition decoded_args :: "'v gob \<Rightarrow> reqMsg \<Rightarrow> 'v" where
  "decoded_args g req =
     (case gob_decode g (rq_argsType req) (rq_args req) of None \<Rightarrow> gob_zero g (rq_argsType req) | Some v \<Rightarrow> v)"

definition executed :: "'v gob \<Rightarrow> 'v call \<Rightarrow> replyMsg \<Rightarrow> bool" where
  "executed g ca rep \<longleftrightarrow> (\<exists>v. ca_runs ca = [(decoded_args g (ca_req ca), v)] \<and>
     rep = \<lparr>rp_ok = True, rp_reply = snd (gob_encode g v)\<rparr>)"

definition handler_ok :: "'v gob \<Rightarrow> 'v call \<Rightarrow> bool" where
  "handler_ok g ca \<longleftrightarrow>
     (case ca_handler ca of
        Replying rep \<Rightarrow> executed g ca rep
      | Drained \<Rightarrow> length (ca_runs ca) = 1
      | _ \<Rightarrow> ca_runs ca = [])"

definition waiting_ok :: "'v gob \<Rightarrow> 'v call \<Rightarrow> bool" where
  "waiting_ok g ca \<longleftrightarrow>
     (case ca_at ca of
        Begin \<Rightarrow> ca_handler ca = NotStarted \<and> ca_answer ca = None
      | Loop _ _ _ _ \<Rightarrow> ca_answer ca = None
      | AfterLoop _ _ _ _ reply \<Rightarrow>
          ca_answer ca = None \<and> (\<forall>rep. reply = Some rep \<longrightarrow> ca_handler ca = Drained \<and> executed g ca rep)
      | Ended \<Rightarrow> (\<exists>rep. ca_answer ca = Some rep \<and> (rp_ok rep \<longrightarrow> ca_handler ca = Drained \<and> executed g ca rep)))"

definition call_ok :: "'v gob \<Rightarrow> 'v call \<Rightarrow> bool" where
  "call_ok g ca \<longleftrightarrow> handler_ok g ca \<and> waiting_ok g ca"

lemmas call_ok_defs = call_ok_def handler_ok_def waiting_ok_def

lemma call_okD:
  assumes "call_ok g ca"
  shows "length (ca_runs ca) \<le> 1" and "ca_answer ca = Some rep \<Longrightarrow> rp_ok rep \<Longrightarrow> executed g ca rep"
  using assms by (auto simp: call_ok_defs executed_def split: handler_at.splits waiting_at.splits)

lemma process_begin_ok: "call_ok g ca \<Longrightarrow> ca_at ca = Begin \<Longrightarrow> call_ok g (process_begin rn lose ca)"
  by (auto simp: process_begin_def call_ok_defs answer_def no_reply_def split: prod.split bool.split option.split)

lemma process_poll_ok: "call_ok g ca \<Longrightarrow> ca_at ca = Loop sn s rel lo \<Longrightarrow> call_ok g (process_poll rn sn s rel lo ca)"
  by (auto simp: process_poll_def call_ok_defs executed_def split: handler_at.splits)

lemma process_receive_ok: "call_ok g ca \<Longrightarrow> ca_at ca = Loop sn s rel lo \<Longrightarrow> call_ok g (process_receive sn s rel lo ca)"
  by (auto simp: process_receive_def call_ok_defs executed_def split: handler_at.splits)

lemma process_finish_ok:
  "call_ok g ca \<Longrightarrow> ca_at ca = AfterLoop sn s rel lo reply \<Longrightarrow> call_ok g (fst (process_finish rn lose sn s rel reply ca))"
  by (auto simp: process_finish_def call_ok_defs executed_def answer_def no_reply_def split: handler_at.splits option.splits)

lemma lab_dispatch_run:
  assumes "lab_dispatch g rs req w = Inr (reply, run, w', rs')"
  shows "\<exists>v. run = (decoded_args g req, v) \<and> reply = \<lparr>rp_ok = True, rp_reply = snd (gob_encode g v)\<rparr>"
  using assms
  by (auto simp: lab_dispatch_def svc_dispatch_def decoded_args_def Let_def split: option.splits prod.splits elim!: go_bindE)

lemma handled_ok:
  assumes "call_ok g ca" and "ca_handler ca = Started server" and "lab_dispatch g rs (ca_req ca) w = Inr (reply, run, w', rs')"
  shows "call_ok g (ca\<lparr>ca_handler := Replying reply, ca_runs := ca_runs ca @ [run]\<rparr>)"
  using assms(1,2) lab_dispatch_run [OF assms(3)]
  by (auto simp: call_ok_defs executed_def split: waiting_at.splits)

definition net_inv :: "'v gob \<Rightarrow> ('w, 'v) NetState \<Rightarrow> bool" where
  "net_inv g ns \<longleftrightarrow> (\<forall>ca \<in> set (ns_calls ns). call_ok g ca)"

lemma net_inv_update:
  "net_inv g ns \<Longrightarrow> call_ok g ca \<Longrightarrow> ns_calls ns' = (ns_calls ns)[i := ca] \<Longrightarrow> net_inv g ns'"
  using set_update_subset_insert [of "ns_calls ns" i ca] by (auto simp: net_inv_def)

lemma call_step_inv:
  assumes inv: "net_inv g ns" and i: "i < length (ns_calls ns)" and ca: "ca = ns_calls ns ! i"
    and step: "call_step g ns i ca e = Inr ns'"
  shows "net_inv g ns'"
proof -
  have ok: "call_ok g ca" using assms(1-3) by (simp add: net_inv_def)
  note put = net_inv_update [OF inv, where i = i]
  show ?thesis
  proof (cases e)
    case (NBegin j lose)
    with step inv show ?thesis
      by (cases "ca_at ca") (auto simp: put_call_def intro!: put [OF process_begin_ok [OF ok]])
  next
    case (NHandle j)
    with step inv show ?thesis
      by (cases "ca_handler ca") (auto simp: handle_def elim!: go_bindE intro!: put [OF handled_ok [OF ok]])
  next
    case (NReceive j)
    with step inv show ?thesis
      by (cases "ca_at ca") (auto simp: put_call_def intro!: put [OF process_receive_ok [OF ok]])
  next
    case (NPoll j)
    with step inv show ?thesis
      by (cases "ca_at ca") (auto simp: put_call_def intro!: put [OF process_poll_ok [OF ok]])
  next
    case (NFinish j lose)
    show ?thesis
    proof (cases "ca_at ca")
      case (AfterLoop sn s rel lo reply)
      obtain ca' rn where "process_finish (ns_net ns) lose sn s rel reply ca = (ca', rn)" by fastforce
      with process_finish_ok [OF ok AfterLoop, of "ns_net ns" lose] AfterLoop NFinish step show ?thesis
        by (auto simp: put_call_def intro!: put)
    qed (use NFinish step inv in auto)
  qed (use step inv in auto)
qed

lemma net_step_inv:
  assumes "net_inv g ns" and "net_step g ns e = Inr ns'"
  shows "net_inv g ns'"
proof -
  have fresh: "call_ok g \<lparr>ca_req = req, ca_at = Begin, ca_handler = NotStarted, ca_answer = None, ca_runs = []\<rparr>" for req
    by (simp add: call_ok_defs)
  show ?thesis
  proof (cases e)
    case (NAccept req)
    with assms fresh show ?thesis by (cases "nw_done (ns_net ns)") (auto simp: net_step_def accept_def net_inv_def)
  next
    case (NAdmin f)
    with assms show ?thesis by (auto simp: net_step_def net_inv_def)
  qed (use assms in \<open>auto simp: net_step_def simp del: call_step.simps split: if_splits
      dest: call_step_inv [OF assms(1) _ refl]\<close>)
qed

interpretation lab: safe_steps "net_step g" "net_inv g" for g
  by unfold_locales (rule net_step_inv)

text \<open>C15: remote calls are executed at most once. Whatever the network loses, delays, disconnects or deletes, and however the
  goroutines interleave: the handler of a request runs at most once; and if the call is answered positively,
  it ran exactly once, on the arguments of the request, and the answer is its encoded reply.\<close>

theorem call_at_most_once:
  assumes "go_run (net_step g) \<lparr>ns_net = rn, ns_world = w, ns_calls = []\<rparr> es = Inr ns" and "ca \<in> set (ns_calls ns)"
  shows "length (ca_runs ca) \<le> 1 \<and>
    (\<forall>rep. ca_answer ca = Some rep \<and> rp_ok rep \<longrightarrow> (\<exists>v. ca_runs ca = [(decoded_args g (ca_req ca), v)] \<and>
      rep = \<lparr>rp_ok = True, rp_reply = snd (gob_encode g v)\<rparr>))"
proof -
  have "net_inv g ns" by (rule lab.run_safe [OF _ assms(1)]) (simp add: net_inv_def)
  with assms(2) have "call_ok g ca" by (simp add: net_inv_def)
  from call_okD [OF this] show ?thesis by (auto simp: executed_def)
qed

subsection \<open>The connection provider\<close>

text \<open>\<open>strconv.Itoa\<close> and \<open>strconv.Atoi\<close>; \<open>None\<close> is the error of the latter: no number, or not one of 64 bits.\<close>

fun Itoa_nat :: "nat \<Rightarrow> string" where
  "Itoa_nat n = (if n < 10 then [char_of (48 + n)] else Itoa_nat (n div 10) @ [char_of (48 + n mod 10)])"

declare Itoa_nat.simps [simp del]

definition Itoa :: "int \<Rightarrow> string" where
  "Itoa i = (if i < 0 then CHR ''-'' # Itoa_nat (nat (- i)) else Itoa_nat (nat i))"

definition digit :: "char \<Rightarrow> nat option" where
  "digit ch = (let n = of_char ch in if 48 \<le> n \<and> n \<le> 57 then Some (n - 48) else None)"

fun digits :: "nat \<Rightarrow> string \<Rightarrow> nat option" where
  "digits n [] = Some n"
| "digits n (ch # s) = (case digit ch of None \<Rightarrow> None | Some d \<Rightarrow> digits (n * 10 + d) s)"

definition unsigned_Atoi :: "string \<Rightarrow> nat option" where
  "unsigned_Atoi s = (if s = [] then None else digits 0 s)"

definition int64 :: "int \<Rightarrow> int option" where
  "int64 i = (if - (2 ^ 63) \<le> i \<and> i < 2 ^ 63 then Some i else None)"

fun Atoi :: "string \<Rightarrow> int option" where
  "Atoi [] = None"
| "Atoi (ch # s) =
     (if ch = CHR ''-'' then Option.bind (unsigned_Atoi s) (\<lambda>n. int64 (- int n))
      else if ch = CHR ''+'' then Option.bind (unsigned_Atoi s) (\<lambda>n. int64 (int n))
      else Option.bind (unsigned_Atoi (ch # s)) (\<lambda>n. int64 (int n)))"

record LabrpcConnectionProvider =
  cp_ends :: "ClientEnd list"
  cp_me :: int

definition cp_New :: "ClientEnd list \<Rightarrow> int \<Rightarrow> LabrpcConnectionProvider" where
  "cp_New peers me = \<lparr>cp_ends = foldl (\<lambda>ends v. ends @ [v]) [] peers, cp_me = me\<rparr>"

definition cp_NumPeers :: "LabrpcConnectionProvider \<Rightarrow> nat" where
  "cp_NumPeers cp = length (cp_ends cp)"

definition cp_Me :: "LabrpcConnectionProvider \<Rightarrow> string" where
  "cp_Me cp = Itoa (cp_me cp)"

text \<open>\<open>Call\<close> of the provider: the end that it calls and the name of the method.\<close>

definition cp_Call :: "LabrpcConnectionProvider \<Rightarrow> string \<Rightarrow> string \<Rightarrow> string \<Rightarrow> (ClientEnd \<times> string) go" where
  "cp_Call cp server svcName svcMeth =
     (case Atoi server of
        None \<Rightarrow> Inl (Panic ''labrpc requires server IDs to be ints'')
      | Some serverInt \<Rightarrow>
          if serverInt < 0 then Inl IndexOutOfRange
          else go_bind (go_index (cp_ends cp) (nat serverInt)) (\<lambda>e. Inr (e, svcName @ ''.'' @ svcMeth)))"

lemma digit_char_of: "d < 10 \<Longrightarrow> digit (char_of (48 + d)) = Some d"
  by (simp add: digit_def)

lemma digits_append: "digits n (s @ t) = Option.bind (digits n s) (\<lambda>m. digits m t)"
  by (induction s arbitrary: n) (auto split: option.split)

lemma digits_Itoa_nat: "digits 0 (Itoa_nat n) = Some n"
proof (induction n rule: Itoa_nat.induct)
  case (1 n)
  then show ?case
    by (subst Itoa_nat.simps) (auto simp: digits_append digit_char_of)
qed

lemma Itoa_nat_hd: "\<exists>ch s. Itoa_nat n = ch # s \<and> ch \<noteq> CHR ''-'' \<and> ch \<noteq> CHR ''+''"
proof (induction n rule: Itoa_nat.induct)
  case (1 n)
  have "ch \<noteq> CHR ''-'' \<and> ch \<noteq> CHR ''+''" if "digit ch = Some d" for ch d
    using that by (auto simp: digit_def)
  from this [OF digit_char_of] "1" show ?case by (subst Itoa_nat.simps) auto
qed

lemma Atoi_Itoa:
  assumes "- (2 ^ 63) \<le> i" and "i < 2 ^ 63"
  shows "Atoi (Itoa i) = Some i"
proof -
  obtain ch s where s: "Itoa_nat (nat \<bar>i\<bar>) = ch # s" and ch: "ch \<noteq> CHR ''-''" "ch \<noteq> CHR ''+''"
    using Itoa_nat_hd by blast
  have "digits 0 (ch # s) = Some (nat \<bar>i\<bar>)" using digits_Itoa_nat [of "nat \<bar>i\<bar>"] s by simp
  then have "unsigned_Atoi (ch # s) = Some (nat \<bar>i\<bar>)" by (simp add: unsigned_Atoi_def)
  then show ?thesis
    using s ch assms by (auto simp: Itoa_def int64_def)
qed

lemma cp_New_ends: "cp_ends (cp_New peers me) = peers"
proof -
  have "foldl (\<lambda>ends v. ends @ [v]) xs ys = xs @ ys" for xs ys :: "ClientEnd list"
    by (induction ys arbitrary: xs) auto
  then show ?thesis by (simp add: cp_New_def)
qed

lemma LastIndex_dot_append: "CHR ''.'' \<notin> set t \<Longrightarrow> LastIndex_dot (s @ ''.'' @ t) = Some (length s)"
proof (induction s)
  case Nil
  have "CHR ''.'' \<notin> set t \<Longrightarrow> LastIndex_dot t = None" for t by (induction t) auto
  with Nil show ?case by simp
qed auto

subsection \<open>Calls over a reliable network\<close>

definition gob_round_trip :: "'v gob \<Rightarrow> bool" where
  "gob_round_trip g \<longleftrightarrow> (\<forall>v. fst (gob_encode g v) \<and> gob_decode g (gob_type g v) (snd (gob_encode g v)) = Some v)"

text \<open>An enabled end that is connected to a server with a method of this name.\<close>

definition offers :: "('w, 'v) Network \<Rightarrow> name \<Rightarrow> string \<Rightarrow> string \<Rightarrow> ('w, 'v) labMethod \<Rightarrow> bool" where
  "offers rn endname svcName svcMeth method \<longleftrightarrow> nw_enabled rn endname \<and> \<not> nw_done rn \<and>
     (\<exists>sn s service. nw_connections rn endname = Some sn \<and> nw_servers rn sn = Some s \<and>
        rs_services (nw_objs rn s) svcName = Some service \<and> svc_methods service svcMeth = Some method)"

lemma lab_dispatch_offered:
  assumes "rs_services rs svcName = Some service" and "svc_methods service svcMeth = Some method"
    and "CHR ''.'' \<notin> set svcMeth" and "rq_svcMeth req = svcName @ ''.'' @ svcMeth"
    and "lm_call method w (decoded_args g req) = (v, w')"
  shows "lab_dispatch g rs req w = Inr (\<lparr>rp_ok = True, rp_reply = snd (gob_encode g v)\<rparr>, (decoded_args g req, v), w',
    rs\<lparr>rs_count := rs_count rs + 1\<rparr>)"
  using assms LastIndex_dot_append [of svcMeth svcName]
  by (simp add: lab_dispatch_def svc_dispatch_def decoded_args_def)

text \<open>The events of one call that nothing disturbs.\<close>

definition undisturbed :: "reqMsg \<Rightarrow> nat \<Rightarrow> bool \<Rightarrow> bool \<Rightarrow> ('w, 'v) net_event list" where
  "undisturbed req i lose lose' = [NAccept req, NBegin i lose, NHandle i, NReceive i, NFinish i lose']"

lemma reliable_call:
  assumes "gob_round_trip g" and "j < length (cp_ends cp)" and "int j < 2 ^ 63"
    and "nw_reliable (ns_net ns)" and "offers (ns_net ns) (ce_endname (cp_ends cp ! j)) svcName svcMeth method"
    and "CHR ''.'' \<notin> set svcMeth" and "lm_call method (ns_world ns) args = (v, w)"
  shows "\<exists>e m req ns' rep. cp_Call cp (Itoa (int j)) svcName svcMeth = Inr (e, m) \<and> call_request g e m args = Inr req \<and>
    go_run (net_step g) ns (undisturbed req (length (ns_calls ns)) lose lose') = Inr ns' \<and>
    ca_answer (ns_calls ns' ! length (ns_calls ns)) = Some rep \<and> call_result g (gob_type g v) rep = Inr (Some v) \<and>
    ns_world ns' = w"
proof -
  let ?e = "cp_ends cp ! j" and ?m = "svcName @ ''.'' @ svcMeth"
  let ?req = "\<lparr>rq_endname = ce_endname ?e, rq_svcMeth = ?m, rq_argsType = gob_type g args, rq_args = snd (gob_encode g args)\<rparr>"
  let ?rep = "\<lparr>rp_ok = True, rp_reply = snd (gob_encode g v)\<rparr>"
  from assms(5) obtain sn s service where net: "nw_enabled (ns_net ns) (ce_endname ?e)" "\<not> nw_done (ns_net ns)"
    "nw_connections (ns_net ns) (ce_endname ?e) = Some sn" "nw_servers (ns_net ns) sn = Some s"
    and srv: "rs_services (nw_objs (ns_net ns) s) svcName = Some service" "svc_methods service svcMeth = Some method"
    by (auto simp: offers_def)
  have call: "cp_Call cp (Itoa (int j)) svcName svcMeth = Inr (?e, ?m)"
    using assms(2,3) by (simp add: cp_Call_def Atoi_Itoa)
  have req: "call_request g ?e ?m args = Inr ?req"
    using assms(1) by (cases "gob_encode g args") (auto simp: call_request_def gob_round_trip_def dest: spec [of _ args])
  have "decoded_args g ?req = args" using assms(1) by (simp add: decoded_args_def gob_round_trip_def)
  with lab_dispatch_offered [OF srv assms(6), of ?req "ns_world ns" g v w] assms(7)
  have dispatch: "lab_dispatch g (nw_objs (ns_net ns) s) ?req (ns_world ns) =
      Inr (?rep, (args, v), w, (nw_objs (ns_net ns) s)\<lparr>rs_count := rs_count (nw_objs (ns_net ns) s) + 1\<rparr>)"
    by simp
  have "\<exists>ns'. go_run (net_step g) ns (undisturbed ?req (length (ns_calls ns)) lose lose') = Inr ns' \<and>
      ca_answer (ns_calls ns' ! length (ns_calls ns)) = Some ?rep \<and> ns_world ns' = w"
    using net assms(4) dispatch
    by (simp add: undisturbed_def net_step_def accept_def process_begin_def readEndnameInfo_def put_call_def handle_def
      process_receive_def process_finish_def isServerDead_def answer_def)
  moreover have "call_result g (gob_type g v) ?rep = Inr (Some v)"
    using assms(1) by (simp add: call_result_def gob_round_trip_def)
  ultimately show ?thesis using call req by blast
qed

text \<open>C20: over a reliable network calls succeed. A call through the connection provider to a server that is connected, enabled
  and has the method returns true, whatever the random numbers are; the caller receives the
  reply of the method to its arguments, and the method has run once on the state of the server.\<close>

theorem reliable_call_succeeds:
  assumes "gob_round_trip g" and "j < length (cp_ends cp)" and "int j < 2 ^ 63"
    and "nw_reliable (ns_net ns)" and "offers (ns_net ns) (ce_endname (cp_ends cp ! j)) svcName svcMeth method"
    and "CHR ''.'' \<notin> set svcMeth" and "lm_call method (ns_world ns) args = (v, w)"
  shows "\<exists>e m req ns' rep. cp_Call cp (Itoa (int j)) svcName svcMeth = Inr (e, m) \<and> call_request g e m args = Inr req \<and>
    go_run (net_step g) ns (undisturbed req (length (ns_calls ns)) lose lose') = Inr ns' \<and>
    ca_answer (ns_calls ns' ! length (ns_calls ns)) = Some rep \<and> call_result g (gob_type g v) rep = Inr (Some v) \<and>
    ns_world ns' = w"
  by (rule reliable_call [OF assms])

subsection \<open>Examples\<close>

text \<open>A server that counts its calls and answers with the argument and one more byte.\<close>

definition demo_gob :: "bytes gob" where
  "demo_gob = \<lparr>gob_type = (\<lambda>_. ''bytes''), gob_encode = (\<lambda>v. (True, v)), gob_decode = (\<lambda>t b. Some b), gob_zero = (\<lambda>t. [])\<rparr>"

definition demo_method :: "(nat, bytes) labMethod" where
  "demo_method = \<lparr>lm_Name = ''Echo'', lm_PkgPath = '''',
     lm_In = [(''Demo'', True), (''Context'', False), (''bytes'', False), (''bytes'', True)], lm_Out = [''error''],
     lm_replyType = ''bytes'', lm_call = (\<lambda>w v. (v @ [1], w + 1))\<rparr>"

definition demo_net :: "(nat, bytes) Network" where
  "demo_net = Enable (StrName ''client'') True (Connect (StrName ''client'') (IntName 0) (AddServer (IntName 0) 7
     (MakeNetwork\<lparr>nw_objs := (\<lambda>_. AddService lab_MakeServer (MakeService ''Demo'' [demo_method]))\<rparr>)))"

definition demo_state :: "(nat, bytes) NetState" where
  "demo_state = \<lparr>ns_net = demo_net, ns_world = 0, ns_calls = []\<rparr>"

definition demo_cp :: LabrpcConnectionProvider where
  "demo_cp = cp_New [\<lparr>ce_endname = StrName ''client''\<rparr>] 0"

lemma demo_offers: "offers demo_net (StrName ''client'') ''Demo'' ''Echo'' demo_method"
  by (simp add: offers_def demo_net_def Enable_def Connect_def AddServer_def MakeNetwork_def AddService_def lab_MakeServer_def
    MakeService_def suitable_def demo_method_def)

lemma demo_round_trip: "gob_round_trip demo_gob"
  by (simp add: gob_round_trip_def demo_gob_def)

theorem reliable_call_succeeds_witness:
  "\<exists>e m req ns' rep. cp_Call demo_cp (Itoa 0) ''Demo'' ''Echo'' = Inr (e, m) \<and> call_request demo_gob e m [5] = Inr req \<and>
    go_run (net_step demo_gob) demo_state (undisturbed req 0 True True) = Inr ns' \<and>
    ca_answer (ns_calls ns' ! 0) = Some rep \<and> call_result demo_gob ''bytes'' rep = Inr (Some [5, 1]) \<and> ns_world ns' = 1"
proof -
  have "nw_reliable (ns_net demo_state)"
    by (simp add: demo_state_def demo_net_def Enable_def Connect_def AddServer_def MakeNetwork_def)
  then show ?thesis
    using reliable_call_succeeds [OF demo_round_trip, of 0 demo_cp demo_state "''Demo''" "''Echo''" demo_method "[5]" "[5, 1]" 1 True True]
      demo_offers
    by (simp add: demo_cp_def cp_New_ends) (simp add: demo_state_def demo_method_def demo_gob_def)
qed

definition demo_req :: reqMsg where
  "demo_req = \<lparr>rq_endname = StrName ''client'', rq_svcMeth = ''Demo.Echo'', rq_argsType = ''bytes'', rq_args = [5]\<rparr>"

theorem call_at_most_once_witness:
  "\<exists>ns. go_run (net_step demo_gob) \<lparr>ns_net = demo_net, ns_world = 0, ns_calls = []\<rparr>
      (undisturbed demo_req 0 False False @ [NHandle 0, NAdmin (DeleteServer (IntName 0)), NHandle 0]) = Inr ns \<and>
    length (ca_runs (ns_calls ns ! 0)) \<le> 1"
proof -
  let ?es = "undisturbed demo_req 0 False False @ [NHandle 0, NAdmin (DeleteServer (IntName 0)), NHandle 0]"
  have "\<exists>ns. go_run (net_step demo_gob) \<lparr>ns_net = demo_net, ns_world = 0, ns_calls = []\<rparr> ?es = Inr ns \<and> ns_calls ns \<noteq> []"
    by (simp add: undisturbed_def net_step_def accept_def process_begin_def readEndnameInfo_def put_call_def handle_def
      process_receive_def process_finish_def isServerDead_def answer_def demo_net_def Enable_def Connect_def AddServer_def
      MakeNetwork_def AddService_def lab_MakeServer_def MakeService_def suitable_def demo_method_def demo_req_def demo_gob_def
      lab_dispatch_def svc_dispatch_def)
  then obtain ns where ns: "go_run (net_step demo_gob) \<lparr>ns_net = demo_net, ns_world = 0, ns_calls = []\<rparr> ?es = Inr ns"
    and "ns_calls ns \<noteq> []" by blast
  then have "ns_calls ns ! 0 \<in> set (ns_calls ns)" by (cases "ns_calls ns") auto
  with ns show ?thesis
    using call_at_most_once [of demo_gob demo_net 0 ?es ns "ns_calls ns ! 0"] by blast
qed

end
