(* ===== verification/Test_Config.thy ===== *)
theory Test_Config
  imports Confessions Lab_Rpc
begin

text \<open>
  \<open>anonbcast/config.go\<close>: the configuration that the tests of the package run in, servers and clients over the simulated
  network of \<open>labrpc\<close>.

  \<^item> \<open>Config\<close> is the struct; a nil server, persister, messager or slice of end names is \<open>None\<close>. Servers of type \<open>'s\<close> are only killed and
    asked whether they lead; a client is known by its id. A failed test (\<open>t.Fatalf\<close>) is a panic \<open>Fatal\<close>.
  \<^item> Random names, the addresses of new server objects, the ids of new clients and the clock are
    arguments. The methods lock \<open>cfg.mu\<close> for their whole body, except \<open>ShutdownServer\<close> and \<open>StartServer\<close>, which the tests do not
    call concurrently.
  The lemmas: \<open>partition\<close> connects servers exactly when they are on the same side; \<open>make_partition\<close> splits an odd number of
  servers with the leader in the minority, but not an even one. \<open>Test_Rounds\<close> has the checks of a test.
\<close>

record ('w, 'v, 's) Config =
  cf_net :: "('w, 'v) Network"
  cf_n :: nat
  cf_servers :: "'s option list"
  cf_saved :: "Persister option list"
  cf_endnames :: "string list option list"
  cf_clients :: "(uuid \<times> string list) list"
  cf_maxraftstate :: int
  cf_start :: int
  cf_t0 :: int
  cf_rpcs0 :: int
  cf_ops :: "32 word"
  cf_initialConfiguration :: configuration
  cf_orderedClientIds :: "uuid list"
  cf_orderedMessagers :: "string option list"

subsection \<open>Connections\<close>

text \<open>\<open>cfg.endnames[i][j]\<close>\<close>

definition endname_of :: "('w, 'v, 's) Config \<Rightarrow> nat \<Rightarrow> nat \<Rightarrow> string go" where
  "endname_of cfg i j =
     go_bind (go_index (cf_endnames cfg) i) (\<lambda>es. case es of None \<Rightarrow> Inl IndexOutOfRange | Some es \<Rightarrow> go_index es j)"

fun enable_each :: "(nat \<Rightarrow> string go) \<Rightarrow> bool \<Rightarrow> nat list \<Rightarrow> ('w, 'v) Network \<Rightarrow> ('w, 'v) Network go" where
  "enable_each name_at b [] rn = Inr rn"
| "enable_each name_at b (j # js) rn =
     go_bind (name_at j) (\<lambda>endname. enable_each name_at b js (Enable (StrName endname) b rn))"

definition connectUnlocked :: "('w, 'v, 's) Config \<Rightarrow> nat \<Rightarrow> nat list \<Rightarrow> ('w, 'v, 's) Config go" where
  "connectUnlocked cfg i to =
     go_bind (enable_each (\<lambda>t. endname_of cfg i t) True to (cf_net cfg)) (\<lambda>rn.
     go_bind (enable_each (\<lambda>t. endname_of cfg t i) True to rn) (\<lambda>rn. Inr (cfg\<lparr>cf_net := rn\<rparr>)))"

definition cfg_connect :: "('w, 'v, 's) Config \<Rightarrow> nat \<Rightarrow> nat list \<Rightarrow> ('w, 'v, 's) Config go" where
  "cfg_connect cfg i to = connectUnlocked cfg i to"

text \<open>
  The loops of \<open>disconnectUnlocked\<close>. The second one tests the end names at the position \<open>j\<close> in the list \<open>from\<close>, and then reads those of
  the server at that position.
\<close>

fun disable_outgoing :: "('w, 'v, 's) Config \<Rightarrow> nat \<Rightarrow> nat list \<Rightarrow> ('w, 'v) Network \<Rightarrow> ('w, 'v) Network go" where
  "disable_outgoing cfg i [] rn = Inr rn"
| "disable_outgoing cfg i (t # ts) rn =
     go_bind (go_index (cf_endnames cfg) i) (\<lambda>es.
       if es \<noteq> None
       then go_bind (endname_of cfg i t) (\<lambda>endname. disable_outgoing cfg i ts (Enable (StrName endname) False rn))
       else disable_outgoing cfg i ts rn)"

fun disable_incoming :: "('w, 'v, 's) Config \<Rightarrow> nat \<Rightarrow> nat \<Rightarrow> nat list \<Rightarrow> ('w, 'v) Network \<Rightarrow> ('w, 'v) Network go" where
  "disable_incoming cfg i j [] rn = Inr rn"
| "disable_incoming cfg i j (t # ts) rn =
     go_bind (go_index (cf_endnames cfg) j) (\<lambda>es.
       if es \<noteq> None
       then go_bind (endname_of cfg t i) (\<lambda>endname. disable_incoming cfg i (Suc j) ts (Enable (StrName endname) False rn))
       else disable_incoming cfg i (Suc j) ts rn)"

definition disconnectUnlocked :: "('w, 'v, 's) Config \<Rightarrow> nat \<Rightarrow> nat list \<Rightarrow> ('w, 'v, 's) Config go" where
  "disconnectUnlocked cfg i from =
     go_bind (disable_outgoing cfg i from (cf_net cfg)) (\<lambda>rn.
     go_bind (disable_incoming cfg i 0 from rn) (\<lambda>rn. Inr (cfg\<lparr>cf_net := rn\<rparr>)))"

definition cfg_disconnect :: "('w, 'v, 's) Config \<Rightarrow> nat \<Rightarrow> nat list \<Rightarrow> ('w, 'v, 's) Config go" where
  "cfg_disconnect cfg i from = disconnectUnlocked cfg i from"

definition cfg_All :: "('w, 'v, 's) Config \<Rightarrow> nat list" where
  "cfg_All cfg = [0..<cf_n cfg]"

fun connect_all_from :: "('w, 'v, 's) Config \<Rightarrow> nat list \<Rightarrow> ('w, 'v, 's) Config go" where
  "connect_all_from cfg [] = Inr cfg"
| "connect_all_from cfg (i # is) = go_bind (connectUnlocked cfg i (cfg_All cfg)) (\<lambda>cfg. connect_all_from cfg is)"

definition ConnectAll :: "('w, 'v, 's) Config \<Rightarrow> ('w, 'v, 's) Config go" where
  "ConnectAll cfg = connect_all_from cfg [0..<cf_n cfg]"

fun regroup :: "('w, 'v, 's) Config \<Rightarrow> nat list \<Rightarrow> nat list \<Rightarrow> nat list \<Rightarrow> ('w, 'v, 's) Config go" where
  "regroup cfg [] same other = Inr cfg"
| "regroup cfg (i # is) same other =
     go_bind (disconnectUnlocked cfg i other) (\<lambda>cfg.
     go_bind (connectUnlocked cfg i same) (\<lambda>cfg. regroup cfg is same other))"

definition cfg_partition :: "('w, 'v, 's) Config \<Rightarrow> nat list \<Rightarrow> nat list \<Rightarrow> ('w, 'v, 's) Config go" where
  "cfg_partition cfg p1 p2 = go_bind (regroup cfg p1 p1 p2) (\<lambda>cfg. regroup cfg p2 p2 p1)"

subsection \<open>Clients\<close>

definition test_Message :: "string \<Rightarrow> int \<Rightarrow> bytes" where
  "test_Message mg round = map of_char (''message in round '' @ Itoa round @ '' from '' @ mg)"

definition client_names :: "('w, 'v, 's) Config \<Rightarrow> uuid \<Rightarrow> string list" where
  "client_names cfg cl = (case map_of (cf_clients cfg) cl of None \<Rightarrow> [] | Some names \<Rightarrow> names)"

definition ConnectClientUnlocked :: "('w, 'v, 's) Config \<Rightarrow> uuid \<Rightarrow> nat list \<Rightarrow> ('w, 'v, 's) Config go" where
  "ConnectClientUnlocked cfg cl to =
     go_bind (enable_each (go_index (client_names cfg cl)) True to (cf_net cfg)) (\<lambda>rn. Inr (cfg\<lparr>cf_net := rn\<rparr>))"

definition DisconnectClientUnlocked :: "('w, 'v, 's) Config \<Rightarrow> uuid \<Rightarrow> nat list \<Rightarrow> ('w, 'v, 's) Config go" where
  "DisconnectClientUnlocked cfg cl from =
     go_bind (enable_each (go_index (client_names cfg cl)) False from (cf_net cfg)) (\<lambda>rn. Inr (cfg\<lparr>cf_net := rn\<rparr>))"

definition deleteClient :: "('w, 'v, 's) Config \<Rightarrow> uuid \<Rightarrow> ('w, 'v, 's) Config" where
  "deleteClient cfg cl = cfg\<lparr>cf_clients := AList.delete cl (cf_clients cfg)\<rparr>"

text \<open>
  \<open>DisconnectClientById\<close>: an unknown id leaves the pointer nil, for which the map of clients has no names.
\<close>

definition DisconnectClientById :: "('w, 'v, 's) Config \<Rightarrow> uuid \<Rightarrow> nat list \<Rightarrow> ('w, 'v, 's) Config go" where
  "DisconnectClientById cfg clId from = DisconnectClientUnlocked cfg clId from"

text \<open>A fresh set of ends, one for each server: \<open>MakeEnd\<close> and \<open>Connect\<close> in turn.\<close>

fun make_ends :: "nat \<Rightarrow> string list \<Rightarrow> ('w, 'v) Network \<Rightarrow> (ClientEnd list \<times> ('w, 'v) Network) go" where
  "make_ends j [] rn = Inr ([], rn)"
| "make_ends j (endname # names) rn =
     go_bind (MakeEnd rn (StrName endname)) (\<lambda>(e, rn).
     go_bind (make_ends (Suc j) names (Connect (StrName endname) (IntName (int j)) rn)) (\<lambda>(es, rn). Inr (e # es, rn)))"

text \<open>\<open>random_handles\<close>: the handles are exchanged from left to right; \<open>draw i\<close> is \<open>rand.Intn(i + 1)\<close>.\<close>

fun random_handles_from :: "(nat \<Rightarrow> nat) \<Rightarrow> nat \<Rightarrow> nat \<Rightarrow> 'a list \<Rightarrow> 'a list" where
  "random_handles_from draw i 0 sa = sa"
| "random_handles_from draw i (Suc n) sa = random_handles_from draw (Suc i) n (swap i (draw i mod Suc i) sa)"

definition random_handles :: "(nat \<Rightarrow> nat) \<Rightarrow> 'a list \<Rightarrow> 'a list" where
  "random_handles draw kvh = random_handles_from draw 0 (length kvh) kvh"

definition test_ClientConfig :: ClientConfig where
  "test_ClientConfig = \<lparr>cfg_MessageTimeout = 5 * 1000000000, cfg_ProtocolTimeout = 5 * 1000000000, cfg_MessageSize = 100\<rparr>"

definition all_servers :: "nat \<Rightarrow> configuration" where
  "all_servers n = map (\<lambda>j. (Itoa (int j), True)) [0..<n]"

text \<open>
  What the environment supplies when server \<open>i\<close> is started: the random end names of the server and of its client, the draws of
  \<open>rand.Intn\<close>, the address of the new \<open>labrpc.Server\<close>, the two services, the id of the new client, and what \<open>MakeServer\<close> returns.
\<close>

record ('w, 'v, 's) fresh =
  fr_names :: "nat \<Rightarrow> string"
  fr_MakeServer :: "LabrpcConnectionProvider \<Rightarrow> configuration \<Rightarrow> Persister \<Rightarrow> int \<Rightarrow> 's"
  fr_addr :: nat
  fr_anonsvc :: "('w, 'v) Service"
  fr_rfsvc :: "('w, 'v) Service"
  fr_client_names :: "nat \<Rightarrow> string"
  fr_draw :: "nat \<Rightarrow> nat"
  fr_client :: uuid

text \<open>
  \<open>makeClient\<close>: the server, the connection provider and the seed configuration that it passes to \<open>NewClient\<close>, and the configuration
  with the new client.
\<close>

definition makeClient :: "('w, 'v, 's) Config \<Rightarrow> ('w, 'v, 's) fresh \<Rightarrow> nat \<Rightarrow> nat list \<Rightarrow>
    (('s option \<times> LabrpcConnectionProvider \<times> configuration) \<times> ('w, 'v, 's) Config) go" where
  "makeClient cfg fr localSrv to =
     (let names = map (fr_client_names fr) [0..<cf_n cfg]
      in go_bind (make_ends 0 names (cf_net cfg)) (\<lambda>(ends, rn).
         go_bind (go_index (cf_servers cfg) localSrv) (\<lambda>server.
         let cp = cp_New (random_handles (fr_draw fr) ends) (int localSrv);
             cfg = cfg\<lparr>cf_net := rn, cf_clients := AList.update (fr_client fr) names (cf_clients cfg)\<rparr>
         in go_bind (ConnectClientUnlocked cfg (fr_client fr) to) (\<lambda>cfg. Inr ((server, cp, all_servers (cf_n cfg)), cfg)))))"

subsection \<open>Servers\<close>

definition ShutdownServer :: "('s \<Rightarrow> 's) \<Rightarrow> ('w, 'v, 's) Config \<Rightarrow> nat \<Rightarrow> ('s option \<times> ('w, 'v, 's) Config) go" where
  "ShutdownServer kill cfg i =
     go_bind (disconnectUnlocked cfg i (cfg_All cfg)) (\<lambda>cfg.
     let cfg = cfg\<lparr>cf_net := DeleteServer (IntName (int i)) (cf_net cfg)\<rparr>
     in go_bind (go_index (cf_saved cfg) i) (\<lambda>ps.
        let cfg = cfg\<lparr>cf_saved := (cf_saved cfg)[i := map_option ps_Copy ps]\<rparr>
        in go_bind (go_index (cf_servers cfg) i) (\<lambda>kv.
           Inr (map_option kill kv, cfg\<lparr>cf_servers := (cf_servers cfg)[i := None]\<rparr>))))"

definition StartServer :: "('w, 'v, 's) Config \<Rightarrow> ('w, 'v, 's) fresh \<Rightarrow> nat \<Rightarrow> ('w, 'v, 's) Config go" where
  "StartServer cfg fr i =
     (let names = map (fr_names fr) [0..<cf_n cfg]
      in go_bind (go_store (cf_endnames cfg) i (Some names)) (\<lambda>endnames.
         go_bind (make_ends 0 names (cf_net cfg)) (\<lambda>(ends, rn).
         go_bind (go_index (cf_saved cfg) i) (\<lambda>ps.
         let ps = (case ps of Some ps \<Rightarrow> ps_Copy ps | None \<Rightarrow> MakePersister);
             cp = cp_New ends (int i);
             server = fr_MakeServer fr cp (cf_initialConfiguration cfg) ps (cf_maxraftstate cfg);
             srv = AddService (AddService lab_MakeServer (fr_anonsvc fr)) (fr_rfsvc fr);
             rn = AddServer (IntName (int i)) (fr_addr fr) (rn\<lparr>nw_objs := (nw_objs rn)(fr_addr fr := srv)\<rparr>);
             cfg = cfg\<lparr>cf_net := rn, cf_endnames := endnames, cf_saved := (cf_saved cfg)[i := Some ps],
               cf_servers := (cf_servers cfg)[i := Some server],
               cf_orderedMessagers := (cf_orderedMessagers cfg)[i := Some (Itoa (int i))]\<rparr>
         in go_bind (makeClient cfg fr i (cfg_All cfg)) (\<lambda>(_, cfg).
            Inr (cfg\<lparr>cf_orderedClientIds := (cf_orderedClientIds cfg)[i := fr_client fr]\<rparr>))))))"

fun leader_from :: "('s \<Rightarrow> bool) \<Rightarrow> 's option list \<Rightarrow> nat \<Rightarrow> nat \<Rightarrow> (bool \<times> nat) go" where
  "leader_from leads servers i 0 = Inr (False, 0)"
| "leader_from leads servers i (Suc n) =
     go_bind (go_index servers i) (\<lambda>server. case server of
         None \<Rightarrow> Inl NilDereference
       | Some kv \<Rightarrow> if leads kv then Inr (True, i) else leader_from leads servers (Suc i) n)"

definition Leader :: "('s \<Rightarrow> bool) \<Rightarrow> ('w, 'v, 's) Config \<Rightarrow> (bool \<times> nat) go" where
  "Leader leads cfg = leader_from leads (cf_servers cfg) 0 (cf_n cfg)"

text \<open>\<open>make_partition\<close>: the loop fills \<open>p1\<close>, then \<open>p2\<close>, with the servers other than the leader \<open>l\<close>.\<close>

fun split_loop :: "nat \<Rightarrow> nat \<Rightarrow> nat list \<Rightarrow> nat list \<Rightarrow> nat list \<Rightarrow> (nat list \<times> nat list) go" where
  "split_loop l j [] p1 p2 = Inr (p1, p2)"
| "split_loop l j (i # is) p1 p2 =
     (if i = l then split_loop l j is p1 p2
      else if j < length p1 then go_bind (go_store p1 j i) (\<lambda>p1. split_loop l (Suc j) is p1 p2)
      else go_bind (go_store p2 (j - length p1) i) (\<lambda>p2. split_loop l (Suc j) is p1 p2))"

definition make_partition :: "('s \<Rightarrow> bool) \<Rightarrow> ('w, 'v, 's) Config \<Rightarrow> (nat list \<times> nat list) go" where
  "make_partition leads cfg =
     go_bind (Leader leads cfg) (\<lambda>(_, l).
     go_bind (split_loop l 0 [0..<cf_n cfg] (replicate (cf_n cfg div 2 + 1) 0) (replicate (cf_n cfg div 2) 0)) (\<lambda>(p1, p2).
     if p2 = [] then Inl IndexOutOfRange else go_bind (go_store p2 (length p2 - 1) l) (\<lambda>p2. Inr (p1, p2))))"

fun start_each :: "(nat \<Rightarrow> ('w, 'v, 's) fresh) \<Rightarrow> ('w, 'v, 's) Config \<Rightarrow> nat list \<Rightarrow> ('w, 'v, 's) Config go" where
  "start_each fr cfg [] = Inr cfg"
| "start_each fr cfg (i # is) = go_bind (StartServer cfg (fr i) i) (\<lambda>cfg. start_each fr cfg is)"

definition make_config_with_initial_config ::
    "(nat \<Rightarrow> ('w, 'v, 's) fresh) \<Rightarrow> int \<Rightarrow> nat \<Rightarrow> bool \<Rightarrow> int \<Rightarrow> configuration \<Rightarrow> ('w, 'v, 's) Config go" where
  "make_config_with_initial_config fr now n unreliable maxraftstate initialConfiguration =
     (let cfg = \<lparr>cf_net = MakeNetwork, cf_n = n, cf_servers = replicate n None, cf_saved = replicate n None,
        cf_endnames = replicate n None, cf_clients = [], cf_maxraftstate = maxraftstate, cf_start = now, cf_t0 = 0, cf_rpcs0 = 0,
        cf_ops = 0, cf_initialConfiguration = initialConfiguration, cf_orderedClientIds = replicate n 0,
        cf_orderedMessagers = replicate n None\<rparr>
      in go_bind (start_each fr cfg [0..<n]) (\<lambda>cfg.
         go_bind (ConnectAll cfg) (\<lambda>cfg. Inr (cfg\<lparr>cf_net := Reliable (\<not> unreliable) (cf_net cfg)\<rparr>))))"

definition make_config :: "(nat \<Rightarrow> ('w, 'v, 's) fresh) \<Rightarrow> int \<Rightarrow> nat \<Rightarrow> bool \<Rightarrow> int \<Rightarrow> ('w, 'v, 's) Config go" where
  "make_config fr now n unreliable maxraftstate =
     make_config_with_initial_config fr now n unreliable maxraftstate (all_servers n)"

subsection \<open>The links between the servers\<close>

text \<open>
  \<open>started n names es\<close>: every server has its \<open>n\<close> end names, \<open>names i j\<close> for the end of \<open>i\<close> that leads to \<open>j\<close>. \<open>link\<close>: that end is enabled.
\<close>

definition started :: "nat \<Rightarrow> (nat \<Rightarrow> nat \<Rightarrow> string) \<Rightarrow> string list option list \<Rightarrow> bool" where
  "started n names es \<longleftrightarrow> es = map (\<lambda>i. Some (map (names i) [0..<n])) [0..<n]"

definition distinct_names :: "nat \<Rightarrow> (nat \<Rightarrow> nat \<Rightarrow> string) \<Rightarrow> bool" where
  "distinct_names n names \<longleftrightarrow> inj_on (\<lambda>(i, j). names i j) ({..<n} \<times> {..<n})"

definition link :: "(nat \<Rightarrow> nat \<Rightarrow> string) \<Rightarrow> ('w, 'v) Network \<Rightarrow> nat \<Rightarrow> nat \<Rightarrow> bool" where
  "link names rn i j \<longleftrightarrow> nw_enabled rn (StrName (names i j))"

definition set_names :: "string set \<Rightarrow> bool \<Rightarrow> ('w, 'v) Network \<Rightarrow> ('w, 'v) Network" where
  "set_names A b rn = rn\<lparr>nw_enabled := (\<lambda>e. if e \<in> StrName ` A then b else nw_enabled rn e)\<rparr>"

lemma set_names_set_names: "set_names A b (set_names B b rn) = set_names (A \<union> B) b rn"
  by (cases rn) (auto simp: set_names_def fun_eq_iff)

lemma set_names_empty [simp]: "set_names {} b rn = rn"
  by (simp add: set_names_def)

lemma Enable_set_names: "Enable (StrName e) b rn = set_names {e} b rn"
  by (simp add: Enable_def set_names_def fun_upd_def)

lemma started_endname: "started n names (cf_endnames cfg) \<Longrightarrow> i < n \<Longrightarrow> j < n \<Longrightarrow> endname_of cfg i j = Inr (names i j)"
  by (simp add: started_def endname_of_def go_index_def)

lemma enable_each_eq:
  "(\<And>j. j \<in> set js \<Longrightarrow> name_at j = Inr (f j)) \<Longrightarrow> enable_each name_at b js rn = Inr (set_names (f ` set js) b rn)"
  by (induction js arbitrary: rn) (simp_all add: Enable_set_names set_names_set_names)

lemma disable_outgoing_eq:
  "started n names (cf_endnames cfg) \<Longrightarrow> i < n \<Longrightarrow> set ts \<subseteq> {..<n} \<Longrightarrow>
   disable_outgoing cfg i ts rn = Inr (set_names (names i ` set ts) False rn)"
proof (induction ts arbitrary: rn)
  case (Cons t ts)
  then have "go_index (cf_endnames cfg) i = Inr (Some (map (names i) [0..<n]))" by (simp add: started_def go_index_def)
  with Cons show ?case by (simp add: started_endname Enable_set_names set_names_set_names)
qed simp

lemma disable_incoming_eq:
  "started n names (cf_endnames cfg) \<Longrightarrow> i < n \<Longrightarrow> set ts \<subseteq> {..<n} \<Longrightarrow> j + length ts \<le> n \<Longrightarrow>
   disable_incoming cfg i j ts rn = Inr (set_names ((\<lambda>t. names t i) ` set ts) False rn)"
proof (induction ts arbitrary: j rn)
  case (Cons t ts)
  then have "go_index (cf_endnames cfg) j = Inr (Some (map (names j) [0..<n]))" by (simp add: started_def go_index_def)
  with Cons show ?case by (simp add: started_endname Enable_set_names set_names_set_names)
qed simp

definition links_of :: "(nat \<Rightarrow> nat \<Rightarrow> string) \<Rightarrow> nat \<Rightarrow> nat list \<Rightarrow> string set" where
  "links_of names i ts = (\<Union>t \<in> set ts. {names i t, names t i})"

lemma links_of_eq: "links_of names i ts = (\<lambda>t. names t i) ` set ts \<union> names i ` set ts"
  by (auto simp: links_of_def)

lemma connectUnlocked_eq:
  assumes "started n names (cf_endnames cfg)" "i < n" "set ts \<subseteq> {..<n}"
  shows "connectUnlocked cfg i ts = Inr (cfg\<lparr>cf_net := set_names (links_of names i ts) True (cf_net cfg)\<rparr>)"
proof -
  have out: "\<And>t. t \<in> set ts \<Longrightarrow> endname_of cfg i t = Inr (names i t)"
    and inc: "\<And>t. t \<in> set ts \<Longrightarrow> endname_of cfg t i = Inr (names t i)"
    using assms by (auto intro!: started_endname)
  show ?thesis
    by (simp add: connectUnlocked_def enable_each_eq [of ts _ "names i", OF out] enable_each_eq [of ts _ "\<lambda>t. names t i", OF inc]
        set_names_set_names links_of_eq)
qed

lemma disconnectUnlocked_eq:
  "started n names (cf_endnames cfg) \<Longrightarrow> i < n \<Longrightarrow> set ts \<subseteq> {..<n} \<Longrightarrow> length ts \<le> n \<Longrightarrow>
   disconnectUnlocked cfg i ts = Inr (cfg\<lparr>cf_net := set_names (links_of names i ts) False (cf_net cfg)\<rparr>)"
  by (simp add: disconnectUnlocked_def disable_outgoing_eq disable_incoming_eq set_names_set_names links_of_eq)

lemma link_set_names:
  assumes "distinct_names n names" "a < n" "b < n" "i < n" "set ts \<subseteq> {..<n}"
  shows "link names (set_names (links_of names i ts) v rn) a b \<longleftrightarrow>
    (if a = i \<and> b \<in> set ts \<or> b = i \<and> a \<in> set ts then v else link names rn a b)"
proof -
  have inj: "names a b = names c d \<longleftrightarrow> a = c \<and> b = d" if "c < n" "d < n" for c d
    using inj_on_eq_iff [OF assms(1) [unfolded distinct_names_def], of "(a, b)" "(c, d)"] assms that by auto
  have "names a b \<in> links_of names i ts \<longleftrightarrow> a = i \<and> b \<in> set ts \<or> b = i \<and> a \<in> set ts"
    using assms by (auto simp: links_of_def inj subset_eq)
  then show ?thesis by (auto simp: link_def set_names_def image_iff)
qed

definition connects :: "nat set \<Rightarrow> nat set \<Rightarrow> nat \<Rightarrow> nat \<Rightarrow> bool" where
  "connects A B a b \<longleftrightarrow> a \<in> A \<and> b \<in> B \<or> b \<in> A \<and> a \<in> B"

lemma regroup_eq:
  assumes "started n names (cf_endnames cfg)" "distinct_names n names" "set is \<subseteq> set same" "set same \<subseteq> {..<n}"
    "set other \<subseteq> {..<n}" "length other \<le> n" "set same \<inter> set other = {}"
  shows "\<exists>rn. regroup cfg is same other = Inr (cfg\<lparr>cf_net := rn\<rparr>) \<and>
    (\<forall>a < n. \<forall>b < n. link names rn a b \<longleftrightarrow>
      connects (set is) (set same) a b \<or> \<not> connects (set is) (set other) a b \<and> link names (cf_net cfg) a b)"
  using assms
proof (induction "is" arbitrary: cfg)
  case Nil
  show ?case by (rule exI [of _ "cf_net cfg"]) (simp add: connects_def)
next
  case (Cons i "is")
  define rn1 where "rn1 = set_names (links_of names i other) False (cf_net cfg)"
  define rn2 where "rn2 = set_names (links_of names i same) True rn1"
  have i: "i < n" "i \<in> set same" using Cons.prems by auto
  have run: "regroup cfg (i # is) same other = regroup (cfg\<lparr>cf_net := rn2\<rparr>) is same other"
    using Cons.prems i by (simp add: disconnectUnlocked_eq connectUnlocked_eq rn1_def rn2_def)
  from Cons.IH [of "cfg\<lparr>cf_net := rn2\<rparr>"] Cons.prems obtain rn where
    rn: "regroup (cfg\<lparr>cf_net := rn2\<rparr>) is same other = Inr (cfg\<lparr>cf_net := rn\<rparr>)" and
    after: "\<And>a b. a < n \<Longrightarrow> b < n \<Longrightarrow> link names rn a b \<longleftrightarrow>
      connects (set is) (set same) a b \<or> \<not> connects (set is) (set other) a b \<and> link names rn2 a b" by auto
  have step: "link names rn2 a b \<longleftrightarrow> connects {i} (set same) a b \<or> \<not> connects {i} (set other) a b \<and> link names (cf_net cfg) a b"
    if "a < n" "b < n" for a b
    using that i(1) Cons.prems by (auto simp: rn1_def rn2_def link_set_names connects_def)
  have apart: "\<not> connects (set is) (set other) a b" if "connects {i} (set same) a b" for a b
    using that Cons.prems i(2) by (auto simp: connects_def)
  have "link names rn a b \<longleftrightarrow> connects (set (i # is)) (set same) a b \<or>
      \<not> connects (set (i # is)) (set other) a b \<and> link names (cf_net cfg) a b" if "a < n" "b < n" for a b
    unfolding after [OF that] step [OF that] using apart [of a b] by (auto simp: connects_def)
  with run rn show ?case by auto
qed

lemma partition_links:
  assumes "started n names (cf_endnames cfg)" "distinct_names n names" "set p1 \<union> set p2 \<subseteq> {..<n}" "length p1 \<le> n" "length p2 \<le> n"
    "set p1 \<inter> set p2 = {}"
  shows "\<exists>rn. cfg_partition cfg p1 p2 = Inr (cfg\<lparr>cf_net := rn\<rparr>) \<and>
    (\<forall>a < n. \<forall>b < n. link names rn a b \<longleftrightarrow> a \<in> set p1 \<and> b \<in> set p1 \<or> a \<in> set p2 \<and> b \<in> set p2 \<or>
       \<not> connects (set p1) (set p2) a b \<and> link names (cf_net cfg) a b)"
proof -
  from regroup_eq [of n names cfg p1 p1 p2] assms obtain rn1 where
    rn1: "regroup cfg p1 p1 p2 = Inr (cfg\<lparr>cf_net := rn1\<rparr>)" and
    one: "\<And>a b. a < n \<Longrightarrow> b < n \<Longrightarrow> link names rn1 a b \<longleftrightarrow>
      connects (set p1) (set p1) a b \<or> \<not> connects (set p1) (set p2) a b \<and> link names (cf_net cfg) a b" by auto
  from regroup_eq [of n names "cfg\<lparr>cf_net := rn1\<rparr>" p2 p2 p1] assms obtain rn2 where
    rn2: "regroup (cfg\<lparr>cf_net := rn1\<rparr>) p2 p2 p1 = Inr (cfg\<lparr>cf_net := rn2\<rparr>)" and
    two: "\<And>a b. a < n \<Longrightarrow> b < n \<Longrightarrow> link names rn2 a b \<longleftrightarrow>
      connects (set p2) (set p2) a b \<or> \<not> connects (set p2) (set p1) a b \<and> link names rn1 a b" by (auto simp: Int_commute)
  have "link names rn2 a b \<longleftrightarrow> a \<in> set p1 \<and> b \<in> set p1 \<or> a \<in> set p2 \<and> b \<in> set p2 \<or>
       \<not> connects (set p1) (set p2) a b \<and> link names (cf_net cfg) a b" if "a < n" "b < n" for a b
    unfolding two [OF that] one [OF that] using assms(6) by (auto simp: connects_def)
  with rn1 rn2 show ?thesis by (auto simp: cfg_partition_def)
qed

subsection \<open>Starting the servers\<close>

lemma make_ends_eq:
  "distinct names \<Longrightarrow> StrName ` set names \<inter> dom (nw_ends rn) = {} \<Longrightarrow>
   \<exists>rn'. make_ends j names rn = Inr (map (\<lambda>e. \<lparr>ce_endname = StrName e\<rparr>) names, rn') \<and>
     dom (nw_ends rn') = StrName ` set names \<union> dom (nw_ends rn) \<and> nw_servers rn' = nw_servers rn \<and>
     (\<forall>e. e \<notin> StrName ` set names \<longrightarrow> nw_connections rn' e = nw_connections rn e) \<and>
     (\<forall>k < length names. nw_connections rn' (StrName (names ! k)) = Some (IntName (int (j + k))))"
proof (induction names arbitrary: j rn)
  case (Cons e names)
  define rn1 where "rn1 = Connect (StrName e) (IntName (int j)) (rn\<lparr>nw_ends := (nw_ends rn)(StrName e \<mapsto> \<lparr>ce_endname = StrName e\<rparr>),
    nw_enabled := (nw_enabled rn)(StrName e := False), nw_connections := (nw_connections rn)(StrName e := None)\<rparr>)"
  have run: "make_ends j (e # names) rn =
      go_bind (make_ends (Suc j) names rn1) (\<lambda>(es, rn). Inr (\<lparr>ce_endname = StrName e\<rparr> # es, rn))"
    using Cons.prems by (auto simp: MakeEnd_def rn1_def Let_def)
  have at: "nw_ends rn1 = (nw_ends rn)(StrName e \<mapsto> \<lparr>ce_endname = StrName e\<rparr>)" "nw_servers rn1 = nw_servers rn"
    "nw_connections rn1 = (nw_connections rn)(StrName e \<mapsto> IntName (int j))" by (simp_all add: rn1_def Connect_def)
  have names: "distinct names" and free: "StrName ` set names \<inter> dom (nw_ends rn1) = {}" using Cons.prems by (auto simp: at)
  from Cons.IH [OF names free, of "Suc j"] obtain rn' where
    rn': "make_ends (Suc j) names rn1 = Inr (map (\<lambda>e. \<lparr>ce_endname = StrName e\<rparr>) names, rn')"
      "dom (nw_ends rn') = StrName ` set names \<union> dom (nw_ends rn1)" "nw_servers rn' = nw_servers rn1"
    and other: "\<And>e. e \<notin> StrName ` set names \<Longrightarrow> nw_connections rn' e = nw_connections rn1 e"
    and each: "\<And>k. k < length names \<Longrightarrow> nw_connections rn' (StrName (names ! k)) = Some (IntName (int (Suc j + k)))"
    by blast
  have "nw_connections rn' (StrName ((e # names) ! k)) = Some (IntName (int (j + k)))" if "k < length (e # names)" for k
    using that Cons.prems(1) each other [of "StrName e"] by (cases k) (auto simp: at)
  with rn' other run show ?case by (auto simp: at)
qed simp

lemma set_names_fields [simp]:
  "nw_ends (set_names A b rn) = nw_ends rn" "nw_servers (set_names A b rn) = nw_servers rn"
  "nw_connections (set_names A b rn) = nw_connections rn" "nw_reliable (set_names A b rn) = nw_reliable rn"
  by (simp_all add: set_names_def)

lemma ConnectClientUnlocked_new:
  assumes "set to \<subseteq> {..<n}" and clients: "cf_clients cfg = AList.update cl (map f [0..<n]) cls"
  shows "ConnectClientUnlocked cfg cl to = Inr (cfg\<lparr>cf_net := set_names (f ` set to) True (cf_net cfg)\<rparr>)"
proof -
  have "go_index (client_names cfg cl) j = Inr (f j)" if "j \<in> set to" for j
    using that assms(1) by (auto simp: client_names_def clients update_conv' go_index_def subset_eq)
  then show ?thesis by (simp add: ConnectClientUnlocked_def enable_each_eq [of to _ f])
qed

lemma makeClient_eq:
  fixes cfg :: "('w, 'v, 's) Config"
  assumes "distinct (map (fr_client_names fr) [0..<n])" "StrName ` fr_client_names fr ` {..<n} \<inter> dom (nw_ends (cf_net cfg)) = {}"
    and "cf_n cfg = n" "i < length (cf_servers cfg)" "set to \<subseteq> {..<n}"
  shows "\<exists>res rn. makeClient cfg fr i to = Inr (res, cfg\<lparr>cf_net := rn,
      cf_clients := AList.update (fr_client fr) (map (fr_client_names fr) [0..<n]) (cf_clients cfg)\<rparr>) \<and>
    dom (nw_ends rn) = StrName ` fr_client_names fr ` {..<n} \<union> dom (nw_ends (cf_net cfg)) \<and> nw_servers rn = nw_servers (cf_net cfg) \<and>
    (\<forall>e. e \<notin> StrName ` fr_client_names fr ` {..<n} \<longrightarrow> nw_connections rn e = nw_connections (cf_net cfg) e)"
proof -
  let ?names = "map (fr_client_names fr) [0..<n]"
  have set: "set ?names = fr_client_names fr ` {..<n}" by (auto simp: atLeast0LessThan)
  from make_ends_eq [of ?names "cf_net cfg" 0] assms(1,2) obtain ends rn where
    ends: "make_ends 0 ?names (cf_net cfg) = Inr (ends, rn)"
      "dom (nw_ends rn) = StrName ` fr_client_names fr ` {..<n} \<union> dom (nw_ends (cf_net cfg))" "nw_servers rn = nw_servers (cf_net cfg)"
      "\<forall>e. e \<notin> StrName ` fr_client_names fr ` {..<n} \<longrightarrow> nw_connections rn e = nw_connections (cf_net cfg) e"
    unfolding set by blast
  define cfg' where "cfg' = cfg\<lparr>cf_net := rn, cf_clients := AList.update (fr_client fr) ?names (cf_clients cfg)\<rparr>"
  have "ConnectClientUnlocked cfg' (fr_client fr) to =
      Inr (cfg'\<lparr>cf_net := set_names (fr_client_names fr ` set to) True (cf_net cfg')\<rparr>)"
    using assms(5) by (intro ConnectClientUnlocked_new) (auto simp: cfg'_def)
  then have "makeClient cfg fr i to = Inr ((cf_servers cfg ! i, cp_New (random_handles (fr_draw fr) ends) (int i), all_servers n),
      cfg\<lparr>cf_net := set_names (fr_client_names fr ` set to) True rn,
        cf_clients := AList.update (fr_client fr) ?names (cf_clients cfg)\<rparr>)"
    using ends(1) assms(3,4) by (simp add: makeClient_def go_index_def Let_def cfg'_def)
  with ends(2-4) show ?thesis
    by (intro exI [of _ "(cf_servers cfg ! i, cp_New (random_handles (fr_draw fr) ends) (int i), all_servers n)"]
        exI [of _ "set_names (fr_client_names fr ` set to) True rn"]) simp
qed

text \<open>
  \<open>fresh_names\<close>: no two of the random names drawn for the \<open>n\<close> servers and their clients are the same. \<open>begun m\<close>: the first \<open>m\<close> servers of the
  configuration are started.
\<close>

definition names_at :: "nat \<Rightarrow> ('w, 'v, 's) fresh \<Rightarrow> string list" where
  "names_at n f = map (fr_names f) [0..<n] @ map (fr_client_names f) [0..<n]"

definition fresh_names :: "nat \<Rightarrow> (nat \<Rightarrow> ('w, 'v, 's) fresh) \<Rightarrow> bool" where
  "fresh_names n fr \<longleftrightarrow> (\<forall>i < n. distinct (names_at n (fr i)) \<and> (\<forall>j < i. set (names_at n (fr i)) \<inter> set (names_at n (fr j)) = {}))"

definition server_started :: "nat \<Rightarrow> ('w, 'v, 's) fresh \<Rightarrow> ('w, 'v, 's) Config \<Rightarrow> nat \<Rightarrow> bool" where
  "server_started n f cfg i \<longleftrightarrow>
     cf_servers cfg ! i \<noteq> None \<and> cf_saved cfg ! i \<noteq> None \<and> cf_orderedMessagers cfg ! i = Some (Itoa (int i)) \<and>
     cf_orderedClientIds cfg ! i = fr_client f \<and> cf_endnames cfg ! i = Some (map (fr_names f) [0..<n]) \<and>
     nw_servers (cf_net cfg) (IntName (int i)) = Some (fr_addr f) \<and>
     (\<forall>j < n. nw_connections (cf_net cfg) (StrName (fr_names f j)) = Some (IntName (int j)))"

definition shape :: "nat \<Rightarrow> ('w, 'v, 's) Config \<Rightarrow> bool" where
  "shape n cfg \<longleftrightarrow> cf_n cfg = n \<and> length (cf_saved cfg) = n \<and> length (cf_servers cfg) = n \<and> length (cf_endnames cfg) = n \<and>
     length (cf_orderedClientIds cfg) = n \<and> length (cf_orderedMessagers cfg) = n"

definition begun :: "nat \<Rightarrow> (nat \<Rightarrow> ('w, 'v, 's) fresh) \<Rightarrow> nat \<Rightarrow> ('w, 'v, 's) Config \<Rightarrow> bool" where
  "begun n fr m cfg \<longleftrightarrow> shape n cfg \<and> dom (nw_ends (cf_net cfg)) = StrName ` (\<Union>i < m. set (names_at n (fr i))) \<and>
     (\<forall>i < m. server_started n (fr i) cfg i)"

lemma set_names_at: "set (names_at n f) = fr_names f ` {..<n} \<union> fr_client_names f ` {..<n}"
  by (auto simp: names_at_def atLeast0LessThan)

lemma StartServer_eq:
  fixes cfg :: "('w, 'v, 's) Config"
  assumes shape: "shape n cfg" and m: "m < n" and distinct: "distinct (names_at n f)"
    and new: "StrName ` set (names_at n f) \<inter> dom (nw_ends (cf_net cfg)) = {}"
  shows "\<exists>ps server rn clients. StartServer cfg f m = Inr (cfg\<lparr>cf_net := rn, cf_clients := clients,
      cf_endnames := (cf_endnames cfg)[m := Some (map (fr_names f) [0..<n])], cf_saved := (cf_saved cfg)[m := Some ps],
      cf_servers := (cf_servers cfg)[m := Some server], cf_orderedMessagers := (cf_orderedMessagers cfg)[m := Some (Itoa (int m))],
      cf_orderedClientIds := (cf_orderedClientIds cfg)[m := fr_client f]\<rparr>) \<and>
    dom (nw_ends rn) = StrName ` set (names_at n f) \<union> dom (nw_ends (cf_net cfg)) \<and>
    nw_servers rn = (nw_servers (cf_net cfg))(IntName (int m) \<mapsto> fr_addr f) \<and>
    (\<forall>k < n. nw_connections rn (StrName (fr_names f k)) = Some (IntName (int k))) \<and>
    (\<forall>e. e \<notin> StrName ` set (names_at n f) \<longrightarrow> nw_connections rn e = nw_connections (cf_net cfg) e)"
proof -
  let ?names = "map (fr_names f) [0..<n]" and ?cnames = "map (fr_client_names f) [0..<n]"
  have set: "set ?names = fr_names f ` {..<n}" by (auto simp: atLeast0LessThan)
  have dist: "distinct ?names" "distinct ?cnames" "fr_names f ` {..<n} \<inter> fr_client_names f ` {..<n} = {}"
    using distinct by (auto simp: names_at_def atLeast0LessThan)
  have "StrName ` set ?names \<inter> dom (nw_ends (cf_net cfg)) = {}" using new unfolding set set_names_at by auto
  from make_ends_eq [OF dist(1) this, of 0] obtain ends rn1 where
    ends: "make_ends 0 ?names (cf_net cfg) = Inr (ends, rn1)"
      "dom (nw_ends rn1) = StrName ` fr_names f ` {..<n} \<union> dom (nw_ends (cf_net cfg))" "nw_servers rn1 = nw_servers (cf_net cfg)"
    and keep1: "\<And>e. e \<notin> StrName ` fr_names f ` {..<n} \<Longrightarrow> nw_connections rn1 e = nw_connections (cf_net cfg) e"
    and each: "\<And>k. k < n \<Longrightarrow> nw_connections rn1 (StrName (fr_names f k)) = Some (IntName (int k))"
    unfolding set by auto
  define ps where "ps = (case cf_saved cfg ! m of Some ps \<Rightarrow> ps_Copy ps | None \<Rightarrow> MakePersister)"
  define server where "server = fr_MakeServer f (cp_New ends (int m)) (cf_initialConfiguration cfg) ps (cf_maxraftstate cfg)"
  define rn2 where "rn2 = AddServer (IntName (int m)) (fr_addr f)
    (rn1\<lparr>nw_objs := (nw_objs rn1)(fr_addr f := AddService (AddService lab_MakeServer (fr_anonsvc f)) (fr_rfsvc f))\<rparr>)"
  define cfg1 where "cfg1 = cfg\<lparr>cf_net := rn2, cf_endnames := (cf_endnames cfg)[m := Some ?names], cf_saved := (cf_saved cfg)[m := Some ps],
    cf_servers := (cf_servers cfg)[m := Some server], cf_orderedMessagers := (cf_orderedMessagers cfg)[m := Some (Itoa (int m))]\<rparr>"
  have rn2: "nw_ends rn2 = nw_ends rn1" "nw_connections rn2 = nw_connections rn1"
    "nw_servers rn2 = (nw_servers (cf_net cfg))(IntName (int m) \<mapsto> fr_addr f)" "cf_net cfg1 = rn2"
    by (simp_all add: rn2_def AddServer_def ends cfg1_def)
  have "StrName ` fr_client_names f ` {..<n} \<inter> dom (nw_ends (cf_net cfg1)) = {}"
    using new dist(3) unfolding set_names_at by (auto simp: rn2 ends)
  moreover have "cf_n cfg1 = n" "m < length (cf_servers cfg1)" "set [0..<n] \<subseteq> {..<n}" using m shape by (auto simp: cfg1_def shape_def)
  ultimately obtain res rn where
    made: "makeClient cfg1 f m [0..<n] = Inr (res, cfg1\<lparr>cf_net := rn, cf_clients := AList.update (fr_client f) ?cnames (cf_clients cfg1)\<rparr>)"
      "dom (nw_ends rn) = StrName ` fr_client_names f ` {..<n} \<union> dom (nw_ends rn1)" "nw_servers rn = nw_servers rn2"
    and keep2: "\<And>e. e \<notin> StrName ` fr_client_names f ` {..<n} \<Longrightarrow> nw_connections rn e = nw_connections rn1 e"
    using makeClient_eq [OF dist(2), of cfg1 m "[0..<n]"] unfolding rn2 by auto
  have "StartServer cfg f m = Inr (cfg1\<lparr>cf_net := rn, cf_clients := AList.update (fr_client f) ?cnames (cf_clients cfg1),
      cf_orderedClientIds := (cf_orderedClientIds cfg)[m := fr_client f]\<rparr>)"
    using ends(1) made(1) m shape
    by (simp add: StartServer_def Let_def go_store_def go_index_def cfg_All_def ps_def [symmetric] server_def [symmetric]
        rn2_def [symmetric] cfg1_def shape_def)
  moreover have "nw_connections rn (StrName (fr_names f k)) = Some (IntName (int k))" if "k < n" for k
    using keep2 [of "StrName (fr_names f k)"] dist(3) each [OF that] that by auto
  moreover have "nw_connections rn e = nw_connections (cf_net cfg) e" if "e \<notin> StrName ` set (names_at n f)" for e
    using that unfolding set_names_at image_Un by (simp add: keep1 keep2)
  moreover have "dom (nw_ends rn) = StrName ` set (names_at n f) \<union> dom (nw_ends (cf_net cfg))"
    unfolding set_names_at by (auto simp: made ends)
  ultimately show ?thesis using made(3) by (intro exI [of _ ps] exI [of _ server] exI [of _ rn]
      exI [of _ "AList.update (fr_client f) ?cnames (cf_clients cfg)"]) (auto simp: cfg1_def rn2)
qed

lemma StartServer_runs:
  fixes cfg :: "('w, 'v, 's) Config"
  assumes shape: "shape n cfg" and m: "m < n" and distinct: "distinct (names_at n f)"
    and new: "StrName ` set (names_at n f) \<inter> dom (nw_ends (cf_net cfg)) = {}"
  shows "\<exists>cfg'. StartServer cfg f m = Inr cfg' \<and> shape n cfg' \<and>
    dom (nw_ends (cf_net cfg')) = StrName ` set (names_at n f) \<union> dom (nw_ends (cf_net cfg)) \<and> server_started n f cfg' m \<and>
    (\<forall>i g. i \<noteq> m \<longrightarrow> server_started n g cfg i \<longrightarrow> set (names_at n g) \<inter> set (names_at n f) = {} \<longrightarrow> server_started n g cfg' i)"
proof -
  from StartServer_eq [OF assms] obtain cfg' ps server where run: "StartServer cfg f m = Inr cfg'"
    and fields: "cf_endnames cfg' = (cf_endnames cfg)[m := Some (map (fr_names f) [0..<n])]" "cf_n cfg' = cf_n cfg"
      "cf_saved cfg' = (cf_saved cfg)[m := Some ps]" "cf_servers cfg' = (cf_servers cfg)[m := Some server]"
      "cf_orderedMessagers cfg' = (cf_orderedMessagers cfg)[m := Some (Itoa (int m))]"
      "cf_orderedClientIds cfg' = (cf_orderedClientIds cfg)[m := fr_client f]"
      "nw_servers (cf_net cfg') = (nw_servers (cf_net cfg))(IntName (int m) \<mapsto> fr_addr f)"
    and dom: "dom (nw_ends (cf_net cfg')) = StrName ` set (names_at n f) \<union> dom (nw_ends (cf_net cfg))"
    and each: "\<And>k. k < n \<Longrightarrow> nw_connections (cf_net cfg') (StrName (fr_names f k)) = Some (IntName (int k))"
    and keep: "\<And>e. e \<notin> StrName ` set (names_at n f) \<Longrightarrow> nw_connections (cf_net cfg') e = nw_connections (cf_net cfg) e"
    by auto
  have "server_started n g cfg' i"
    if i: "i \<noteq> m" "server_started n g cfg i" and apart: "set (names_at n g) \<inter> set (names_at n f) = {}" for i g
  proof -
    have "nw_connections (cf_net cfg') (StrName (fr_names g k)) = nw_connections (cf_net cfg) (StrName (fr_names g k))" if "k < n" for k
      using apart that unfolding set_names_at by (intro keep) (auto simp: set_names_at)
    with i fields show ?thesis by (auto simp: server_started_def)
  qed
  moreover have "server_started n f cfg' m" using m shape fields each by (auto simp: server_started_def shape_def)
  moreover have "shape n cfg'" using shape fields by (auto simp: shape_def)
  ultimately show ?thesis using run dom by blast
qed

lemma inj_StrName: "inj StrName"
  by (simp add: inj_on_def)

lemma StartServer_begun:
  assumes begun: "begun n fr m cfg" and m: "m < n" and fresh: "fresh_names n fr"
  shows "\<exists>cfg'. StartServer cfg (fr m) m = Inr cfg' \<and> begun n fr (Suc m) cfg'"
proof -
  have new: "set (names_at n (fr m)) \<inter> set (names_at n (fr i)) = {}" if "i < m" for i
    using fresh m that by (simp add: fresh_names_def)
  have shape: "shape n cfg" and dom: "dom (nw_ends (cf_net cfg)) = StrName ` (\<Union>i < m. set (names_at n (fr i)))"
    and before: "\<And>i. i < m \<Longrightarrow> server_started n (fr i) cfg i" using begun by (simp_all add: begun_def)
  have "set (names_at n (fr m)) \<inter> (\<Union>i < m. set (names_at n (fr i))) = {}" using new by blast
  then have apart: "StrName ` set (names_at n (fr m)) \<inter> dom (nw_ends (cf_net cfg)) = {}"
    unfolding dom by (simp flip: image_Int [OF inj_StrName])
  have "distinct (names_at n (fr m))" using fresh m by (simp add: fresh_names_def)
  from StartServer_runs [OF shape m this apart] obtain cfg' where
    cfg': "StartServer cfg (fr m) m = Inr cfg'" "shape n cfg'" "server_started n (fr m) cfg' m"
      "dom (nw_ends (cf_net cfg')) = StrName ` set (names_at n (fr m)) \<union> dom (nw_ends (cf_net cfg))"
    and old: "\<And>i g. i \<noteq> m \<Longrightarrow> server_started n g cfg i \<Longrightarrow> set (names_at n g) \<inter> set (names_at n (fr m)) = {} \<Longrightarrow>
      server_started n g cfg' i"
    by blast
  have "server_started n (fr i) cfg' i" if "i < Suc m" for i
    using that cfg'(3) old [of i "fr i"] new [of i] before [of i] by (cases "i = m") (simp_all add: Int_commute)
  then have "begun n fr (Suc m) cfg'" using cfg'(2,4) by (simp add: begun_def dom lessThan_Suc image_Un)
  with cfg'(1) show ?thesis by blast
qed

lemma start_each_begun:
  "begun n fr m cfg \<Longrightarrow> m + k \<le> n \<Longrightarrow> fresh_names n fr \<Longrightarrow>
   \<exists>cfg'. start_each fr cfg [m..<m + k] = Inr cfg' \<and> begun n fr (m + k) cfg'"
proof (induction k arbitrary: m cfg)
  case (Suc k)
  from StartServer_begun [OF Suc.prems(1) _ Suc.prems(3)] Suc.prems(2) obtain cfg1 where
    one: "StartServer cfg (fr m) m = Inr cfg1" "begun n fr (Suc m) cfg1" by auto
  from Suc.IH [OF one(2) _ Suc.prems(3)] Suc.prems(2) obtain cfg' where
    "start_each fr cfg1 [Suc m..<Suc m + k] = Inr cfg'" "begun n fr (Suc m + k) cfg'" by auto
  moreover have "[m..<m + Suc k] = m # [Suc m..<Suc m + k]" by (simp add: upt_conv_Cons)
  ultimately show ?case using one(1) by simp
qed simp

lemma begun_started: "begun n fr n cfg \<Longrightarrow> started n (\<lambda>i. fr_names (fr i)) (cf_endnames cfg)"
  by (auto simp: begun_def shape_def server_started_def started_def intro!: nth_equalityI)

lemma fresh_distinct:
  assumes "fresh_names n fr"
  shows "distinct_names n (\<lambda>i. fr_names (fr i))"
proof -
  have same: "j = l" if "i < n" "j < n" "l < n" "fr_names (fr i) j = fr_names (fr i) l" for i j l
  proof -
    have "inj_on (fr_names (fr i)) {0..<n}" using assms that(1) by (simp add: fresh_names_def names_at_def distinct_map)
    with that show ?thesis by (auto dest: inj_onD)
  qed
  have apart: "fr_names (fr i) j \<noteq> fr_names (fr k) l" if "i < n" "j < n" "k < i" "l < n" for i j k l
  proof -
    have "set (names_at n (fr i)) \<inter> set (names_at n (fr k)) = {}" using assms that by (simp add: fresh_names_def)
    moreover have "fr_names (fr i) j \<in> set (names_at n (fr i))" "fr_names (fr k) l \<in> set (names_at n (fr k))"
      using that by (simp_all add: set_names_at)
    ultimately show ?thesis by (metis disjoint_iff)
  qed
  show ?thesis unfolding distinct_names_def
  proof (rule inj_onI, clarsimp)
    fix i j k l assume "i < n" "j < n" "k < n" "l < n" and eq: "fr_names (fr i) j = fr_names (fr k) l"
    then show "i = k \<and> j = l"
      using same [of i j l] apart [of i j k l] apart [of k l i j] by (cases i k rule: linorder_cases) auto
  qed
qed

lemma connect_all_from_eq:
  assumes "started n names (cf_endnames cfg)" "distinct_names n names" "cf_n cfg = n" "set is \<subseteq> {..<n}"
  shows "\<exists>rn. connect_all_from cfg is = Inr (cfg\<lparr>cf_net := rn\<rparr>) \<and> nw_servers rn = nw_servers (cf_net cfg) \<and>
    nw_connections rn = nw_connections (cf_net cfg) \<and>
    (\<forall>a < n. \<forall>b < n. link names rn a b \<longleftrightarrow> a \<in> set is \<or> b \<in> set is \<or> link names (cf_net cfg) a b)"
  using assms
proof (induction "is" arbitrary: cfg)
  case Nil
  show ?case by (rule exI [of _ "cf_net cfg"]) simp
next
  case (Cons i "is")
  let ?rn = "set_names (links_of names i [0..<n]) True (cf_net cfg)"
  have "connectUnlocked cfg i (cfg_All cfg) = Inr (cfg\<lparr>cf_net := ?rn\<rparr>)"
    using Cons.prems by (intro connectUnlocked_eq [THEN trans]) (auto simp: cfg_All_def)
  moreover have "link names ?rn a b \<longleftrightarrow> a = i \<or> b = i \<or> link names (cf_net cfg) a b" if "a < n" "b < n" for a b
    using Cons.prems that by (subst link_set_names) auto
  ultimately show ?case using Cons.IH [of "cfg\<lparr>cf_net := ?rn\<rparr>"] Cons.prems by auto
qed

lemma make_config_begun:
  assumes fresh: "fresh_names n fr"
  shows "\<exists>cfg. make_config fr now n unreliable maxraftstate = Inr cfg \<and> cf_n cfg = n \<and> length (cf_servers cfg) = n \<and>
    started n (\<lambda>i. fr_names (fr i)) (cf_endnames cfg) \<and> nw_reliable (cf_net cfg) = (\<not> unreliable) \<and>
    (\<forall>i < n. server_started n (fr i) cfg i \<and> (\<forall>j < n. link (\<lambda>i. fr_names (fr i)) (cf_net cfg) i j))"
proof -
  let ?names = "\<lambda>i. fr_names (fr i)"
  define cfg0 :: "('a, 'b, 'c) Config" where "cfg0 = \<lparr>cf_net = MakeNetwork, cf_n = n, cf_servers = replicate n None,
    cf_saved = replicate n None, cf_endnames = replicate n None, cf_clients = [], cf_maxraftstate = maxraftstate, cf_start = now,
    cf_t0 = 0, cf_rpcs0 = 0, cf_ops = 0, cf_initialConfiguration = all_servers n, cf_orderedClientIds = replicate n 0,
    cf_orderedMessagers = replicate n None\<rparr>"
  have "begun n fr 0 cfg0" by (simp add: begun_def shape_def cfg0_def MakeNetwork_def)
  from start_each_begun [OF this _ fresh, of n] obtain cfg1 where
    cfg1: "start_each fr cfg0 [0..<n] = Inr cfg1" "begun n fr n cfg1" by auto
  have n: "cf_n cfg1 = n" using cfg1(2) by (simp add: begun_def shape_def)
  have "set [0..<n] \<subseteq> {..<n}" by auto
  from connect_all_from_eq [OF begun_started [OF cfg1(2)] fresh_distinct [OF fresh] n this] obtain rn where
    rn: "ConnectAll cfg1 = Inr (cfg1\<lparr>cf_net := rn\<rparr>)" "nw_servers rn = nw_servers (cf_net cfg1)"
      "nw_connections rn = nw_connections (cf_net cfg1)" "\<And>a b. a < n \<Longrightarrow> b < n \<Longrightarrow> link ?names rn a b"
    by (auto simp: ConnectAll_def n)
  let ?cfg = "cfg1\<lparr>cf_net := Reliable (\<not> unreliable) rn\<rparr>"
  have "make_config fr now n unreliable maxraftstate = Inr ?cfg"
    using cfg1(1) rn(1) by (simp add: make_config_def make_config_with_initial_config_def Let_def cfg0_def)
  moreover have "server_started n (fr i) ?cfg i" if "i < n" for i
    using cfg1(2) that rn(2,3) by (simp add: begun_def server_started_def Reliable_def)
  ultimately show ?thesis
    using rn(4) begun_started [OF cfg1(2)] cfg1(2) by (auto simp: begun_def shape_def link_def Reliable_def)
qed

subsection \<open>The halves of a partition\<close>

lemma split_loop_eq:
  "j + length (List.filter (\<lambda>i. i \<noteq> l) is) \<le> length p1 + length p2 \<Longrightarrow>
   \<exists>q1 q2. split_loop l j is p1 p2 = Inr (q1, q2) \<and> length q1 = length p1 \<and>
     q1 @ q2 = take j (p1 @ p2) @ List.filter (\<lambda>i. i \<noteq> l) is @ drop (j + length (List.filter (\<lambda>i. i \<noteq> l) is)) (p1 @ p2)"
proof (induction "is" arbitrary: j p1 p2)
  case (Cons i "is")
  show ?case
  proof (cases "i = l")
    case False
    have put: "take (Suc j) ((p1 @ p2)[j := i]) = take j (p1 @ p2) @ [i]" "drop (Suc j + k) ((p1 @ p2)[j := i]) = drop (Suc j + k) (p1 @ p2)"
      for k using Cons.prems False by (simp_all add: take_Suc_conv_app_nth)
    show ?thesis
    proof (cases "j < length p1")
      case True
      with False Cons.IH [of "Suc j" "p1[j := i]" p2] Cons.prems put show ?thesis
        by (simp add: go_store_def list_update_append)
    next
      case no_room: False
      with False Cons.IH [of "Suc j" p1 "p2[j - length p1 := i]"] Cons.prems put show ?thesis
        by (simp add: go_store_def list_update_append)
    qed
  qed (use Cons in simp)
qed (simp del: take_append drop_append)

text \<open>What \<open>Leader\<close> returns among the servers from \<open>i\<close> on: the first that leads, or False and 0 when none does.\<close>

definition first_leader :: "('s \<Rightarrow> bool) \<Rightarrow> 's option list \<Rightarrow> nat \<Rightarrow> nat \<Rightarrow> bool \<Rightarrow> nat \<Rightarrow> bool" where
  "first_leader leads servers i n b l \<longleftrightarrow>
     (if b then leads (the (servers ! l)) \<and> (\<forall>k \<in> {i..<l}. \<not> leads (the (servers ! k)))
      else l = 0 \<and> (\<forall>k \<in> {i..<n}. \<not> leads (the (servers ! k))))"

lemma first_leader_Suc:
  "\<not> leads (the (servers ! i)) \<Longrightarrow> first_leader leads servers (Suc i) n b l \<Longrightarrow> first_leader leads servers i n b l"
  unfolding first_leader_def by (metis atLeastLessThan_iff le_neq_implies_less Suc_leI)

lemma leader_from_found:
  "(\<And>k. k < i + n \<Longrightarrow> servers ! k \<noteq> None) \<Longrightarrow> i + n \<le> length servers \<Longrightarrow> 0 < i + n \<Longrightarrow>
   \<exists>b l. leader_from leads servers i n = Inr (b, l) \<and> l < i + n \<and> first_leader leads servers i (i + n) b l"
proof (induction n arbitrary: i)
  case (Suc n)
  then obtain kv where kv: "servers ! i = Some kv" by fastforce
  show ?case
  proof (cases "leads kv")
    case True
    with kv Suc.prems(2) show ?thesis by (auto simp: go_index_def first_leader_def)
  next
    case False
    with kv have no: "\<not> leads (the (servers ! i))" by simp
    from Suc.prems Suc.IH [of "Suc i"] obtain b l where "leader_from leads servers (Suc i) n = Inr (b, l)"
      "l < i + Suc n" "first_leader leads servers (Suc i) (i + Suc n) b l" by auto
    with kv False Suc.prems(2) no first_leader_Suc [of leads servers i] show ?thesis by (simp add: go_index_def)
  qed
qed (auto simp: first_leader_def)

lemma make_partition_eq:
  assumes leader: "Leader leads cfg = Inr (b, l)" and l: "l < cf_n cfg" and odd: "odd (cf_n cfg)" "1 < cf_n cfg"
  shows "\<exists>p1 p2. make_partition leads cfg = Inr (p1, p2) \<and> length p1 = cf_n cfg div 2 + 1 \<and>
    p1 @ p2 = List.filter (\<lambda>i. i \<noteq> l) [0..<cf_n cfg] @ [l] \<and> length p2 = cf_n cfg div 2"
proof -
  let ?n = "cf_n cfg" and ?p1 = "replicate (cf_n cfg div 2 + 1) (0::nat)" and ?p2 = "replicate (cf_n cfg div 2) (0::nat)"
  let ?others = "List.filter (\<lambda>i. i \<noteq> l) [0..<cf_n cfg]"
  have half: "?n div 2 + 1 + ?n div 2 = ?n" using odd(1) by presburger
  then have all: "?p1 @ ?p2 = replicate ?n 0" by (metis replicate_add)
  have "length ?others = card ({..<?n} - {l})"
    by (subst distinct_card [symmetric]) (auto intro!: arg_cong [of _ _ card])
  then have others: "length ?others = ?n - 1" using l by simp
  then have "0 + length ?others \<le> length ?p1 + length ?p2" using half by simp
  from split_loop_eq [OF this] obtain q1 q2 where
    q: "split_loop l 0 [0..<?n] ?p1 ?p2 = Inr (q1, q2)" "length q1 = ?n div 2 + 1" and app: "q1 @ q2 = ?others @ [0]"
    unfolding all others using odd(2) by (auto simp: Suc_diff_Suc numeral_2_eq_2)
  have len: "length q2 = ?n div 2" using arg_cong [OF app, of length] others q(2) half odd(2) by simp
  then have "q2 \<noteq> []" using odd(2) by auto
  then obtain r z where r: "q2 = r @ [z]" by (metis rev_exhaust)
  then have "q1 @ r = ?others" using app by (metis append.assoc butlast_snoc)
  moreover have "make_partition leads cfg = Inr (q1, r @ [l])"
    using leader q r by (simp add: make_partition_def go_store_def)
  ultimately show ?thesis using q(2) len r by auto
qed

text \<open>C19: A test that makes a configuration with an odd number of servers, three or more, splits it with \<open>make_partition\<close> and applies
  \<open>partition\<close>: nothing panics, each server is on one side, the majority has one more server than the minority. The server \<open>l\<close> that \<open>Leader\<close> reports is the first one
  that leads, and server 0, reported with False, when none does; it is in the minority. The end of one server that leads to another is enabled exactly when both are on the same side.
\<close>

theorem partition_isolates:
  assumes "fresh_names n fr" "odd n" "1 < n"
  shows "\<exists>cfg b l p1 p2 cfg'. make_config fr now n unreliable maxraftstate = Inr cfg \<and> Leader leads cfg = Inr (b, l) \<and>
    make_partition leads cfg = Inr (p1, p2) \<and> cfg_partition cfg p1 p2 = Inr cfg' \<and>
    first_leader leads (cf_servers cfg) 0 n b l \<and>
    mset (p1 @ p2) = mset [0..<n] \<and> length p1 = Suc (length p2) \<and> l \<in> set p2 \<and>
    (\<forall>i < n. \<forall>j < n. link (\<lambda>i. fr_names (fr i)) (cf_net cfg') i j \<longleftrightarrow> (i \<in> set p1 \<longleftrightarrow> j \<in> set p1))"
proof -
  from make_config_begun [OF assms(1), of now unreliable maxraftstate] obtain cfg where
    cfg: "make_config fr now n unreliable maxraftstate = Inr cfg" "cf_n cfg = n" "length (cf_servers cfg) = n"
      "started n (\<lambda>i. fr_names (fr i)) (cf_endnames cfg)" "\<And>i. i < n \<Longrightarrow> server_started n (fr i) cfg i" by blast
  have "cf_servers cfg ! i \<noteq> None" if "i < n" for i using cfg(5) [OF that] by (simp add: server_started_def)
  with leader_from_found [of 0 n "cf_servers cfg" leads] cfg(2,3) assms(3) obtain b l where
    leader: "Leader leads cfg = Inr (b, l)" "l < n" "first_leader leads (cf_servers cfg) 0 n b l" by (auto simp: Leader_def)
  from make_partition_eq [OF leader(1)] leader(2) assms(2,3) cfg(2) obtain p1 p2 where
    p: "make_partition leads cfg = Inr (p1, p2)" "length p1 = n div 2 + 1" "length p2 = n div 2"
      "p1 @ p2 = List.filter (\<lambda>i. i \<noteq> l) [0..<n] @ [l]" by auto
  have distinct: "distinct (p1 @ p2)" and all: "set (p1 @ p2) = {..<n}" unfolding p(4) using leader(2) by auto
  have last: "l \<in> set p2" using arg_cong [OF p(4), of last] p(3) assms(3) by (cases p2 rule: rev_cases) auto
  from all have sides: "set p1 \<union> set p2 = {..<n}" by simp
  moreover from distinct have "set p1 \<inter> set p2 = {}" by simp
  moreover have "length p1 \<le> n" "length p2 \<le> n" using p(2,3) assms(3) by simp_all
  ultimately obtain rn where run: "cfg_partition cfg p1 p2 = Inr (cfg\<lparr>cf_net := rn\<rparr>)" and
    links: "\<And>i j. i < n \<Longrightarrow> j < n \<Longrightarrow> link (\<lambda>i. fr_names (fr i)) rn i j \<longleftrightarrow> (i \<in> set p1 \<longleftrightarrow> j \<in> set p1)"
    using partition_links [OF cfg(4) fresh_distinct [OF assms(1)], of p1 p2] by (fastforce simp: connects_def)
  have "mset (p1 @ p2) = mset [0..<n]" using distinct all by (subst set_eq_iff_mset_eq_distinct [symmetric]) (auto simp: atLeast0LessThan)
  with cfg(1) leader(1,3) p(1-3) run links last show ?thesis by fastforce
qed

definition demo_name :: "nat \<Rightarrow> nat \<Rightarrow> nat \<Rightarrow> string" where
  "demo_name kind i j = [''sc'' ! kind, ''012'' ! i, ''012'' ! j]"

definition demo_fresh :: "nat \<Rightarrow> (unit, bytes, nat) fresh" where
  "demo_fresh i = \<lparr>fr_names = demo_name 0 i, fr_MakeServer = (\<lambda>_ _ _ _. i), fr_addr = i,
     fr_anonsvc = MakeService ''Server'' [], fr_rfsvc = MakeService ''Raft'' [], fr_client_names = demo_name 1 i,
     fr_draw = (\<lambda>_. 0), fr_client = 100 + i\<rparr>"

lemma demo_fresh_names: "fresh_names 3 demo_fresh"
  by (simp add: fresh_names_def numeral_3_eq_3 All_less_Suc names_at_def demo_fresh_def demo_name_def)

theorem partition_isolates_witness:
  "\<exists>cfg b l p1 p2 cfg'. make_config demo_fresh 0 3 True (- 1) = Inr cfg \<and> Leader (\<lambda>s. s = 1) cfg = Inr (b, l) \<and>
    make_partition (\<lambda>s. s = 1) cfg = Inr (p1, p2) \<and> cfg_partition cfg p1 p2 = Inr cfg' \<and>
    first_leader (\<lambda>s. s = 1) (cf_servers cfg) 0 3 b l \<and>
    mset (p1 @ p2) = mset [0..<3] \<and> length p1 = Suc (length p2) \<and> l \<in> set p2 \<and>
    (link (\<lambda>i. fr_names (demo_fresh i)) (cf_net cfg') 0 1 \<longleftrightarrow> (0 \<in> set p1 \<longleftrightarrow> 1 \<in> set p1))"
  using partition_isolates [OF demo_fresh_names, of 0 True "- 1" "\<lambda>s. s = 1"] by fastforce

text \<open>
  With four servers, the last of them the leader, server 0 is on both sides; with one server, the index of the last place is negative.
\<close>

definition demo_servers :: "nat \<Rightarrow> (unit, bytes, nat) Config" where
  "demo_servers n = \<lparr>cf_net = MakeNetwork, cf_n = n, cf_servers = map Some [0..<n], cf_saved = [], cf_endnames = [], cf_clients = [],
     cf_maxraftstate = 0, cf_start = 0, cf_t0 = 0, cf_rpcs0 = 0, cf_ops = 0, cf_initialConfiguration = [],
     cf_orderedClientIds = [], cf_orderedMessagers = []\<rparr>"

lemma make_partition_even:
  "make_partition (\<lambda>s. s = 3) (demo_servers 4) = Inr ([0, 1, 2], [0, 3]) \<and> make_partition (\<lambda>s. s = 0) (demo_servers 1) = Inl IndexOutOfRange"
  by code_simp

text \<open>
  The second loop of \<open>disconnectUnlocked\<close> tests the wrong server: if server 0 has no end names, a call that disconnects server 1 from
  server 2 disables the outgoing end only.
\<close>

lemma disconnect_one_way:
  "\<exists>cfg'. disconnectUnlocked ((demo_servers 3)\<lparr>cf_endnames := [None, Some [''10'', ''11'', ''12''], Some [''20'', ''21'', ''22'']],
      cf_net := Enable (StrName ''21'') True (Enable (StrName ''12'') True MakeNetwork)\<rparr>) 1 [2] = Inr cfg' \<and>
    nw_enabled (cf_net cfg') (StrName ''21'') \<and> \<not> nw_enabled (cf_net cfg') (StrName ''12'')"
  by (simp add: disconnectUnlocked_def endname_of_def go_index_def Enable_def demo_servers_def)

text \<open>\<open>random_handles\<close> permutes the ends, so the number of a server does not tell which server an end of a client leads to.\<close>

lemma random_handles_from_mset: "i + n \<le> length sa \<Longrightarrow> mset (random_handles_from draw i n sa) = mset sa"
proof (induction n arbitrary: i sa)
  case (Suc n)
  have "draw i mod Suc i < Suc i" by simp
  then have "draw i mod Suc i < length sa" using Suc.prems by linarith
  with Suc show ?case by (simp add: mset_swap_at)
qed simp

lemma random_handles_mset: "mset (random_handles draw kvh) = mset kvh"
  by (simp add: random_handles_def random_handles_from_mset)

lemma random_handles_moves: "random_handles (\<lambda>_. 0) [a, b] = [b, a]"
  by (simp add: random_handles_def swap_def)

end
