(* ===== verification/Test_Rounds.thy ===== *)
theory Test_Rounds
  imports Test_Config "HOL-Library.List_Lexorder"
begin

text \<open>
  The checks of \<open>anonbcast/config.go\<close>: the time limit and the statistics of a test, the clients that should be active, and \<open>oneRound\<close>, which runs two
  broadcast rounds and compares the messages with those that were sent.

  The lemmas: messages are compared as multisets, and a test passes exactly when both rounds succeed with the messages expected.
\<close>

subsection \<open>Checks of a test\<close>

text \<open>The clock is in nanoseconds; \<open>failed\<close> is \<open>t.Failed()\<close>.\<close>

definition checkTimeout :: "bool \<Rightarrow> int \<Rightarrow> ('w, 'v, 's) Config \<Rightarrow> unit go" where
  "checkTimeout failed now cfg =
     (if \<not> failed \<and> now - cf_start cfg > 120 * 1000000000 then Inl (Fatal ''test took longer than 120 seconds'') else Inr ())"

definition cfg_cleanup :: "bool \<Rightarrow> int \<Rightarrow> ('s \<Rightarrow> 's) \<Rightarrow> ('w, 'v, 's) Config \<Rightarrow> (uuid list \<times> ('w, 'v, 's) Config) go" where
  "cfg_cleanup failed now kill cfg =
     (let cfg = cfg\<lparr>cf_servers := map (map_option kill) (cf_servers cfg)\<rparr>; ids = map fst (cf_clients cfg)
      in go_bind (Cleanup (cf_net cfg)) (\<lambda>rn.
         go_bind (checkTimeout failed now cfg) (\<lambda>_. Inr (ids, cfg\<lparr>cf_net := rn\<rparr>))))"

text \<open>The largest size over the saved persisters \<open>0..n-1\<close>; a method call on a nil persister panics at its lock.\<close>

fun largest_saved :: "(Persister \<Rightarrow> nat) \<Rightarrow> Persister option list \<Rightarrow> nat list \<Rightarrow> nat \<Rightarrow> nat go" where
  "largest_saved size_of saved [] largest = Inr largest"
| "largest_saved size_of saved (i # is) largest =
     go_bind (go_index saved i) (\<lambda>ps. case ps of
         None \<Rightarrow> Inl NilDereference
       | Some ps \<Rightarrow> largest_saved size_of saved is (if size_of ps > largest then size_of ps else largest))"

definition cfg_LogSize :: "('w, 'v, 's) Config \<Rightarrow> nat go" where
  "cfg_LogSize cfg = largest_saved RaftStateSize (cf_saved cfg) [0..<cf_n cfg] 0"

definition cfg_SnapshotSize :: "('w, 'v, 's) Config \<Rightarrow> nat go" where
  "cfg_SnapshotSize cfg = largest_saved SnapshotSize (cf_saved cfg) [0..<cf_n cfg] 0"

definition rpcTotal :: "('w, 'v, 's) Config \<Rightarrow> int" where
  "rpcTotal cfg = GetTotalCount (cf_net cfg)"

definition cfg_begin :: "int \<Rightarrow> ('w, 'v, 's) Config \<Rightarrow> ('w, 'v, 's) Config" where
  "cfg_begin now cfg = cfg\<lparr>cf_t0 := now, cf_rpcs0 := rpcTotal cfg, cf_ops := 0\<rparr>"

definition cfg_op :: "('w, 'v, 's) Config \<Rightarrow> ('w, 'v, 's) Config" where
  "cfg_op cfg = cfg\<lparr>cf_ops := cf_ops cfg + 1\<rparr>"

text \<open>\<open>end\<close>: the numbers that are printed, if the test has not failed: the time, the peers, the calls and the operations.\<close>

definition cfg_end :: "bool \<Rightarrow> int \<Rightarrow> ('w, 'v, 's) Config \<Rightarrow> (int \<times> nat \<times> int \<times> int) option go" where
  "cfg_end failed now cfg =
     go_bind (checkTimeout failed now cfg) (\<lambda>_.
       Inr (if failed then None else Some (now - cf_t0 cfg, cf_n cfg, rpcTotal cfg - cf_rpcs0 cfg, sint (cf_ops cfg))))"

text \<open>Strings are compared byte by byte, as \<open>sort.Strings\<close> does.\<close>

fun same_at_each :: "bytes list \<Rightarrow> bytes list \<Rightarrow> nat \<Rightarrow> bool" where
  "same_at_each [] s2c i = True"
| "same_at_each (c # cs) s2c i = (if c \<noteq> s2c ! i then False else same_at_each cs s2c (Suc i))"

definition equalContents :: "bytes list \<Rightarrow> bytes list \<Rightarrow> bool" where
  "equalContents s1 s2 =
     (if length s1 \<noteq> length s2 then False else same_at_each (sort s1) (sort s2) 0)"

definition equalContentsBytes :: "bytes list \<Rightarrow> bytes list \<Rightarrow> bool" where
  "equalContentsBytes b1 b2 = equalContents (foldl (\<lambda>s b. s @ [b]) [] b1) (foldl (\<lambda>s b. s @ [b]) [] b2)"

definition server_number :: "string \<Rightarrow> nat go" where
  "server_number s = (case Atoi s of None \<Rightarrow> Inl (Panic ''strconv.Atoi'')
     | Some i \<Rightarrow> if i < 0 then Inl IndexOutOfRange else Inr (nat i))"

text \<open>The ids form the set of keys of the map that \<open>getActiveClientIds\<close> returns.\<close>

fun active_ids :: "uuid list \<Rightarrow> string list \<Rightarrow> uuid list \<Rightarrow> uuid list go" where
  "active_ids ids [] found = Inr found"
| "active_ids ids (s # ss) found =
     go_bind (server_number s) (\<lambda>i. go_bind (go_index ids i) (\<lambda>cl. active_ids ids ss (List.insert cl found)))"

definition getActiveClientIds :: "('w, 'v, 's) Config \<Rightarrow> configuration \<Rightarrow> uuid list go" where
  "getActiveClientIds cfg expected = active_ids (cf_orderedClientIds cfg) (map fst expected) []"

text \<open>\<open>getActiveClient\<close> takes the first key of the iteration over the map; an empty map leaves the zero id and no messager.\<close>

definition getActiveClient :: "('w, 'v, 's) Config \<Rightarrow> configuration \<Rightarrow> (uuid \<times> string option) go" where
  "getActiveClient cfg expected =
     go_bind (case expected of [] \<Rightarrow> Inr (0, None)
       | (s, _) # _ \<Rightarrow> go_bind (server_number s) (\<lambda>i.
           go_bind (go_index (cf_orderedClientIds cfg) i) (\<lambda>cId.
           go_bind (go_index (cf_orderedMessagers cfg) i) (\<lambda>mg. Inr (cId, mg))))) (\<lambda>(cId, mg).
     if cId \<in> set (map fst (cf_clients cfg)) then Inr (cId, mg) else Inl (Fatal ''Couldn't find active client''))"

definition getClientById :: "('w, 'v, 's) Config \<Rightarrow> uuid \<Rightarrow> uuid go" where
  "getClientById cfg clId = (if clId \<in> set (map fst (cf_clients cfg)) then Inr clId else Inl (Fatal ''Found no client''))"

text \<open>\<open>last_machine\<close> is \<open>GetLastStateMachine\<close> of the client.\<close>

definition checkConfigurationMatchesParticipants ::
    "bool \<Rightarrow> (uuid \<Rightarrow> 'c StateMachine) \<Rightarrow> ('w, 'v, 's) Config \<Rightarrow> configuration \<Rightarrow> unit go" where
  "checkConfigurationMatchesParticipants debug last_machine cfg expected =
     go_bind (getActiveClientIds cfg expected) (\<lambda>activeClientIds.
     go_bind (getActiveClient cfg expected) (\<lambda>(activeClient, _).
     go_bind (CurrentRoundInfo debug (last_machine activeClient)) (\<lambda>ri.
     if length (ri_Participants ri) \<noteq> length activeClientIds then Inl (Fatal ''Configuration doesn't match participants'')
     else if list_all (\<lambda>p. p \<in> set activeClientIds) (ri_Participants ri) then Inr ()
     else Inl (Fatal ''Configuration doesn't match participants''))))"

fun messages_of :: "string option list \<Rightarrow> int \<Rightarrow> bytes list go" where
  "messages_of [] round = Inr []"
| "messages_of (mg # mgs) round = (case mg of None \<Rightarrow> Inl NilDereference
     | Some mg \<Rightarrow> go_bind (messages_of mgs round) (\<lambda>ms. Inr (test_Message mg round # ms)))"

text \<open>
  The messages that the first of the two rounds of \<open>oneRoundWithExpectedConfiguration\<close> must have: that of the client \<open>c1\<close>, and then
  those of the other participants.
\<close>

definition expected_first :: "('w, 'v, 's) Config \<Rightarrow> uuid \<Rightarrow> string option \<Rightarrow> uuid list \<Rightarrow> int \<Rightarrow> bytes list go" where
  "expected_first cfg c1Id mg1 participants round =
     messages_of (mg1 # concat (map (\<lambda>p. map snd (List.filter (\<lambda>(cl, mg). p = cl \<and> cl \<noteq> c1Id)
       (zip (cf_orderedClientIds cfg) (cf_orderedMessagers cfg)))) participants)) round"

definition expected_second :: "('w, 'v, 's) Config \<Rightarrow> int \<Rightarrow> bytes list go" where
  "expected_second cfg round = messages_of (cf_orderedMessagers cfg) round"

definition check_result :: "int \<Rightarrow> RoundResult \<Rightarrow> unit go" where
  "check_result actualRound r =
     (if rr_Round r \<noteq> actualRound then Inl (Fatal ''Round not equal to round'')
      else if \<not> rr_Succeeded r then Inl (Fatal ''Round failed which should not happen'') else Inr ())"

definition check_messages :: "bytes list \<Rightarrow> RoundResult \<Rightarrow> unit go" where
  "check_messages expected r =
     (if equalContentsBytes expected (rr_Messages r) then Inr () else Inl (Fatal ''Wrong messages for this round''))"

text \<open>
  What \<open>oneRoundWithExpectedConfiguration\<close> waits for: the answers of \<open>Start\<close>, true for an error, the machines that \<open>GetLastStateMachine\<close> returns, and
  the ordered results. The method consumes a list of them; \<open>None\<close> means that it still waits at the end of the list.
\<close>

datatype 'c test_input = TStart bool | TMachine "'c StateMachine" | TResult RoundResult

fun start_loop :: "'c test_input list \<Rightarrow> 'c test_input list option" where
  "start_loop (TStart failed # xs) = (if failed then start_loop xs else Some xs)"
| "start_loop xs = None"

fun machine_loop :: "('c StateMachine \<Rightarrow> bool go) \<Rightarrow> 'c test_input list \<Rightarrow> ('c StateMachine \<times> 'c test_input list) option go" where
  "machine_loop ready (TMachine sm # xs) = go_bind (ready sm) (\<lambda>b. if b then Inr (Some (sm, xs)) else machine_loop ready xs)"
| "machine_loop ready xs = Inr None"

text \<open>Sequencing of computations that may wait or panic.\<close>

definition wait_then :: "'a option go \<Rightarrow> ('a \<Rightarrow> 'b option go) \<Rightarrow> 'b option go" where
  "wait_then m f = go_bind m (\<lambda>r. case r of None \<Rightarrow> Inr None | Some x \<Rightarrow> f x)"

definition receive_result :: "'c test_input list \<Rightarrow> (RoundResult \<times> 'c test_input list) option go" where
  "receive_result xs = Inr (case xs of TResult r # xs \<Rightarrow> Some (r, xs) | _ \<Rightarrow> None)"

text \<open>The first of the two turns of the loop: the client races to the start.\<close>

definition first_round :: "('w, 'v, 's) Config \<Rightarrow> uuid \<Rightarrow> string option \<Rightarrow> int \<Rightarrow> 'c test_input list \<Rightarrow> 'c test_input list option go" where
  "first_round cfg c1Id mg1 actualRound xs =
     wait_then (Inr (start_loop xs)) (\<lambda>xs.
     wait_then (receive_result xs) (\<lambda>(r, xs).
     go_bind (check_result actualRound r) (\<lambda>_.
     go_bind (messages_of [mg1] (rr_Round r)) (\<lambda>_.
     wait_then (machine_loop (\<lambda>sm. Inr (sm_Round sm = rr_Round r + 1)) xs) (\<lambda>(sm, xs).
     case GetRoundInfo sm (rr_Round r) of
       Inl err \<Rightarrow> Inl (Fatal ''error getting round info'')
     | Inr ri \<Rightarrow>
         go_bind (expected_first cfg c1Id mg1 (ri_Participants ri) (rr_Round r)) (\<lambda>expectedMessages.
         go_bind (check_messages expectedMessages r) (\<lambda>_. Inr (Some xs))))))))"

text \<open>The second one: it waits until everyone takes part.\<close>

definition all_joined :: "bool \<Rightarrow> int \<Rightarrow> nat \<Rightarrow> 'c StateMachine \<Rightarrow> bool go" where
  "all_joined debug actualRound n sm =
     (if sm_Round sm \<noteq> actualRound then Inr False
      else go_bind (CurrentRoundInfo debug sm) (\<lambda>ri. Inr (\<not> length (ri_Participants ri) < n)))"

definition second_round :: "bool \<Rightarrow> ('w, 'v, 's) Config \<Rightarrow> nat \<Rightarrow> int \<Rightarrow> 'c test_input list \<Rightarrow> 'c test_input list option go" where
  "second_round debug cfg n actualRound xs =
     wait_then (machine_loop (all_joined debug actualRound n) xs) (\<lambda>(sm, xs).
     wait_then (Inr (start_loop xs)) (\<lambda>xs.
     wait_then (receive_result xs) (\<lambda>(r, xs).
     go_bind (check_result actualRound r) (\<lambda>_.
     go_bind (expected_second cfg (rr_Round r)) (\<lambda>expectedMessages.
     go_bind (check_messages expectedMessages r) (\<lambda>_. Inr (Some xs)))))))"

definition oneRoundWithExpectedConfiguration ::
    "bool \<Rightarrow> ('w, 'v, 's) Config \<Rightarrow> int \<Rightarrow> configuration \<Rightarrow> 'c test_input list \<Rightarrow> (int \<times> 'c test_input list) option go" where
  "oneRoundWithExpectedConfiguration debug cfg round expected xs =
     go_bind (getActiveClient cfg expected) (\<lambda>(c1Id, mg1).
     wait_then (first_round cfg c1Id mg1 round xs) (\<lambda>xs.
     wait_then (second_round debug cfg (length expected) (round + 1) xs) (\<lambda>xs. Inr (Some (round + 1, xs)))))"

definition oneRound :: "bool \<Rightarrow> ('w, 'v, 's) Config \<Rightarrow> int \<Rightarrow> 'c test_input list \<Rightarrow> (int \<times> 'c test_input list) option go" where
  "oneRound debug cfg round xs = oneRoundWithExpectedConfiguration debug cfg round (all_servers (cf_n cfg)) xs"

text \<open>
  The loop of \<open>order\<close>, on the results received from the starting index of the state on. With each comes whether the orderer is
  killed by then.
\<close>

fun ro_order :: "RoundResult list \<times> nat \<Rightarrow> (RoundResult \<times> bool) list \<Rightarrow> RoundResult list go" where
  "ro_order st [] = Inr []"
| "ro_order st ((r, stop) # rs) =
     go_bind (order_receive st r) (\<lambda>(sent, st).
       if stop then Inr sent else go_bind (ro_order st rs) (\<lambda>rest. Inr (sent @ rest)))"

subsection \<open>Comparing the messages\<close>

lemma same_at_each_eq: "i + length cs = length s2c \<Longrightarrow> same_at_each cs s2c i \<longleftrightarrow> cs = drop i s2c"
proof (induction cs arbitrary: i)
  case (Cons c cs)
  then have "drop i s2c = s2c ! i # drop (Suc i) s2c" by (simp add: Cons_nth_drop_Suc)
  with Cons show ?case by simp
qed simp

lemma foldl_snoc: "foldl (\<lambda>s b. s @ [b]) xs ys = xs @ ys"
  by (induction ys arbitrary: xs) simp_all

lemma sort_eq_iff: "sort xs = sort ys \<longleftrightarrow> mset xs = mset ys"
  by (metis mset_sort properties_for_sort sorted_sort)

text \<open>\<open>equalContentsBytes\<close> holds exactly for lists with the same messages the same number of times, in any order.\<close>

lemma equalContentsBytes_mset: "equalContentsBytes b1 b2 \<longleftrightarrow> mset b1 = mset b2"
  by (auto simp: equalContentsBytes_def equalContents_def foldl_snoc same_at_each_eq sort_eq_iff dest: mset_eq_length)

subsection \<open>What a passed test means\<close>

lemma wait_thenE:
  assumes "wait_then m f = Inr (Some y)"
  obtains x where "m = Inr (Some x)" and "f x = Inr (Some y)"
  using assms by (auto simp: wait_then_def elim!: go_bindE split: option.splits)

lemma wait_then_simps [simp]: "wait_then (Inr (Some x)) f = f x" "wait_then (Inr None) f = Inr None" "wait_then (Inl e) f = Inl e"
  by (simp_all add: wait_then_def)

lemma check_messages_iff: "check_messages expected r = Inr u \<longleftrightarrow> mset expected = mset (rr_Messages r)"
  by (simp add: check_messages_def equalContentsBytes_mset)

lemma check_result_iff: "check_result round r = Inr u \<longleftrightarrow> rr_Round r = round \<and> rr_Succeeded r"
  by (simp add: check_result_def)

lemma start_loop_rest: "start_loop xs = Some ys \<Longrightarrow> set ys \<subseteq> set xs"
  by (induction xs rule: start_loop.induct) (auto split: if_splits)

lemma machine_loop_rest:
  "machine_loop ready xs = Inr (Some (sm, ys)) \<Longrightarrow> set ys \<subseteq> set xs \<and> TMachine sm \<in> set xs \<and> ready sm = Inr True"
proof (induction xs)
  case (Cons x xs)
  then show ?case by (cases x) (auto elim!: go_bindE split: if_splits)
qed simp

lemma receive_result_rest: "receive_result xs = Inr (Some (r, ys)) \<Longrightarrow> set ys \<subseteq> set xs \<and> TResult r \<in> set xs"
  by (auto simp: receive_result_def split: list.splits test_input.splits)

lemma first_round_passed:
  assumes "first_round cfg c1Id mg1 round xs = Inr (Some ys)"
  shows "set ys \<subseteq> set xs \<and> (\<exists>r sm ri ms. TResult r \<in> set xs \<and> rr_Round r = round \<and> rr_Succeeded r \<and> TMachine sm \<in> set xs \<and>
    sm_Round sm = round + 1 \<and> GetRoundInfo sm round = Inr ri \<and> expected_first cfg c1Id mg1 (ri_Participants ri) round = Inr ms \<and>
    mset (rr_Messages r) = mset ms)"
proof -
  from assms obtain as r bs sm ri ms where
    start: "start_loop xs = Some as" and res: "receive_result as = Inr (Some (r, bs))" and ok: "rr_Round r = round" "rr_Succeeded r"
    and poll: "machine_loop (\<lambda>sm. Inr (sm_Round sm = rr_Round r + 1)) bs = Inr (Some (sm, ys))"
    and ri: "GetRoundInfo sm (rr_Round r) = Inr ri" "expected_first cfg c1Id mg1 (ri_Participants ri) (rr_Round r) = Inr ms"
      "mset ms = mset (rr_Messages r)"
    unfolding first_round_def
    by (elim wait_thenE go_bindE) (auto simp: check_messages_iff check_result_iff elim!: wait_thenE go_bindE split: sum.splits)
  from start_loop_rest [OF start] receive_result_rest [OF res] machine_loop_rest [OF poll]
  have rest: "set ys \<subseteq> set xs" "TResult r \<in> set xs" "TMachine sm \<in> set xs" "sm_Round sm = round + 1" using ok(1) by auto
  show ?thesis
    using ri by (intro conjI rest(1) exI [of _ r] exI [of _ sm] exI [of _ ri] exI [of _ ms]) (simp_all add: rest ok)
qed

lemma second_round_passed:
  assumes "second_round debug cfg n round xs = Inr (Some ys)"
  shows "set ys \<subseteq> set xs \<and> (\<exists>r ms. TResult r \<in> set xs \<and> rr_Round r = round \<and> rr_Succeeded r \<and>
    expected_second cfg round = Inr ms \<and> mset (rr_Messages r) = mset ms)"
proof -
  from assms obtain sm as bs r ms where
    poll: "machine_loop (all_joined debug round n) xs = Inr (Some (sm, as))" and start: "start_loop as = Some bs"
    and res: "receive_result bs = Inr (Some (r, ys))" and ok: "rr_Round r = round" "rr_Succeeded r"
      "expected_second cfg (rr_Round r) = Inr ms" "mset ms = mset (rr_Messages r)"
    unfolding second_round_def
    by (elim wait_thenE) (auto simp: check_messages_iff check_result_iff elim!: wait_thenE go_bindE)
  from start_loop_rest [OF start] receive_result_rest [OF res] machine_loop_rest [OF poll]
  have "set ys \<subseteq> set xs" "TResult r \<in> set xs" by auto
  with ok show ?thesis by auto
qed

text \<open>
  A run of \<open>oneRoundWithExpectedConfiguration\<close> that passes has seen two rounds, \<open>round\<close> and \<open>round + 1\<close>, end well: the first with the messages of
  the participants, the second with those of all messagers. It returns the number of the second, which is over.
\<close>

lemma one_round_is_two:
  assumes "oneRoundWithExpectedConfiguration debug cfg round expected xs = Inr (Some (k, rest))"
  shows "k = round + 1 \<and> (\<exists>r. TResult r \<in> set xs \<and> rr_Round r = round \<and> rr_Succeeded r) \<and>
    (\<exists>r ms. TResult r \<in> set xs \<and> rr_Round r = round + 1 \<and> rr_Succeeded r \<and>
      expected_second cfg (round + 1) = Inr ms \<and> mset (rr_Messages r) = mset ms)"
proof -
  from assms obtain c1Id mg1 ys zs where "first_round cfg c1Id mg1 round xs = Inr (Some ys)"
    and "second_round debug cfg (length expected) (round + 1) ys = Inr (Some zs)" and "k = round + 1"
    unfolding oneRoundWithExpectedConfiguration_def by (auto elim!: wait_thenE go_bindE)
  with first_round_passed [of cfg c1Id mg1 round xs ys] second_round_passed [of debug cfg "length expected" "round + 1" ys zs]
  show ?thesis by blast
qed

text \<open>The loops retry: a client that starts after some failures, and sees the machine it waits for after some others, goes on.\<close>

lemma start_loop_retries: "start_loop (replicate n (TStart True) @ TStart False # xs) = Some xs"
  by (induction n) auto

lemma machine_loop_polls:
  "list_all (\<lambda>sm. ready sm = Inr False) old \<Longrightarrow> ready sm = Inr True \<Longrightarrow>
   machine_loop ready (map TMachine old @ TMachine sm # xs) = Inr (Some (sm, xs))"
  by (induction old) auto

lemma one_round_passes:
  assumes active: "getActiveClient cfg expected = Inr (c1Id, Some mg1)"
    and r0: "rr_Round r0 = round" "rr_Succeeded r0" and old: "list_all (\<lambda>sm. sm_Round sm \<noteq> round + 1) old"
    and sm: "sm_Round sm = round + 1" "GetRoundInfo sm round = Inr ri" "expected_first cfg c1Id (Some mg1) (ri_Participants ri) round = Inr ms0"
    and wait: "list_all (\<lambda>sm. all_joined debug (round + 1) (length expected) sm = Inr False) waiting"
      "all_joined debug (round + 1) (length expected) sm' = Inr True"
    and r1: "rr_Round r1 = round + 1" "rr_Succeeded r1" "expected_second cfg (round + 1) = Inr ms1"
  shows "oneRoundWithExpectedConfiguration debug cfg round expected
      (replicate a (TStart True) @ TStart False # TResult r0 # map TMachine old @ TMachine sm #
       map TMachine waiting @ TMachine sm' # replicate b (TStart True) @ TStart False # TResult r1 # rest) =
    (if mset ms0 = mset (rr_Messages r0) \<and> mset ms1 = mset (rr_Messages r1) then Inr (Some (round + 1, rest))
     else Inl (Fatal ''Wrong messages for this round''))"
proof -
  have receive: "receive_result (TResult r # xs) = Inr (Some (r, xs))" for r and xs :: "'d test_input list"
    by (simp add: receive_result_def)
  have poll: "machine_loop (\<lambda>sm. Inr (sm_Round sm = round + 1)) (map TMachine old @ TMachine sm # xs) = Inr (Some (sm, xs))" for xs
    using old sm(1) by (intro machine_loop_polls) (auto simp: list_all_iff)
  show ?thesis
    using assms
    by (simp add: oneRoundWithExpectedConfiguration_def first_round_def second_round_def start_loop_retries receive poll machine_loop_polls
        check_result_def check_messages_def equalContentsBytes_mset)
qed

end
