(* ===== verification/Test_Random.thy ===== *)
theory Test_Random
  imports Big_Int
begin

text \<open>
  The random names and seeds of \<open>anonbcast/config.go\<close>: \<open>randstring\<close>, on the bytes that \<open>crand.Read\<close> gave, with \<open>base64.URLEncoding\<close> written
  out, and \<open>makeSeed\<close>.

  The lemmas: \<open>randstring\<close> returns a string of the length asked for, and the 20 characters of an end name determine the first 15 of
  the random bytes: end names are distinct when these bytes are.
\<close>

definition url_alphabet :: string where
  "url_alphabet = ''ABCDEFGHIJKLMNOPQRSTUVWXYZabcdefghijklmnopqrstuvwxyz0123456789-_''"

text \<open>Character \<open>k\<close> of the encoding of the 24 bits \<open>v\<close>, six bits each.\<close>

definition sextet :: "nat \<Rightarrow> nat \<Rightarrow> char" where
  "sextet v k = url_alphabet ! (v div 64 ^ (3 - k) mod 64)"

definition bits24 :: "byte \<Rightarrow> byte \<Rightarrow> byte \<Rightarrow> nat" where
  "bits24 a b c = unat a * 65536 + unat b * 256 + unat c"

fun EncodeToString :: "bytes \<Rightarrow> string" where
  "EncodeToString [] = []"
| "EncodeToString [a] = (let v = bits24 a 0 0 in [sextet v 0, sextet v 1, CHR ''='', CHR ''=''])"
| "EncodeToString [a, b] = (let v = bits24 a b 0 in [sextet v 0, sextet v 1, sextet v 2, CHR ''=''])"
| "EncodeToString (a # b # c # bs) =
     (let v = bits24 a b c in sextet v 0 # sextet v 1 # sextet v 2 # sextet v 3 # EncodeToString bs)"

text \<open>\<open>b\<close> is the buffer of \<open>2 * n\<close> bytes after \<open>crand.Read\<close>.\<close>

definition randstring :: "nat \<Rightarrow> bytes \<Rightarrow> string go" where
  "randstring n b = (let s = EncodeToString b in if n \<le> length s then Inr (take n s) else Inl SliceBoundsOutOfRange)"

text \<open>\<open>makeSeed\<close> ignores the error of the reader, and then calls a method on the nil number.\<close>

definition makeSeed :: "reader \<Rightarrow> (int \<times> reader) go" where
  "makeSeed random =
     go_bind (rand_Int random (2 ^ 62)) (\<lambda>(bigx, random).
       case bigx of Inl err \<Rightarrow> Inl NilDereference | Inr x \<Rightarrow> Inr (int x, random))"

subsection \<open>Lengths\<close>

lemma length_EncodeToString: "length (EncodeToString b) = 4 * ((length b + 2) div 3)"
proof (induction b rule: EncodeToString.induct)
  case (4 a b c bs)
  have "(5 + length bs) div 3 = (length bs + 2) div 3 + 1" by presburger
  with 4 show ?case by (simp add: Let_def)
qed (simp_all add: Let_def)

lemma randstring_length:
  assumes "length b = 2 * n"
  shows "\<exists>s. randstring n b = Inr s \<and> length s = n"
proof -
  have "n \<le> 4 * ((2 * n + 2) div 3)" by presburger
  then show ?thesis using assms by (simp add: randstring_def length_EncodeToString)
qed

lemma makeSeed_range: "makeSeed random = Inr (x, random') \<Longrightarrow> 0 \<le> x \<and> x < 2 ^ 62"
  by (auto simp: makeSeed_def elim!: go_bindE split: sum.splits dest!: rand_Int_range)

subsection \<open>Distinct names\<close>

lemma url_alphabet_distinct: "distinct url_alphabet" "length url_alphabet = 64"
  by (simp_all add: url_alphabet_def)

lemma sextet_eq_iff: "sextet v k = sextet w k \<longleftrightarrow> v div 64 ^ (3 - k) mod 64 = w div 64 ^ (3 - k) mod 64"
  by (simp add: sextet_def nth_eq_iff_index_eq url_alphabet_distinct)

lemma bits24_less: "bits24 a b c < 64 ^ 4"
  using unat_byte_less [of a] unat_byte_less [of b] unat_byte_less [of c] by (simp add: bits24_def)

text \<open>The last digit of a number to a base, and the rest, are determined by it.\<close>

lemma digit_inj:
  fixes d :: nat
  assumes "x * d + y = x' * d + y'" "y < d" "y' < d"
  shows "x = x' \<and> y = y'"
proof -
  have "(x * d + y) div d = x" "(x' * d + y') div d = x'" using assms(2,3) by simp_all
  with assms(1) show ?thesis by simp
qed

lemma bits24_inj: "bits24 a b c = bits24 a' b' c' \<longleftrightarrow> a = a' \<and> b = b' \<and> c = c'"
proof
  assume "bits24 a b c = bits24 a' b' c'"
  then have "(unat a * 256 + unat b) * 256 + unat c = (unat a' * 256 + unat b') * 256 + unat c'" by (simp add: bits24_def)
  from digit_inj [OF this unat_byte_less unat_byte_less]
  have "unat a * 256 + unat b = unat a' * 256 + unat b'" and c: "unat c = unat c'" by simp_all
  from digit_inj [OF this(1) unat_byte_less unat_byte_less] c show "a = a' \<and> b = b' \<and> c = c'"
    by (simp add: word_unat_eq_iff)
qed simp

lemma digits_inj:
  fixes v w q :: nat
  assumes "v div q ^ n = w div q ^ n" "\<And>k. k < n \<Longrightarrow> v div q ^ k mod q = w div q ^ k mod q"
  shows "v = w"
  using assms
proof (induction n)
  case (Suc n)
  have "v div q ^ n div q = w div q ^ n div q" using Suc.prems(1) by (simp only: div_mult2_eq [symmetric] power_Suc mult.commute)
  with Suc.prems(2) [of n] have "v div q ^ n = w div q ^ n" by (metis div_mult_mod_eq lessI)
  with Suc show ?case by simp
qed simp

lemma sextets_inj:
  assumes "v < 64 ^ 4" "w < 64 ^ 4" "\<And>k. k < 4 \<Longrightarrow> sextet v k = sextet w k"
  shows "v = w"
proof (rule digits_inj)
  show "v div 64 ^ 4 = w div 64 ^ 4" using assms(1,2) by (simp only: div_less)
  fix k :: nat
  assume k: "k < 4"
  then have "3 - k < 4" and "3 - (3 - k) = k" by arith+
  with assms(3) [of "3 - k"] show "v div 64 ^ k mod 64 = w div 64 ^ k mod 64" by (simp only: sextet_eq_iff)
qed

lemma EncodeToString_take:
  "3 * k \<le> length b \<Longrightarrow> take (4 * k) (EncodeToString b) = EncodeToString (take (3 * k) b)"
proof (induction k arbitrary: b)
  case (Suc k)
  then obtain x y z bs where b: "b = x # y # z # bs" by (auto simp: Suc_le_length_iff numeral_eq_Suc)
  with Suc show ?case by (simp add: numeral_eq_Suc Let_def)
qed simp

lemma EncodeToString_inj:
  "length b = 3 * k \<Longrightarrow> length b' = 3 * k \<Longrightarrow> EncodeToString b = EncodeToString b' \<Longrightarrow> b = b'"
proof (induction k arbitrary: b b')
  case (Suc k)
  then obtain x y z bs x' y' z' bs' where b: "b = x # y # z # bs" "b' = x' # y' # z' # bs'"
    by (auto simp: length_Suc_conv numeral_eq_Suc)
  have "sextet (bits24 x y z) i = sextet (bits24 x' y' z') i" if "i < 4" for i
    using Suc.prems(3) that by (auto simp: b Let_def numeral_eq_Suc less_Suc_eq)
  then have "bits24 x y z = bits24 x' y' z'" by (intro sextets_inj bits24_less)
  with Suc show ?case by (simp add: b Let_def bits24_inj)
qed simp

lemma randstring_distinct:
  assumes "length b = 40" "length b' = 40" "randstring 20 b = randstring 20 b'"
  shows "take 15 b = take 15 b'"
proof -
  have "take (4 * 5) (EncodeToString b) = take (4 * 5) (EncodeToString b')"
    using assms by (simp add: randstring_def length_EncodeToString Let_def)
  then have "EncodeToString (take (3 * 5) b) = EncodeToString (take (3 * 5) b')"
    using assms(1,2) by (simp add: EncodeToString_take [of 5, simplified])
  with EncodeToString_inj [of "take 15 b" 5 "take 15 b'"] assms(1,2) show ?thesis by simp
qed

end
