(* ===== verification/Debug_Log.thy ===== *)
theory Debug_Log
  imports Client
begin

text \<open>
  \<open>anonbcast/debug.go\<close> and the methods \<open>logHeader\<close>, \<open>logf\<close>, \<open>assertf\<close> and \<open>dump\<close> of state machine, round info, server and client.

  \<^item> The environment of the process is a function from names to values, a missing variable being the empty string. What is logged is a
    list of lines; \<open>fmt.Sprintf\<close> and \<open>spew.Sdump\<close> are arguments.
  \<^item> \<open>dump\<close> of a server or a client locks its mutex, which is not reentrant: \<open>None\<close> stands for a call that never returns, because the goroutine
    that makes it holds the mutex.

  The lemmas: \<open>assertf\<close> is the \<open>go_assert\<close> of the other theories, and an assertion made under the mutex, true or false, blocks
  its goroutine forever when both variables are set.
\<close>

type_synonym environ = "string \<Rightarrow> string"

datatype logTopic = dError | dWarning | dInfo | dDump

definition topic_string :: "logTopic \<Rightarrow> string" where
  "topic_string topic = (case topic of dError \<Rightarrow> ''ERRO'' | dWarning \<Rightarrow> ''WARN'' | dInfo \<Rightarrow> ''INFO'' | dDump \<Rightarrow> ''DUMP'')"

definition debugEnvKey :: string where
  "debugEnvKey = ''DEBUG''"

definition dumpEnvKey :: string where
  "dumpEnvKey = ''DUMP''"

definition SetDebug :: "bool \<Rightarrow> environ \<Rightarrow> environ" where
  "SetDebug debug env = env(debugEnvKey := if debug then ''true'' else '''')"

definition IsDebug :: "environ \<Rightarrow> bool" where
  "IsDebug env \<longleftrightarrow> env debugEnvKey = ''true''"

definition SetDump :: "bool \<Rightarrow> environ \<Rightarrow> environ" where
  "SetDump dump env = env(dumpEnvKey := if dump then ''true'' else '''')"

definition IsDump :: "environ \<Rightarrow> bool" where
  "IsDump env \<longleftrightarrow> env dumpEnvKey = ''true''"

definition logf :: "(string \<Rightarrow> 'a list \<Rightarrow> string) \<Rightarrow> environ \<Rightarrow> logTopic \<Rightarrow> string \<Rightarrow> string \<Rightarrow> 'a list \<Rightarrow> string list" where
  "logf Sprintf env topic header format a =
     (if IsDebug env then [Sprintf (topic_string topic @ '' ['' @ header @ ''] '' @ format) a] else [])"

definition assertf :: "(string \<Rightarrow> 'a list \<Rightarrow> string) \<Rightarrow> environ \<Rightarrow> bool \<Rightarrow> string \<Rightarrow> string \<Rightarrow> 'a list \<Rightarrow> string list \<times> unit go" where
  "assertf Sprintf env condition header format a =
     (if IsDebug env \<and> \<not> condition
      then (logf Sprintf env dError header format a, Inl (Panic (''assertion error: '' @ Sprintf (''(see above) '' @ format) a)))
      else ([], Inr ()))"

subsection \<open>The methods of the components\<close>

definition sm_logHeader :: string where
  "sm_logHeader = ''state machine''"

definition sm_dump :: "(string \<Rightarrow> 'a list \<Rightarrow> string) \<Rightarrow> ('s \<Rightarrow> string) \<Rightarrow> environ \<Rightarrow> 's \<Rightarrow> string list" where
  "sm_dump Sprintf Sdump env sm =
     (if IsDebug env \<and> IsDump env then logf Sprintf env dDump sm_logHeader (Sdump sm) [] else [])"

text \<open>\<open>RoundInfo\<close> has the same methods as \<open>StateMachine\<close>.\<close>

definition sm_assertf :: "(string \<Rightarrow> 'a list \<Rightarrow> string) \<Rightarrow> ('s \<Rightarrow> string) \<Rightarrow> environ \<Rightarrow> 's \<Rightarrow> bool \<Rightarrow> string \<Rightarrow> 'a list \<Rightarrow>
    string list \<times> unit go" where
  "sm_assertf Sprintf Sdump env sm condition format a =
     (let (lines, r) = assertf Sprintf env condition sm_logHeader format a in (sm_dump Sprintf Sdump env sm @ lines, r))"

definition sv_logHeader :: "(string \<Rightarrow> string list \<Rightarrow> string) \<Rightarrow> ('c, 'r) Server \<Rightarrow> string" where
  "sv_logHeader Sprintf s = Sprintf ''server %v'' [sv_Me s]"

definition cl_logHeader :: "(string \<Rightarrow> string list \<Rightarrow> string) \<Rightarrow> (uuid \<Rightarrow> string) \<Rightarrow> 'c Client \<Rightarrow> string" where
  "cl_logHeader Sprintf uuid_String c = Sprintf ''client %s (on server %v)'' [uuid_String (cl_Id c), cl_serverId c]"

text \<open>\<open>dump\<close> of a server or client, with its header: \<open>held\<close> says whether the caller holds the mutex.\<close>

definition locked_dump :: "(string \<Rightarrow> 'a list \<Rightarrow> string) \<Rightarrow> ('s \<Rightarrow> string) \<Rightarrow> environ \<Rightarrow> bool \<Rightarrow> string \<Rightarrow> 's \<Rightarrow> string list option" where
  "locked_dump Sprintf Sdump env held header x =
     (if IsDebug env \<and> IsDump env
      then if held then None else Some (logf Sprintf env dDump header (Sdump x) [])
      else Some [])"

definition locked_assertf :: "(string \<Rightarrow> 'a list \<Rightarrow> string) \<Rightarrow> ('s \<Rightarrow> string) \<Rightarrow> environ \<Rightarrow> bool \<Rightarrow> string \<Rightarrow> 's \<Rightarrow> bool \<Rightarrow> string \<Rightarrow> 'a list \<Rightarrow>
    (string list \<times> unit go) option" where
  "locked_assertf Sprintf Sdump env held header x condition format a =
     map_option (\<lambda>dumped. let (lines, r) = assertf Sprintf env condition header format a in (dumped @ lines, r))
       (locked_dump Sprintf Sdump env held header x)"

definition sv_assertf :: "(string \<Rightarrow> string list \<Rightarrow> string) \<Rightarrow> (('c, 'r) Server \<Rightarrow> string) \<Rightarrow> environ \<Rightarrow> bool \<Rightarrow> ('c, 'r) Server \<Rightarrow> bool \<Rightarrow>
    string \<Rightarrow> string list \<Rightarrow> (string list \<times> unit go) option" where
  "sv_assertf Sprintf Sdump env held s = locked_assertf Sprintf Sdump env held (sv_logHeader Sprintf s) s"

definition cl_assertf :: "(string \<Rightarrow> string list \<Rightarrow> string) \<Rightarrow> (uuid \<Rightarrow> string) \<Rightarrow> ('c Client \<Rightarrow> string) \<Rightarrow> environ \<Rightarrow> bool \<Rightarrow> 'c Client \<Rightarrow> bool \<Rightarrow>
    string \<Rightarrow> string list \<Rightarrow> (string list \<times> unit go) option" where
  "cl_assertf Sprintf uuid_String Sdump env held c = locked_assertf Sprintf Sdump env held (cl_logHeader Sprintf uuid_String c) c"

subsection \<open>Assertions\<close>

lemma SetDebug_IsDebug [simp]: "IsDebug (SetDebug debug env) = debug" "IsDump (SetDebug debug env) = IsDump env"
  by (simp_all add: IsDebug_def SetDebug_def IsDump_def debugEnvKey_def dumpEnvKey_def)

lemma SetDump_IsDump [simp]: "IsDump (SetDump dump env) = dump" "IsDebug (SetDump dump env) = IsDebug env"
  by (simp_all add: IsDebug_def SetDump_def IsDump_def debugEnvKey_def dumpEnvKey_def)

text \<open>A failed assertion panics, which is all that the model of the other components keeps of it; every panic of \<open>assertf\<close> is logged first.\<close>

lemma assertf_go_assert:
  "(\<exists>msg. snd (assertf Sprintf env condition header format a) = Inl msg) = (go_assert (IsDebug env) condition = Inl AssertionError)"
  "snd (assertf Sprintf env condition header format a) = Inl msg \<Longrightarrow> length (fst (assertf Sprintf env condition header format a)) = 1"
  by (auto simp: assertf_def logf_def go_assert_def split: if_splits)

text \<open>
  Assertions of a client. Outside the mutex \<open>assertf\<close> always returns. Under it, it returns exactly unless both DEBUG and DUMP are set, whatever
  the condition is.
\<close>

lemma cl_assertf_returns:
  "cl_assertf Sprintf uuid_String Sdump env held c condition format a = None \<longleftrightarrow> held \<and> IsDebug env \<and> IsDump env"
  by (simp add: cl_assertf_def locked_assertf_def locked_dump_def)

lemma cl_assertf_quiet:
  "cl_assertf Sprintf uuid_String Sdump (SetDebug False env) held c condition format a = Some ([], Inr ())"
  by (simp add: cl_assertf_def locked_assertf_def locked_dump_def assertf_def)

end
