(* ===== verification/Libp2p.thy ===== *)
theory Libp2p
  imports Egg_Prelude "HOL-Library.Sublist"
begin

text \<open>
  \<open>network/libp2p.go\<close>: the connection provider of the distributed program.

  \<^item> The packages of libp2p are not in the repository. What the file calls of them is the record \<open>libp2p\<close>, whose methods may
    fail: parsing an address, connecting to a peer, a remote call, creating a host. \<open>'h\<close> is the type of hosts, \<open>'i\<close> that of peer ids,
    \<open>'a\<close> and \<open>'r\<close> are arguments and replies.
  \<^item> Addresses are strings; \<open>str_Contains\<close> is \<open>strings.Contains\<close>, and agrees with \<open>sublist\<close> of the library.

  The lemmas: \<open>Me\<close> is the last address that is not a loopback one, or empty when there is none; \<open>Call\<close> does not connect to the
  own host, and is true exactly when the call succeeded.
\<close>

record ('h, 'i, 'a, 'r) libp2p =
  lp_New :: "string \<Rightarrow> 'h option"
  lp_ID :: "'h \<Rightarrow> 'i"
  lp_Addrs :: "'h \<Rightarrow> string list"
  lp_AddrInfoToP2pAddrs :: "'i \<Rightarrow> string list \<Rightarrow> string list option"
  lp_NewMultiaddr :: "string \<Rightarrow> string option"
  lp_AddrInfoFromP2pAddr :: "string \<Rightarrow> 'i option"
  lp_Connect :: "'h \<Rightarrow> 'i \<Rightarrow> bool"
  lp_ClientCall :: "'h \<Rightarrow> 'i \<Rightarrow> string \<Rightarrow> string \<Rightarrow> 'a \<Rightarrow> 'r option"

text \<open>The client and the server of the struct are created from the host, and stand for it in calls.\<close>

record 'h Libp2pConnectionProvider =
  l2_Host :: 'h

text \<open>The parsing of an address, which panics when it fails.\<close>

definition peer_of :: "('h, 'i, 'a, 'r) libp2p \<Rightarrow> string \<Rightarrow> 'i go" where
  "peer_of lp server =
     (case lp_NewMultiaddr lp server of
        None \<Rightarrow> Inl (Panic ''NewMultiaddr'')
      | Some ma \<Rightarrow> (case lp_AddrInfoFromP2pAddr lp ma of None \<Rightarrow> Inl (Panic ''AddrInfoFromP2pAddr'') | Some peer \<Rightarrow> Inr peer))"

definition l2_Call :: "('h, 'i, 'a, 'r) libp2p \<Rightarrow> 'h Libp2pConnectionProvider \<Rightarrow> string \<Rightarrow> string \<Rightarrow> string \<Rightarrow> 'a \<Rightarrow> (bool \<times> 'r option) go" where
  "l2_Call lp cp server svcName svcMeth args =
     go_bind (peer_of lp server) (\<lambda>peer.
       if peer \<noteq> lp_ID lp (l2_Host cp) \<and> \<not> lp_Connect lp (l2_Host cp) peer then Inr (False, None)
       else let reply = lp_ClientCall lp (l2_Host cp) peer svcName svcMeth args in Inr (reply \<noteq> None, reply))"

definition createPeer :: "('h, 'i, 'a, 'r) libp2p \<Rightarrow> string \<Rightarrow> 'h go" where
  "createPeer lp listenAddr = (case lp_New lp listenAddr of None \<Rightarrow> Inl (Panic ''libp2p.New'') | Some h \<Rightarrow> Inr h)"

definition NewLibp2p :: "('h, 'i, 'a, 'r) libp2p \<Rightarrow> 'h Libp2pConnectionProvider go" where
  "NewLibp2p lp = go_bind (createPeer lp ''/ip4/0.0.0.0/tcp/0'') (\<lambda>h. Inr \<lparr>l2_Host = h\<rparr>)"

definition l2_NumPeers :: "'h Libp2pConnectionProvider \<Rightarrow> nat go" where
  "l2_NumPeers cp = Inl (Panic ''idk'')"

text \<open>\<open>strings.Contains\<close>: the substring starts at some position.\<close>

fun str_Contains :: "string \<Rightarrow> string \<Rightarrow> bool" where
  "str_Contains s sub = (prefix sub s \<or> (case s of [] \<Rightarrow> False | _ # t \<Rightarrow> str_Contains t sub))"

declare str_Contains.simps [simp del]

fun choose_addr :: "string list \<Rightarrow> string \<Rightarrow> string" where
  "choose_addr [] chosenAddr = chosenAddr"
| "choose_addr (addr # addrs) chosenAddr =
     choose_addr addrs (if \<not> str_Contains addr ''127.0.0.1'' then addr else chosenAddr)"

definition l2_Me :: "('h, 'i, 'a, 'r) libp2p \<Rightarrow> 'h Libp2pConnectionProvider \<Rightarrow> string go" where
  "l2_Me lp cp =
     (case lp_AddrInfoToP2pAddrs lp (lp_ID lp (l2_Host cp)) (lp_Addrs lp (l2_Host cp)) of
        None \<Rightarrow> Inl (Panic ''AddrInfoToP2pAddrs'')
      | Some addrs \<Rightarrow> Inr (choose_addr addrs ''''))"

subsection \<open>What they return\<close>

lemma str_Contains_sublist: "str_Contains s sub \<longleftrightarrow> sublist sub s"
proof (induction s)
  case Nil
  show ?case by (simp add: str_Contains.simps)
next
  case (Cons ch s)
  then show ?case by (subst str_Contains.simps) (simp add: sublist_Cons_right)
qed

lemma choose_addr_last:
  "choose_addr addrs chosen = last (chosen # List.filter (\<lambda>addr. \<not> sublist ''127.0.0.1'' addr) addrs)"
  by (induction addrs arbitrary: chosen) (auto simp: str_Contains_sublist)

text \<open>
  A host that listens on loopback addresses only has the empty address: nobody, itself included, can call it under the address it
  announces, unless the empty string parses as an address.
\<close>

lemma l2_Me_loopback:
  assumes "lp_AddrInfoToP2pAddrs lp (lp_ID lp (l2_Host cp)) (lp_Addrs lp (l2_Host cp)) = Some addrs"
    and "\<forall>addr \<in> set addrs. sublist ''127.0.0.1'' addr"
  shows "l2_Me lp cp = Inr ''''"
proof -
  have "List.filter (\<lambda>addr. \<not> sublist ''127.0.0.1'' addr) addrs = []" using assms(2) by (auto simp: filter_empty_conv)
  then show ?thesis using assms(1) by (simp add: l2_Me_def choose_addr_last)
qed

text \<open>A call to the own address needs no connection; a call to another host needs one.\<close>

lemma l2_Call_local:
  assumes "peer_of lp server = Inr (lp_ID lp (l2_Host cp))"
  shows "l2_Call lp cp server svcName svcMeth args =
    (let reply = lp_ClientCall lp (l2_Host cp) (lp_ID lp (l2_Host cp)) svcName svcMeth args in Inr (reply \<noteq> None, reply))"
  using assms by (simp add: l2_Call_def)

lemma l2_Call_true_iff:
  assumes "peer_of lp server = Inr peer"
  shows "(\<exists>reply. l2_Call lp cp server svcName svcMeth args = Inr (True, reply)) \<longleftrightarrow>
    (peer = lp_ID lp (l2_Host cp) \<or> lp_Connect lp (l2_Host cp) peer) \<and> lp_ClientCall lp (l2_Host cp) peer svcName svcMeth args \<noteq> None"
  using assms by (auto simp: l2_Call_def Let_def)

end
