(* ===== verification/Startup.thy ===== *)
theory Startup
  imports Debug_Log Libp2p Confessions Lab_Rpc Client_Config
begin

text \<open>
  How the programs put the parts together: \<open>makeRaft\<close> of \<open>anonbcast/raft.go\<close>, \<open>MakeServer\<close> of \<open>anonbcast/server.go\<close>, and the beginnings of
  \<open>main\<close> in \<open>localconfessions/confessions.go\<close> and \<open>confessions/confessions.go\<close>, up to their loops.

  \<^item> The Raft implementation and the plugins are arguments: \<open>raft_Make\<close> is \<open>raft.Make\<close>, \<open>plugin_Open\<close> gives the symbols of a file. A plugin
    with a symbol of another type than that of \<open>raft.Make\<close> makes the type assertion panic.
  \<^item> The methods that \<open>MakeService\<close> finds by reflection are an argument too. The ids of new clients and the successive readings of the clock
    come from the environment.

  The lemmas: a plugin is loaded exactly when the variable RAFT is set; the local program starts, its network is connected, and
  every call of its clients to the server they presume to be the leader returns the reply of the server.
\<close>

subsection \<open>Raft and the server\<close>

type_synonym ('p, 'r) make_raft = "'p \<Rightarrow> string \<Rightarrow> configuration \<Rightarrow> Persister \<Rightarrow> bool \<Rightarrow> 'r"

datatype ('p, 'r) plugin_symbol = MakeFunction "('p, 'r) make_raft" | OtherSymbol

record ('p, 'r) raft_loader =
  raft_Make :: "('p, 'r) make_raft"
  plugin_Open :: "string \<Rightarrow> (string \<Rightarrow> ('p, 'r) plugin_symbol option) option"

definition compiledRaftEnvKey :: string where
  "compiledRaftEnvKey = ''RAFT''"

definition makeRaft :: "('p, 'r) raft_loader \<Rightarrow> environ \<Rightarrow> ('p \<Rightarrow> string go) \<Rightarrow> 'p \<Rightarrow> configuration \<Rightarrow> Persister \<Rightarrow> bool \<Rightarrow> 'r go" where
  "makeRaft ld env Me cp initialConfig persister sendAllLogAsInt =
     go_bind (Me cp) (\<lambda>me.
     let compiledRaft = env compiledRaftEnvKey
     in if compiledRaft = '''' then Inr (raft_Make ld cp me initialConfig persister sendAllLogAsInt)
        else case plugin_Open ld compiledRaft of
          None \<Rightarrow> Inl (Fatal ''cannot load raft plugin'')
        | Some p \<Rightarrow>
            (case p ''Make'' of
               None \<Rightarrow> Inl (Fatal ''cannot find Make'')
             | Some OtherSymbol \<Rightarrow> Inl (Panic ''interface conversion'')
             | Some (MakeFunction makef) \<Rightarrow> Inr (makef cp me initialConfig persister sendAllLogAsInt)))"

definition MakeServer :: "('p, 'r) raft_loader \<Rightarrow> environ \<Rightarrow> ('p \<Rightarrow> string go) \<Rightarrow> 'p \<Rightarrow> configuration \<Rightarrow> Persister \<Rightarrow> int \<Rightarrow>
    (('c, 'r) Server \<times> 'r) go" where
  "MakeServer ld env Me cp initialCfg persister maxraftstate =
     go_bind (makeRaft ld env Me cp initialCfg persister False) (\<lambda>rf.
     go_bind (Me cp) (\<lambda>me.
     go_bind (NewServer (IsDebug env) me rf) (\<lambda>s. Inr (s, rf))))"

subsection \<open>The local program\<close>

record ('c, 'w, 'v) local_state =
  lo_server :: "('c, 'c Mockraft) Server"
  lo_net :: "('w, 'v) Network"
  lo_client1 :: "'c Client \<times> LabrpcConnectionProvider"
  lo_client2 :: "'c Client \<times> LabrpcConnectionProvider"

definition program_ClientConfig :: ClientConfig where
  "program_ClientConfig = \<lparr>cfg_MessageTimeout = 30 * 1000000000, cfg_ProtocolTimeout = 10 * 1000000000, cfg_MessageSize = 100\<rparr>"

text \<open>The network of the local program: \<open>addr\<close> is the address of the new server object, \<open>methods\<close> what reflection finds.\<close>

definition local_network :: "nat \<Rightarrow> ('w, 'v) labMethod list \<Rightarrow> (ClientEnd \<times> ClientEnd \<times> ('w, 'v) Network) go" where
  "local_network addr methods =
     go_bind (MakeEnd MakeNetwork (StrName ''client1'')) (\<lambda>(end1, net).
     go_bind (MakeEnd net (StrName ''client2'')) (\<lambda>(end2, net).
     let srv = AddService lab_MakeServer (MakeService ''Server'' methods);
         net = AddServer (StrName ''server'') addr (net\<lparr>nw_objs := (nw_objs net)(addr := srv)\<rparr>);
         net = Enable (StrName ''client1'') True (Connect (StrName ''client1'') (StrName ''server'') net);
         net = Enable (StrName ''client2'') True (Connect (StrName ''client2'') (StrName ''server'') net)
     in Inr (end1, end2, net)))"

definition start_local :: "bool \<Rightarrow> 'c crypto_methods \<Rightarrow> nat \<Rightarrow> ('w, 'v) labMethod list \<Rightarrow> uuid \<Rightarrow> uuid \<Rightarrow> (nat \<Rightarrow> int) \<Rightarrow>
    ('c, 'w, 'v) local_state go" where
  "start_local debug cm addr methods pid1 pid2 now =
     go_bind (NewServer debug ''0'' mr_New) (\<lambda>s.
     go_bind (local_network addr methods) (\<lambda>(end1, end2, net).
     let cp1 = cp_New [end1] 0; cp2 = cp_New [end2] 0; seedConf = [(''0'', True)]
     in go_bind (NewClient debug cm pid1 (now 0) (now 1) s seedConf program_ClientConfig) (\<lambda>(c1, _, s).
        go_bind (CreateResCh debug c1) (\<lambda>c1.
        go_bind (NewClient debug cm pid2 (now 2) (now 3) s seedConf program_ClientConfig) (\<lambda>(c2, _, s).
          Inr \<lparr>lo_server = s, lo_net = net, lo_client1 = (c1, cp1), lo_client2 = (c2, cp2)\<rparr>)))))"

subsection \<open>The program over libp2p\<close>

text \<open>
  \<open>readInput\<close> on the lines of the terminal, \<open>None\<close> for an error of the reader: what it sends, and whether it has ended the program.
\<close>

fun readInput :: "string option list \<Rightarrow> string list \<times> unit go" where
  "readInput [] = ([], Inr ())"
| "readInput (None # lines) = ([], Inl (Fatal ''err''))"
| "readInput (Some msg # lines) = (let (sent, r) = readInput lines in (msg # sent, r))"

definition seed_configuration :: "('h, 'i, 'a, 'r) libp2p \<Rightarrow> 'h Libp2pConnectionProvider \<Rightarrow> string \<Rightarrow> configuration go" where
  "seed_configuration lp cp join =
     (if join = '''' then go_bind (l2_Me lp cp) (\<lambda>me. Inr [(me, True)])
      else go_bind (peer_of lp join) (\<lambda>peer.
        if \<not> lp_Connect lp (l2_Host cp) peer then Inl (Panic ''Connect'') else Inr [(join, True)]))"

text \<open>\<open>register\<close> is \<open>cp.Server.Register\<close> of a server or of its Raft instance.\<close>

definition start_main :: "('h, 'i, 'a, 'b) libp2p \<Rightarrow> ('h Libp2pConnectionProvider, 'r) raft_loader \<Rightarrow> (('c, 'r) Server + 'r \<Rightarrow> bool) \<Rightarrow>
    environ \<Rightarrow> 'c crypto_methods \<Rightarrow> string \<Rightarrow> uuid \<Rightarrow> (nat \<Rightarrow> int) \<Rightarrow> ('c Client \<times> ('c, 'r) Server \<times> configuration) go" where
  "start_main lp ld register env cm join pid now =
     go_bind (NewLibp2p lp) (\<lambda>cp.
     go_bind (seed_configuration lp cp join) (\<lambda>seedConf.
     go_bind (MakeServer ld env (l2_Me lp) cp seedConf MakePersister (- 1)) (\<lambda>(s, rf).
     if \<not> register (Inl s) then Inl (Panic ''Register'')
     else if \<not> register (Inr rf) then Inl (Panic ''Register'')
     else go_bind (NewClient (IsDebug env) cm pid (now 0) (now 1) s seedConf program_ClientConfig) (\<lambda>(c, _, s).
          go_bind (CreateResCh (IsDebug env) c) (\<lambda>c. Inr (c, s, seedConf))))))"

subsection \<open>Choosing an implementation of Raft\<close>

lemma makeRaft_plugin:
  assumes "Me cp = Inr me"
  shows "(\<exists>rf. makeRaft ld env Me cp conf persister b = Inr rf) \<longleftrightarrow>
    env compiledRaftEnvKey = '''' \<or>
    (\<exists>p makef. plugin_Open ld (env compiledRaftEnvKey) = Some p \<and> p ''Make'' = Some (MakeFunction makef))"
  using assms by (auto simp: makeRaft_def Let_def split: option.splits plugin_symbol.splits)

text \<open>The server runs the Raft instance that is returned beside it, under the address of the connection provider, from an empty state.\<close>

lemma MakeServer_runs:
  assumes "MakeServer ld env Me cp conf persister maxraftstate = Inr (s, rf)"
  shows "sv_rf s = rf \<and> Me cp = Inr (sv_Me s) \<and> sv_updChs s = [] \<and> \<not> sv_dead s"
  using assms by (auto simp: MakeServer_def NewServer_def elim!: go_bindE)

text \<open>
  A program that joins has the address it was given as its configuration, one that does not has its own, so that it is the only
  server: with loopback addresses only, that is the empty address.
\<close>

lemma start_main_conf:
  assumes "start_main lp ld register env cm join pid now = Inr (c, s, seedConf)"
  shows "cl_currConf c = map fst seedConf \<and> length seedConf = 1 \<and> (if join = '''' then fst (hd seedConf) = sv_Me s else fst (hd seedConf) = join)"
proof -
  from assms obtain cp s0 rf i c0 where
    cp: "seed_configuration lp cp join = Inr seedConf" and s0: "MakeServer ld env (l2_Me lp) cp seedConf MakePersister (- 1) = Inr (s0, rf)"
    and c0: "NewClient (IsDebug env) cm pid (now 0) (now 1) s0 seedConf program_ClientConfig = Inr (c0, i, s)"
    and c: "CreateResCh (IsDebug env) c0 = Inr c"
    by (auto simp: start_main_def elim!: go_bindE split: if_splits)
  have "cl_currConf c = map fst seedConf" "sv_Me s = sv_Me s0"
    using c c0 by (auto simp: CreateResCh_def NewClient_def mapToSlice_def GetUpdCh_def Let_def elim!: go_bindE)
  moreover have "l2_Me lp cp = Inr (sv_Me s0)" using MakeServer_runs [OF s0] by simp
  ultimately show ?thesis using cp by (auto simp: seed_configuration_def elim!: go_bindE split: if_splits)
qed

subsection \<open>The local program is connected\<close>

lemma add_methods_notin: "name \<notin> lm_Name ` set ms \<Longrightarrow> add_methods ms methods name = methods name"
  by (induction ms arbitrary: methods) auto

lemma add_methods_in:
  "m \<in> set ms \<Longrightarrow> suitable m \<Longrightarrow> distinct (map lm_Name ms) \<Longrightarrow> add_methods ms methods (lm_Name m) = Some m"
  by (induction ms arbitrary: methods) (auto simp: add_methods_notin)

lemma local_network_offers:
  assumes "m \<in> set methods" and "suitable m" and "distinct (map lm_Name methods)"
  shows "\<exists>net. local_network addr methods = Inr (\<lparr>ce_endname = StrName ''client1''\<rparr>, \<lparr>ce_endname = StrName ''client2''\<rparr>, net) \<and>
    nw_reliable net \<and> (\<forall>e \<in> {''client1'', ''client2''}. offers net (StrName e) ''Server'' (lm_Name m) m)"
  using add_methods_in [OF assms, of Map.empty]
  by (simp add: local_network_def MakeEnd_def MakeNetwork_def Let_def AddServer_def Connect_def Enable_def offers_def AddService_def
      lab_MakeServer_def MakeService_def)

lemma start_local_runs:
  fixes methods :: "('w, 'v) labMethod list"
  assumes "local_network addr methods = Inr (end1, end2, net)"
  shows "\<exists>ls. start_local False (masseyOmura_methods probablyPrime) addr methods pid1 pid2 now = Inr ls \<and> lo_net ls = net \<and>
    snd (lo_client1 ls) = cp_New [end1] 0 \<and> snd (lo_client2 ls) = cp_New [end2] 0 \<and>
    (\<forall>c \<in> {fst (lo_client1 ls), fst (lo_client2 ls)}. cl_currConf c ! cl_lastKnownLeaderInd c = ''0'' \<and> cl_serverId c = sv_Me (lo_server ls))"
proof -
  have init: "initRound False zero_StateMachine 0 = Inr (sm_init :: masseyOmuraCrypto StateMachine)"
    using NewStateMachine_init [of False] by (simp add: NewStateMachine_def zero_StateMachine_def)
  have start: "NewStateMachine False None = Inr (sm_init :: masseyOmuraCrypto StateMachine)" by (rule NewStateMachine_init)
  show ?thesis
    using assms
    by (simp add: start_local_def NewServer_def start NewClient_def newLastStateMachine_def init GetUpdCh_def masseyOmura_methods_def
        demo_init_copy CreateResCh_def mapToSlice_def Let_def)
qed

text \<open>C27: the local program is wired correctly. It starts without a panic, and whenever one of its two clients calls a
  method of the server at the address it presumes to be the leader's, and nothing disturbs the call, the client receives the reply of the
  server to its arguments, and the method has run once on the state of the server.\<close>

theorem local_calls_succeed:
  assumes "gob_round_trip g" and "m \<in> set methods" and "suitable m" and "distinct (map lm_Name methods)"
    and "CHR ''.'' \<notin> set (lm_Name m)" and "lm_call m w args = (v, w')"
  shows "\<exists>ls. start_local False (masseyOmura_methods probablyPrime) addr methods pid1 pid2 now = Inr ls \<and>
    (\<forall>(c, cp) \<in> {lo_client1 ls, lo_client2 ls}. \<exists>e meth req ns rep.
       cp_Call cp (cl_currConf c ! cl_lastKnownLeaderInd c) ''Server'' (lm_Name m) = Inr (e, meth) \<and>
       call_request g e meth args = Inr req \<and>
       go_run (net_step g) \<lparr>ns_net = lo_net ls, ns_world = w, ns_calls = []\<rparr> (undisturbed req 0 lose lose') = Inr ns \<and>
       ca_answer (ns_calls ns ! 0) = Some rep \<and> call_result g (gob_type g v) rep = Inr (Some v) \<and> ns_world ns = w')"
proof -
  from local_network_offers [OF assms(2-4), of addr] obtain net where
    net: "local_network addr methods = Inr (\<lparr>ce_endname = StrName ''client1''\<rparr>, \<lparr>ce_endname = StrName ''client2''\<rparr>, net)" "nw_reliable net"
    and offers: "\<And>e. e \<in> {''client1'', ''client2''} \<Longrightarrow> offers net (StrName e) ''Server'' (lm_Name m) m" by blast
  from start_local_runs [OF net(1)] obtain ls where
    ls: "start_local False (masseyOmura_methods probablyPrime) addr methods pid1 pid2 now = Inr ls" "lo_net ls = net"
    and cps: "snd (lo_client1 ls) = cp_New [\<lparr>ce_endname = StrName ''client1''\<rparr>] 0" "snd (lo_client2 ls) = cp_New [\<lparr>ce_endname = StrName ''client2''\<rparr>] 0"
    and conf: "\<And>c. c \<in> {fst (lo_client1 ls), fst (lo_client2 ls)} \<Longrightarrow> cl_currConf c ! cl_lastKnownLeaderInd c = ''0''"
    by blast
  let ?ns = "\<lparr>ns_net = net, ns_world = w, ns_calls = []\<rparr>"
  have zero: "Itoa 0 = ''0''" by code_simp
  have call: "\<exists>e meth req ns rep. cp_Call (cp_New [\<lparr>ce_endname = StrName en\<rparr>] 0) ''0'' ''Server'' (lm_Name m) = Inr (e, meth) \<and>
      call_request g e meth args = Inr req \<and> go_run (net_step g) ?ns (undisturbed req 0 lose lose') = Inr ns \<and>
      ca_answer (ns_calls ns ! 0) = Some rep \<and> call_result g (gob_type g v) rep = Inr (Some v) \<and> ns_world ns = w'"
    if "en \<in> {''client1'', ''client2''}" for en
    using reliable_call [OF assms(1), of 0 "cp_New [\<lparr>ce_endname = StrName en\<rparr>] 0" ?ns "''Server''" "lm_Name m" m args v w' lose lose']
      offers [OF that] net(2) assms(5,6)
    by (simp add: cp_New_ends zero)
  have all: "\<exists>e meth req ns rep. cp_Call (snd x) (cl_currConf (fst x) ! cl_lastKnownLeaderInd (fst x)) ''Server'' (lm_Name m) = Inr (e, meth) \<and>
      call_request g e meth args = Inr req \<and>
      go_run (net_step g) \<lparr>ns_net = lo_net ls, ns_world = w, ns_calls = []\<rparr> (undisturbed req 0 lose lose') = Inr ns \<and>
      ca_answer (ns_calls ns ! 0) = Some rep \<and> call_result g (gob_type g v) rep = Inr (Some v) \<and> ns_world ns = w'"
    if "x \<in> {lo_client1 ls, lo_client2 ls}" for x
  proof -
    from that obtain en where "en \<in> {''client1'', ''client2''}" "snd x = cp_New [\<lparr>ce_endname = StrName en\<rparr>] 0" using cps by blast
    moreover have "cl_currConf (fst x) ! cl_lastKnownLeaderInd (fst x) = ''0''" using that by (intro conf) blast
    ultimately show ?thesis unfolding ls(2) using call [of en] by simp
  qed
  show ?thesis unfolding case_prod_unfold by (intro exI [of _ ls] conjI ls(1) ballI all)
qed

theorem local_calls_succeed_witness:
  "\<exists>ls. start_local False (masseyOmura_methods is_prime) 0 [demo_method] 1 2 int = Inr ls \<and>
    (\<exists>e meth req ns rep. cp_Call (snd (lo_client2 ls)) (cl_currConf (fst (lo_client2 ls)) ! cl_lastKnownLeaderInd (fst (lo_client2 ls)))
         ''Server'' ''Echo'' = Inr (e, meth) \<and>
       call_request demo_gob e meth [5] = Inr req \<and>
       go_run (net_step demo_gob) \<lparr>ns_net = lo_net ls, ns_world = 0, ns_calls = []\<rparr> (undisturbed req 0 True False) = Inr ns \<and>
       ca_answer (ns_calls ns ! 0) = Some rep \<and> call_result demo_gob ''bytes'' rep = Inr (Some [5, 1]) \<and> ns_world ns = 1)"
proof -
  have "suitable demo_method" "lm_Name demo_method = ''Echo''" "lm_call demo_method 0 [5] = ([5, 1], 1)"
    by (simp_all add: suitable_def demo_method_def)
  moreover have "gob_type demo_gob [5, 1] = ''bytes''" by (simp add: demo_gob_def)
  ultimately show ?thesis
    using local_calls_succeed [OF demo_round_trip, of demo_method "[demo_method]" 0 "[5]" "[5, 1]" 1 is_prime 0 1 2 int True False]
    by (simp add: case_prod_unfold) blast
qed

end
