(* ===== verification/Spec2Isabelle.thy ===== *)
theory Spec2Isabelle
  imports Server_Props Protocol_Props Client_Config Elgamal Lab_Gob Confessions Test_Rounds Test_Random Startup
begin

text \<open>
  Verification of eggscrambler, an anonymous broadcast over a replicated log. In every round the participants submit messages,
  each encrypted under keys of a commutative cipher; all of them encrypt, scramble and decrypt all messages in turn, and in
  the end reveal a key, so that everyone reads all messages and nobody knows who sent which.

  \<^bold>\<open>The parts and where they are modelled.\<close> Paths are relative to \<open>src/\<close>.

  \<^item> \<open>Egg_Prelude\<close>: Go values, panics as results of type \<open>'a go\<close>, slices, and the contracts \<open>safe_steps\<close>, \<open>total_steps\<close> and
    \<open>ordered_steps\<close> of components that are driven step by step. \<open>Big_Int\<close>: what the sources use of \<open>math/big\<close> and \<open>crypto/rand\<close>.
    \<open>Prime_Mod\<close>: the number theory. \<open>Commutative_Cipher\<close>: the contract of the cipher.
  \<^item> \<open>Massey_Omura\<close>: \<open>masseyomura/*.go\<close>, key generation, padding and the cipher. \<open>Crypto\<close>: \<open>anonbcast/crypto.go\<close>, messages and keys as
    bytes, and the interface that the rest uses. \<open>Elgamal\<close>: \<open>elgamal/*.go\<close>, an earlier cipher that no other package calls.
  \<^item> \<open>Op\<close> and \<open>State_Machine\<close>: \<open>anonbcast/op.go\<close> and \<open>statemachine.go\<close>, the replicated state: rounds, phases, and one handler per kind of
    operation. \<open>Round_Steps\<close> is the abstract specification of a round, two step relations.
  \<^item> \<open>Raft_Lib\<close>: \<open>libraft/*.go\<close> and \<open>mockraft/mockraft.go\<close>. \<open>Resp_Channels\<close>, \<open>Server\<close>: \<open>anonbcast/respchannels.go\<close>, \<open>server.go\<close> and
    \<open>serverconfigurationchange.go\<close>. The server feeds the commands of the log to the state machine, answers requests and sends
    copies of the state to its subscribers.
  \<^item> \<open>Elimination_Queue\<close>, \<open>Last_State_Machine\<close>, \<open>Client\<close>: \<open>anonbcast/eliminationqueue.go\<close>, \<open>laststatemachine.go\<close> and \<open>client.go\<close>. A client
    subscribes to a server, reacts to every state with goroutines that compute the next operation, and reports results.
    \<open>Client_Config\<close>: \<open>clientconfigurationchange.go\<close>, joining and leaving the configuration of Raft, and \<open>Kill\<close>.
  \<^item> \<open>Protocol\<close>, with \<open>Protocol_Rounds\<close>, \<open>Protocol_Inv\<close>, \<open>Protocol_Read\<close>: clients, log and state machine composed.
    \<open>Demo_Prime\<close> and \<open>Protocol_Demo\<close> hold the concrete run of the witnesses.
  \<^item> \<open>Lab_Rpc\<close>: \<open>labrpc/labrpc.go\<close>, the simulated network, and \<open>network/labrpc_connection_provider.go\<close>. \<open>Lab_Gob\<close>: the checks of
    \<open>labgob/labgob.go\<close> and its operations. \<open>Test_Config\<close>, \<open>Test_Rounds\<close> and \<open>Test_Random\<close>: \<open>anonbcast/config.go\<close>, servers and clients over the
    simulated network, the checks of a test, and its random names.
  \<^item> \<open>Confessions\<close>: the loops of the two programs, \<open>localconfessions/confessions.go\<close> and \<open>confessions/confessions.go\<close>. \<open>Startup\<close>: how they put server,
    network and client together, with \<open>MakeServer\<close> and \<open>anonbcast/raft.go\<close>. \<open>Libp2p\<close>: \<open>network/libp2p.go\<close>. \<open>Debug_Log\<close>: \<open>anonbcast/debug.go\<close> and the
    assertions of the components, which the other theories keep as \<open>go_assert\<close>.

  \<^bold>\<open>How the code is translated.\<close> A struct is a record, an interface a record of methods, an enumeration a datatype. An index out of
  range, a nil dereference, a failed assertion and \<open>log.Fatal\<close> are values \<open>Inl\<close> of the result. A method under a mutex is one
  function on the state; a goroutine or a method with several critical sections is split at the points where others may run,
  and a step function or a list of moments interleaves the sections. Random numbers, the clock, and the user are arguments.

  \<^bold>\<open>What is shown.\<close>

  \<^item> Cipher: the scheme is correct and commutative for every prime, through padding and key generation, with the exact limits of message
    sizes (\<open>Massey_Omura\<close>, \<open>Elgamal\<close>). The contract \<open>commutative_cipher\<close> is interpreted on numbers and on bytes.
  \<^item> State machine: \<open>Apply\<close> refines the relations of \<open>Round_Steps\<close>; the invariant holds in all reachable states; phases are
    barriers; test and set admits one update; \<open>GuaranteedNoEffect\<close> is sound; finished rounds do not change; a round with participants can
    always be completed (\<open>State_Machine_Props\<close>, \<open>Machine_Progress\<close>).
  \<^item> Server: equal logs give equal states, subscribers see ordered states, a reply OK is justified (\<open>Server_Props\<close>).
  \<^item> Client: a reported success has passed every check (\<open>Client_Props\<close>); joining and leaving are confirmed, polling finds a leader,
    the index of the leader stays in range (\<open>Client_Config\<close>); the queue keeps the newest operation.
  \<^item> Composition: when clients follow the protocol, in any interleaving, every participant of a completed round reports
    success and exactly the messages that were sent (\<open>Protocol_Props\<close>).
  \<^item> Surroundings: calls of the simulated network run at most once and succeed on a reliable one (\<open>Lab_Rpc\<close>); the partition of a test
    isolates its sides (\<open>Test_Config\<close>), and one that passes has seen two rounds with the messages expected (\<open>Test_Rounds\<close>); end names differ when their
    random bytes do (\<open>Test_Random\<close>); results are put in order (\<open>Confessions\<close>); the type check of labgob ends and is complete; the clients of
    the local program reach its server (\<open>Startup\<close>).

  \<^bold>\<open>Bounds and fuel.\<close> Loops that wait for others consume a list of moments, and not returning within it is visible in the result; that they
  return is stated separately (\<open>configuration_changes_confirmed\<close>, \<open>getMembership_finds_leader\<close>). Loops that wait for the library's prime generator
  are partial functions. A random reader is the list of bytes it gives before it fails, and a loop that draws from it, as in \<open>GenUserKey\<close>, ends there
  at the latest; a reader that never fails is an unending stream, and \<open>GenUserKey_returns\<close> says on its prefixes exactly when
  the loop returns, and that it reads on for ever when no draw is acceptable. The only fuel is the recursion depth of \<open>checkType\<close>: one more than the
  number of types, which \<open>checkType_complete\<close> shows to be enough. Integers that a client counts are unbounded; the counters of the
  simulated network and \<open>strconv.Atoi\<close> keep their width.

  \<^bold>\<open>Not modelled.\<close> The Raft implementation is a git submodule or a plugin and not in the repository: the server takes it as a
  parameter. So are libp2p and gorpc, the codec of \<open>encoding/gob\<close>, \<open>fmt.Sprintf\<close>, \<open>spew.Sdump\<close>, SHA-256 and \<open>rand.Prime\<close>. The \<open>String\<close> methods and what is
  printed or logged for information only are left out, as are flag parsing and the methods of the test
  configuration that only lock and call another. Secrecy,
  that nobody learns who sent a message, is a property of distributions and of the hardness of discrete logarithms and is
  not stated; what is shown of it is that every order of the messages is a possible result of a scramble.
\<close>

end
